(* ===== verification/Tpc_Prelude.thy ===== *)
theory Tpc_Prelude
  imports Main "HOL-Library.List_Lexorder" "HOL-Library.Char_ord"
begin

text \<open>
  Shared vocabulary of the development: the theorem collections that carry the component
  proofs, the C++ \<open>int\<close> as an integer with its wrap-around written out, and the two kinds
  of \<open>std::map\<close> the sources use (an ordered association list where the sources iterate
  over the map, a partial function where they only index it).
\<close>

named_theorems handler_defs \<open>definitions of the request and reply handlers\<close>
named_theorems frame_simps \<open>fields that an operation leaves alone\<close>
named_theorems cluster_simps \<open>evaluation of the cluster arithmetic\<close>

section \<open>C++ integers\<close>

text \<open>
  A C++ \<open>int\<close> has 32 bits and a \<open>long\<close> 64. Values are \<open>int\<close>; every
  arithmetic operation of the sources on an \<open>int\<close> is followed by \<open>i32\<close>, which
  reduces to the two's complement range (what the compiled code does on overflow, which
  the language leaves undefined).
\<close>

definition i32 :: "int \<Rightarrow> int" where
  "i32 x = (x + 2147483648) mod 4294967296 - 2147483648"

definition int32 :: "int \<Rightarrow> bool" where
  "int32 x \<longleftrightarrow> - 2147483648 \<le> x \<and> x < 2147483648"

text \<open>The same for a \<open>long\<close>.\<close>

definition i64 :: "int \<Rightarrow> int" where
  "i64 x = (x + 2 ^ 63) mod 2 ^ 64 - 2 ^ 63"

lemma int32_i32 [simp]: "int32 (i32 x)"
  using pos_mod_bound [of 4294967296 "x + 2147483648"]
    pos_mod_sign [of 4294967296 "x + 2147483648"]
  by (simp add: int32_def i32_def)

lemma i32_id: "int32 x \<Longrightarrow> i32 x = x"
  by (simp add: int32_def i32_def mod_pos_pos_trivial)

lemma i32_id_iff: "i32 x = x \<longleftrightarrow> int32 x"
  by (metis int32_i32 i32_id)

lemma i32_i32 [simp]: "i32 (i32 x) = i32 x"
  by (simp add: i32_id)

lemma int32_abs: "int32 x \<Longrightarrow> \<bar>x\<bar> \<le> 2 ^ 31"
  by (auto simp: int32_def)

lemma i32_numeral [simp]:
  "numeral k < (2147483648::int) \<Longrightarrow> i32 (numeral k) = numeral k"
  "numeral k \<le> (2147483648::int) \<Longrightarrow> i32 (- numeral k) = - numeral k"
  by (simp_all add: i32_id int32_def)

lemma i32_const [simp]: "i32 0 = 0" "i32 1 = 1" "i32 (- 1) = - 1"
  by (simp_all add: i32_id int32_def)

lemma i32_eq_mod: "i32 x = i32 y \<longleftrightarrow> x mod 4294967296 = y mod 4294967296"
proof -
  have "i32 x = i32 y \<longleftrightarrow> 4294967296 dvd (x + 2147483648) - (y + 2147483648)"
    by (simp add: i32_def mod_eq_dvd_iff)
  then show ?thesis by (simp add: mod_eq_dvd_iff)
qed

lemma i32_mod: "i32 x mod 4294967296 = x mod 4294967296"
  by (metis i32_eq_mod i32_i32)

lemma i32_add [simp]: "i32 (i32 x + y) = i32 (x + y)" "i32 (x + i32 y) = i32 (x + y)"
  unfolding i32_eq_mod by (metis i32_mod mod_add_left_eq, metis i32_mod mod_add_right_eq)

lemma i32_diff [simp]: "i32 (i32 x - y) = i32 (x - y)" "i32 (x - i32 y) = i32 (x - y)"
  unfolding i32_eq_mod by (metis i32_mod mod_diff_left_eq, metis i32_mod mod_diff_right_eq)

text \<open>Integer division rounded up, the way \<open>ceil\<close> of a quotient rounds.\<close>

lemma ceil_div_iff:
  fixes n d k :: int
  assumes "0 < d"
  shows "- (- n div d) = k \<longleftrightarrow> (k - 1) * d < n \<and> n \<le> k * d"
proof
  define q r where "q = - n div d" and "r = - n mod d"
  have n: "- n = d * q + r" and r: "0 \<le> r" "r < d"
    using assms by (simp_all add: q_def r_def)
  assume "- (- n div d) = k"
  then have "q = - k" by (simp add: q_def)
  with n r show "(k - 1) * d < n \<and> n \<le> k * d" by (simp add: algebra_simps)
next
  assume "(k - 1) * d < n \<and> n \<le> k * d"
  then have "- n div d = - k"
    by (intro int_div_pos_eq [where r = "k * d - n"]) (simp_all add: algebra_simps)
  then show "- (- n div d) = k" by simp
qed

section \<open>std::map indexed by the sources\<close>

text \<open>
  \<open>m[k]\<close> on a \<open>std::map<int, int>\<close> inserts \<open>0\<close> when the key is missing: \<open>idx\<close> is
  the value read and \<open>touch\<close> the map afterwards.
\<close>

definition idx :: "('k \<rightharpoonup> int) \<Rightarrow> 'k \<Rightarrow> int" where
  "idx m k = (case m k of None \<Rightarrow> 0 | Some v \<Rightarrow> v)"

definition touch :: "('k \<rightharpoonup> int) \<Rightarrow> 'k \<Rightarrow> ('k \<rightharpoonup> int)" where
  "touch m k = m(k \<mapsto> idx m k)"

lemma idx_upd [simp]: "idx (m(k \<mapsto> v)) j = (if j = k then v else idx m j)"
  by (simp add: idx_def)

lemma idx_touch [simp]: "idx (touch m k) = idx m"
  by (rule ext) (simp add: touch_def idx_def)

lemma idx_empty [simp]: "idx Map.empty k = 0"
  by (simp add: idx_def)

section \<open>std::map that the sources iterate over\<close>

text \<open>
  A \<open>std::map\<close> with a range-for over it is the list of its pairs in key order.
\<close>

fun smap_set :: "'k::linorder \<Rightarrow> 'v \<Rightarrow> ('k \<times> 'v) list \<Rightarrow> ('k \<times> 'v) list" where
  "smap_set k v [] = [(k, v)]"
| "smap_set k v (p # m) =
     (if k < fst p then (k, v) # p # m
      else if k = fst p then (k, v) # m
      else p # smap_set k v m)"

definition smap_ok :: "('k::linorder \<times> 'v) list \<Rightarrow> bool" where
  "smap_ok m \<longleftrightarrow> sorted_wrt (<) (map fst m)"

lemma map_of_smap_set [simp]: "map_of (smap_set k v m) = (map_of m)(k \<mapsto> v)"
  by (induction m) (auto simp: fun_eq_iff)

lemma keys_smap_set [simp]: "fst ` set (smap_set k v m) = insert k (fst ` set m)"
  by (induction m) auto

lemma smap_ok_Nil [simp]: "smap_ok []"
  by (simp add: smap_ok_def)

lemma smap_ok_set [simp]: "smap_ok m \<Longrightarrow> smap_ok (smap_set k v m)"
proof (induction m)
  case (Cons p m)
  then have "smap_ok m" and low: "\<forall>a \<in> fst ` set m. fst p < a"
    by (auto simp: smap_ok_def)
  then have "smap_ok (smap_set k v m)" by (simp add: Cons.IH)
  moreover have "\<forall>a \<in> set (map fst (smap_set k v m)). a = k \<or> a \<in> fst ` set m"
    using keys_smap_set [of k v m] by (metis image_set insert_iff)
  ultimately show ?case
    using Cons.prems low by (auto simp: smap_ok_def)
qed (simp add: smap_ok_def)

lemma smap_ok_distinct: "smap_ok m \<Longrightarrow> distinct (map fst m)"
  by (simp add: smap_ok_def strict_sorted_iff)

lemma map_of_rev_distinct: "distinct (map fst kvs) \<Longrightarrow> map_of (rev kvs) = map_of kvs"
  using map_of_inject_set [of "rev kvs" kvs] by (simp add: rev_map [symmetric])

text \<open>
  The contract of a map with assignment and lookup, whatever its representation: a later
  assignment to a key wins, and assignments to different keys commute.
\<close>

locale assign_map =
  fixes set_at :: "'k \<Rightarrow> 'v \<Rightarrow> 'm \<Rightarrow> 'm"
    and get_at :: "'m \<Rightarrow> 'k \<Rightarrow> 'v option"
  assumes get_set: "get_at (set_at k v m) = (get_at m)(k \<mapsto> v)"
begin

lemma get_fold_notin:
  "k \<notin> fst ` set kvs \<Longrightarrow> get_at (fold (\<lambda>(k, v). set_at k v) kvs m) k = get_at m k"
  by (induction kvs arbitrary: m) (auto simp: get_set)

lemma get_fold:
  "get_at (fold (\<lambda>(k, v). set_at k v) kvs m) = get_at m ++ map_of (rev kvs)"
  by (induction kvs arbitrary: m) (auto simp: get_set)

lemma get_fold_distinct:
  assumes "distinct (map fst kvs)" and "(k, v) \<in> set kvs"
  shows "get_at (fold (\<lambda>(k, v). set_at k v) kvs m) k = Some v"
  using assms by (simp add: get_fold map_add_Some_iff rev_map [symmetric])

end

interpretation smap: assign_map smap_set map_of
  by unfold_locales simp

section \<open>Simulation\<close>

text \<open>
  A transition system with an invariant implements another one along an abstraction: each step
  is matched by a run (none, one or many steps) of the abstract system.
\<close>

locale simulation =
  fixes step :: "'s \<Rightarrow> 's \<Rightarrow> bool" and inv :: "'s \<Rightarrow> bool" and abs_of :: "'s \<Rightarrow> 'a" and run :: "'a \<Rightarrow> 'a \<Rightarrow> bool"
  assumes inv_step: "inv s \<Longrightarrow> step s t \<Longrightarrow> inv t"
    and step_run: "inv s \<Longrightarrow> step s t \<Longrightarrow> run (abs_of s) (abs_of t)"
    and run_refl: "run a a"
    and run_trans: "run a b \<Longrightarrow> run b c \<Longrightarrow> run a c"
begin

lemma steps_inv: "step\<^sup>*\<^sup>* s t \<Longrightarrow> inv s \<Longrightarrow> inv t"
  by (induction rule: rtranclp_induct) (auto intro: inv_step)

lemma steps_run: "step\<^sup>*\<^sup>* s t \<Longrightarrow> inv s \<Longrightarrow> run (abs_of s) (abs_of t)"
proof (induction rule: rtranclp_induct)
  case base
  show ?case by (rule run_refl)
next
  case (step t u)
  then show ?case using run_trans step_run steps_inv by blast
qed

end

end
