(* ===== verification/Tpc_Std.thy ===== *)
theory Tpc_Std
  imports Tpc_Prelude
begin

text \<open>
  The parts of the C++ standard library that the sources use on text: \<open>std::to_string\<close> and
  \<open>operator<<\<close> on integers, \<open>operator>>\<close> on an \<open>std::istringstream\<close> (its sentry, its
  conversions and its fail bit), and \<open>std::stoi\<close> with its two exceptions. The lemmas show
  that what is printed is read back.
\<close>

section \<open>Printing integers\<close>

definition digit :: "nat \<Rightarrow> char" where
  "digit d = char_of (48 + d)"

fun nat_to_string :: "nat \<Rightarrow> string" where
  "nat_to_string n =
     (if n < 10 then [digit n] else nat_to_string (n div 10) @ [digit (n mod 10)])"

declare nat_to_string.simps [simp del]

definition to_string :: "int \<Rightarrow> string" where
  "to_string i =
     (if i < 0 then CHR ''-'' # nat_to_string (nat (- i)) else nat_to_string (nat i))"

section \<open>Scanning digits\<close>

definition is_digit :: "char \<Rightarrow> bool" where
  "is_digit c \<longleftrightarrow> 48 \<le> (of_char c :: nat) \<and> (of_char c :: nat) \<le> 57"

definition digit_val :: "char \<Rightarrow> nat" where
  "digit_val c = of_char c - 48"

fun scan_digits :: "nat \<Rightarrow> string \<Rightarrow> nat \<times> string" where
  "scan_digits acc [] = (acc, [])"
| "scan_digits acc (c # cs) =
     (if is_digit c then scan_digits (10 * acc + digit_val c) cs else (acc, c # cs))"

definition not_digit_first :: "string \<Rightarrow> bool" where
  "not_digit_first r \<longleftrightarrow> (case r of [] \<Rightarrow> True | c # _ \<Rightarrow> \<not> is_digit c)"

lemma of_char_digit [simp]: "d < 10 \<Longrightarrow> (of_char (digit d) :: nat) = 48 + d"
  by (simp add: digit_def)

lemma is_digit_digit [simp]: "d < 10 \<Longrightarrow> is_digit (digit d)"
  by (simp add: is_digit_def)

lemma digit_val_digit [simp]: "d < 10 \<Longrightarrow> digit_val (digit d) = d"
  by (simp add: digit_val_def)

lemma scan_digits_stop [simp]: "not_digit_first r \<Longrightarrow> scan_digits a r = (a, r)"
  by (cases r) (auto simp: not_digit_first_def)

lemma scan_digits_append:
  "list_all is_digit ds \<Longrightarrow>
   scan_digits a (ds @ r) = scan_digits (foldl (\<lambda>v c. 10 * v + digit_val c) a ds) r"
  by (induction ds arbitrary: a) auto

lemma nat_to_string_digits [simp]: "list_all is_digit (nat_to_string n)"
proof (induction n rule: nat_to_string.induct)
  case (1 n)
  then show ?case by (subst nat_to_string.simps) simp
qed

lemma nat_to_string_value [simp]:
  "foldl (\<lambda>v c. 10 * v + digit_val c) 0 (nat_to_string n) = n"
proof (induction n rule: nat_to_string.induct)
  case (1 n)
  then show ?case by (subst nat_to_string.simps) simp
qed

lemma nat_to_string_nonempty [simp]: "nat_to_string n \<noteq> []"
  by (subst nat_to_string.simps) simp

lemma nat_to_string_hd_digit [simp]: "is_digit (hd (nat_to_string n))"
  using nat_to_string_digits [of n] nat_to_string_nonempty [of n]
  by (cases "nat_to_string n") auto

lemma scan_digits_nat_to_string:
  "not_digit_first r \<Longrightarrow> scan_digits 0 (nat_to_string n @ r) = (n, r)"
  by (simp add: scan_digits_append)

section \<open>Signed numbers and white space\<close>

definition is_space :: "char \<Rightarrow> bool" where
  "is_space c \<longleftrightarrow> (of_char c :: nat) = 32 \<or> (9 \<le> (of_char c :: nat) \<and> (of_char c :: nat) \<le> 13)"

definition skip_ws :: "string \<Rightarrow> string" where
  "skip_ws s = dropWhile is_space s"

text \<open>
  A sign and digits: the value read and the rest of the input, or \<open>None\<close> when there is no
  digit after the optional sign.
\<close>

fun scan_sign :: "string \<Rightarrow> bool \<times> string" where
  "scan_sign [] = (False, [])"
| "scan_sign (c # cs) =
     (if c = CHR ''-'' then (True, cs) else if c = CHR ''+'' then (False, cs) else (False, c # cs))"

definition scan_int :: "string \<Rightarrow> (int \<times> string) option" where
  "scan_int s =
     (let (neg, t) = scan_sign s in
      if not_digit_first t then None
      else let (n, r) = scan_digits 0 t in Some (if neg then - int n else int n, r))"

lemma digit_not_space: "is_digit c \<Longrightarrow> \<not> is_space c"
  by (auto simp: is_digit_def is_space_def)

lemma digit_not_sign: "is_digit c \<Longrightarrow> c \<noteq> CHR ''-'' \<and> c \<noteq> CHR ''+''"
  by (auto simp: is_digit_def)

lemma nat_to_string_Cons:
  obtains c cs where "nat_to_string n = c # cs" and "is_digit c"
  using nat_to_string_digits [of n] nat_to_string_nonempty [of n]
  by (cases "nat_to_string n") auto

lemma not_digit_first_nat [simp]: "\<not> not_digit_first (nat_to_string n @ r)"
  by (rule nat_to_string_Cons [of n]) (simp add: not_digit_first_def)

lemma scan_sign_nat [simp]: "scan_sign (nat_to_string n @ r) = (False, nat_to_string n @ r)"
  by (rule nat_to_string_Cons [of n]) (auto dest: digit_not_sign)

lemma scan_int_to_string:
  "not_digit_first r \<Longrightarrow> scan_int (to_string i @ r) = Some (i, r)"
  by (auto simp: scan_int_def to_string_def scan_digits_nat_to_string)

lemma to_string_Cons:
  obtains c cs where "to_string i = c # cs" and "\<not> is_space c"
proof (cases "i < 0")
  case True
  then show ?thesis using that by (simp add: to_string_def is_space_def)
next
  case False
  then show ?thesis
    using that nat_to_string_Cons [of "nat i"] digit_not_space by (metis to_string_def)
qed

lemma skip_ws_to_string [simp]: "skip_ws (to_string i @ r) = to_string i @ r"
  by (rule to_string_Cons [of i]) (simp add: skip_ws_def)

lemma skip_ws_space [simp]: "skip_ws (CHR '' '' # r) = skip_ws r"
  by (simp add: skip_ws_def is_space_def)

lemma to_string_nonempty [simp]: "to_string i \<noteq> []"
  by (simp add: to_string_def)

lemma to_string_chars: "c \<in> set (to_string i) \<Longrightarrow> is_digit c \<or> c = CHR ''-''"
  using nat_to_string_digits [of "nat i"] nat_to_string_digits [of "nat (- i)"]
  by (auto simp: to_string_def list_all_iff split: if_splits)

lemma scan_int_whole: "scan_int (to_string i) = Some (i, [])"
  using scan_int_to_string [of "[]" i] by (simp add: not_digit_first_def)

lemma to_string_inject: "to_string i = to_string j \<longleftrightarrow> i = j"
  by (metis scan_int_whole option.inject prod.inject)

section \<open>std::istringstream\<close>

text \<open>
  The stream is what is left to read and whether it is still good. An extraction from a
  stream that is not good, or from one with only white space left, leaves its variable
  alone; one that finds no number stores \<open>0\<close>, one out of range the nearest bound, and
  both set the fail bit.
\<close>

record istream =
  rest :: string
  good :: bool

definition istringstream :: "string \<Rightarrow> istream" where
  "istringstream s = \<lparr>rest = s, good = True\<rparr>"

definition get_int :: "int \<Rightarrow> int \<Rightarrow> int \<Rightarrow> istream \<Rightarrow> int \<times> istream" where
  "get_int lo hi old st =
     (if \<not> good st \<or> skip_ws (rest st) = [] then (old, st\<lparr>good := False\<rparr>)
      else case scan_int (skip_ws (rest st)) of
          None \<Rightarrow> (0, st\<lparr>good := False\<rparr>)
        | Some (v, r) \<Rightarrow>
            if v < lo then (lo, \<lparr>rest = r, good = False\<rparr>)
            else if hi < v then (hi, \<lparr>rest = r, good = False\<rparr>)
            else (v, \<lparr>rest = r, good = True\<rparr>))"

abbreviation "get_i32 \<equiv> get_int (- 2147483648) 2147483647"
abbreviation "get_i64 \<equiv> get_int (- 9223372036854775808) 9223372036854775807"

definition get_word :: "string \<Rightarrow> istream \<Rightarrow> string \<times> istream" where
  "get_word old st =
     (if \<not> good st \<or> skip_ws (rest st) = [] then (old, st\<lparr>good := False\<rparr>)
      else (takeWhile (\<lambda>c. \<not> is_space c) (skip_ws (rest st)),
            \<lparr>rest = dropWhile (\<lambda>c. \<not> is_space c) (skip_ws (rest st)), good = True\<rparr>))"

lemma get_int_to_string:
  assumes "lo \<le> i" and "i \<le> hi" and "not_digit_first r"
  shows "get_int lo hi old \<lparr>rest = to_string i @ r, good = True\<rparr> = (i, \<lparr>rest = r, good = True\<rparr>)"
    and "get_int lo hi old \<lparr>rest = CHR '' '' # to_string i @ r, good = True\<rparr>
           = (i, \<lparr>rest = r, good = True\<rparr>)"
  using assms by (auto simp: get_int_def scan_int_to_string)

lemma get_word_append:
  assumes "w \<noteq> []" and "list_all (\<lambda>c. \<not> is_space c) w"
  shows "get_word old \<lparr>rest = w @ CHR '' '' # r, good = True\<rparr>
           = (w, \<lparr>rest = CHR '' '' # r, good = True\<rparr>)"
proof -
  have ws: "skip_ws (w @ CHR '' '' # r) = w @ CHR '' '' # r"
    using assms by (cases w) (auto simp: skip_ws_def)
  have "takeWhile (\<lambda>c. \<not> is_space c) (w @ CHR '' '' # r) = w"
    "dropWhile (\<lambda>c. \<not> is_space c) (w @ CHR '' '' # r) = CHR '' '' # r"
    using assms by (auto simp: list_all_iff is_space_def takeWhile_append dropWhile_append)
  with ws assms show ?thesis by (auto simp: get_word_def)
qed

section \<open>std::stoi\<close>

datatype std_exception = invalid_argument | out_of_range | runtime_error string

definition stoi :: "string \<Rightarrow> std_exception + int" where
  "stoi s =
     (case scan_int (skip_ws s) of
        None \<Rightarrow> Inl invalid_argument
      | Some (v, r) \<Rightarrow> if int32 v then Inr v else Inl out_of_range)"

lemma stoi_to_string: "int32 i \<Longrightarrow> stoi (to_string i) = Inr i"
  using scan_int_to_string [of "[]" i] skip_ws_to_string [of i "[]"]
  by (simp add: stoi_def not_digit_first_def)

end
