(* ===== verification/Tpc_Types.thy ===== *)
theory Tpc_Types
  imports Tpc_Std
begin

text \<open>
  The data model: the structs and enums of \<open>types/types.h\<close>, the process-wide constants of
  \<open>constants.h\<close>, and the messages of \<open>proto/tpc.proto\<close> that the C++ code reads and writes
  through its generated accessors. The two \<open>Transaction\<close> types (the struct and the message)
  have the same three fields and are one record. A message with a single scalar field is
  that scalar; an \<open>optional\<close> field of a message is an \<open>option\<close>.
\<close>

section \<open>types.h\<close>

datatype RequestTypes =
  TPC_PREPARE | TPC_COMMIT | TPC_ABORT | TRANSFER | PREPARE | ACCEPT | COMMIT | SYNC
| BALANCE | LOGS | DISCONNECT

record Transaction =
  sender :: int
  receiver :: int
  amount :: int

datatype TransactionType = INTRA | CROSS

datatype TransactionStatus = NO_STATUS | PREPARED | COMMITTED | ABORTED

record WALEntry =
  e_tid :: int
  e_ballot_num :: int
  e_ballot_server_id :: int
  e_txn :: Transaction
  e_type :: TransactionType
  e_status :: TransactionStatus

record TransactionSet =
  set_no :: int
  transactions :: "Transaction list"
  servers :: "string list"
  leaders :: "string list"
  disconnected_servers :: "string list"

record CSVLine =
  line_set_no :: int
  line_transaction :: Transaction
  line_servers :: "string list"
  line_leaders :: "string list"

datatype Command = PROCESS_NEXT_SET | PRINT_BALANCE | PRINT_DATASTORE | PRINT_PERFORMANCE | EXIT

record AppCommand =
  command :: Command
  client_id :: int

text \<open>
  The enums travel in \<open>LogEntry\<close> as their numbers, and come back by \<open>static_cast\<close> (which
  is defined on the numbers of the enumerators only).
\<close>

fun type_to_int :: "TransactionType \<Rightarrow> int" where
  "type_to_int INTRA = 0"
| "type_to_int CROSS = 1"

definition int_to_type :: "int \<Rightarrow> TransactionType" where
  "int_to_type i = (if i = 0 then INTRA else CROSS)"

fun status_to_int :: "TransactionStatus \<Rightarrow> int" where
  "status_to_int NO_STATUS = 0"
| "status_to_int PREPARED = 1"
| "status_to_int COMMITTED = 2"
| "status_to_int ABORTED = 3"

definition int_to_status :: "int \<Rightarrow> TransactionStatus" where
  "int_to_status i =
     (if i = 0 then NO_STATUS else if i = 1 then PREPARED else if i = 2 then COMMITTED else ABORTED)"

lemma int_to_type_inverse [simp]: "int_to_type (type_to_int t) = t"
  by (cases t) (simp_all add: int_to_type_def)

lemma int_to_status_inverse [simp]: "int_to_status (status_to_int s) = s"
  by (cases s) (simp_all add: int_to_status_def)

section \<open>constants.h\<close>

definition total_clients :: int where
  "total_clients = 3000"

record constants =
  num_clusters :: int
  cluster_size :: int
  server_addresses :: "(string \<times> string) list"
  server_ids :: "(string \<times> int) list"

definition initial_constants :: constants where
  "initial_constants =
     \<lparr>num_clusters = 3, cluster_size = 3, server_addresses = [], server_ids = []\<rparr>"

section \<open>Messages\<close>

record Ballot =
  bal_num :: int
  bal_server_id :: int

type_synonym TpcTid = int

record TransferReq =
  req_txn :: Transaction
  req_tid :: int

record TransferRes =
  res_ack :: bool
  res_tid :: int

type_synonym BalanceReq = int
type_synonym BalanceRes = int

record PrepareReq =
  pq_ballot :: Ballot
  pq_last_inserted :: int

record PrepareRes =
  pr_ack :: bool
  pr_ballot :: Ballot
  pr_accept_num :: "Ballot option"
  pr_accept_val :: "TransferReq option"
  pr_latest_ballot_num :: "int option"
  pr_last_inserted :: "int option"
  pr_server_id :: "int option"

record AcceptReq =
  aq_ballot :: Ballot
  aq_r :: TransferReq

record AcceptRes =
  ar_ack :: bool
  ar_ballot :: Ballot

record CommitReq =
  cq_ballot :: Ballot

type_synonym SyncReq = int

record LogEntry =
  l_txn :: Transaction
  l_tid :: int
  l_type :: int
  l_status :: int
  l_ballot_num :: int
  l_ballot_server_id :: int

type_synonym LogRes = "LogEntry list"

record SyncRes =
  sr_ack :: bool
  sr_logs :: "LogEntry list"
  sr_last_inserted_ballot :: Ballot

type_synonym DisconnectReq = "string list"

text \<open>Freshly constructed messages have every field at its default.\<close>

definition no_ballot :: Ballot where
  "no_ballot = \<lparr>bal_num = 0, bal_server_id = 0\<rparr>"

definition no_txn :: Transaction where
  "no_txn = \<lparr>sender = 0, receiver = 0, amount = 0\<rparr>"

definition no_TransferReq :: TransferReq where
  "no_TransferReq = \<lparr>req_txn = no_txn, req_tid = 0\<rparr>"

definition no_TransferRes :: TransferRes where
  "no_TransferRes = \<lparr>res_ack = False, res_tid = 0\<rparr>"

definition no_PrepareRes :: PrepareRes where
  "no_PrepareRes =
     \<lparr>pr_ack = False, pr_ballot = no_ballot, pr_accept_num = None, pr_accept_val = None,
      pr_latest_ballot_num = None, pr_last_inserted = None, pr_server_id = None\<rparr>"

definition no_AcceptRes :: AcceptRes where
  "no_AcceptRes = \<lparr>ar_ack = False, ar_ballot = no_ballot\<rparr>"

definition no_SyncRes :: SyncRes where
  "no_SyncRes = \<lparr>sr_ack = False, sr_logs = [], sr_last_inserted_ballot = no_ballot\<rparr>"

text \<open>The entry the write-ahead log returns when it cannot do its work.\<close>

definition no_entry :: WALEntry where
  "no_entry =
     \<lparr>e_tid = - 1, e_ballot_num = - 1, e_ballot_server_id = - 1,
      e_txn = \<lparr>sender = - 1, receiver = - 1, amount = - 1\<rparr>,
      e_type = CROSS, e_status = NO_STATUS\<rparr>"

lemmas message_defaults =
  no_ballot_def no_txn_def no_TransferReq_def no_TransferRes_def no_PrepareRes_def
  no_AcceptRes_def no_SyncRes_def

end
