(* ===== verification/Tpc_Utils.thy ===== *)
theory Tpc_Utils
  imports Complex_Main Tpc_Types
begin

text \<open>
  \<open>utils/utils.cc\<close>: which cluster a client or a server belongs to, computed in the sources
  through \<open>double\<close> division and \<open>ceil\<close>, and the table of servers that
  \<open>setupApplicationState\<close> fills. The arithmetic is modelled with the rounding of the
  \<open>double\<close> type; the lemmas show that the rounding never changes the result, and that the
  clusters partition clients and servers into the ranges the README describes.
\<close>

section \<open>Arithmetic of double\<close>

text \<open>
  Round to nearest, ties to even, with a 53-bit significand. The exponent range is not
  limited; the quotients below have magnitudes between \<open>2^-31\<close> and \<open>2^31\<close>.
\<close>

definition half_even :: "real \<Rightarrow> int" where
  "half_even x =
     (let f = \<lfloor>x\<rfloor>; d = x - of_int f in
      if d < 1 / 2 then f else if 1 / 2 < d then f + 1 else if even f then f else f + 1)"

definition double_of :: "real \<Rightarrow> real" where
  "double_of x =
     (if x = 0 then 0
      else let u = 2 powr (of_int \<lfloor>log 2 \<bar>x\<bar>\<rfloor> - 52) in of_int (half_even (x / u)) * u)"

lemma abs_of_int_le_power: "\<bar>n\<bar> \<le> 2 ^ k \<Longrightarrow> \<bar>of_int n :: real\<bar> \<le> 2 ^ k"
  by (metis of_int_abs of_int_le_iff of_int_numeral of_int_power)

text \<open>
  What the callers of \<open>ceil\<close> rely on: a relative error of at most \<open>2^-53\<close>, and integers up
  to \<open>2^53\<close> are exact.
\<close>

locale double_rounding =
  fixes fl :: "real \<Rightarrow> real"
  assumes rel_error: "\<bar>fl x - x\<bar> \<le> \<bar>x\<bar> / 2 ^ 53"
    and exact_int: "\<bar>n\<bar> \<le> 2 ^ 53 \<Longrightarrow> fl (of_int n) = of_int n"
begin

lemma ceil_quotient:
  fixes n d :: int
  assumes n: "\<bar>n\<bar> \<le> 2 ^ 31" and d: "d \<noteq> 0"
  shows "\<lceil>fl (of_int n / of_int d)\<rceil> = \<lceil>(of_int n / of_int d :: real)\<rceil>"
proof (cases "d dvd n")
  case True
  then obtain k where k: "n = d * k" ..
  have "1 \<le> \<bar>d\<bar>" using d by linarith
  then have "\<bar>d * k\<bar> \<ge> \<bar>k\<bar>" by (simp add: abs_mult mult_le_cancel_right1)
  then have "\<bar>k\<bar> \<le> 2 ^ 53" using n k by simp
  then show ?thesis using k d by (simp add: exact_int)
next
  case False
  define x :: real where "x = of_int n / of_int d"
  define m where "m = \<lceil>x\<rceil>"
  have scale: "\<bar>of_int k - x\<bar> * \<bar>of_int d\<bar> \<ge> 1" for k :: int
  proof -
    have "(of_int k - x) * of_int d = of_int (k * d - n)"
      using d by (simp add: x_def field_simps)
    moreover have "k * d - n \<noteq> 0" using False by (metis dvd_triv_right eq_iff_diff_eq_0)
    ultimately have "\<bar>(of_int k - x) * of_int d\<bar> = of_int \<bar>k * d - n\<bar>" "1 \<le> \<bar>k * d - n\<bar>"
      by (simp, linarith)
    then show ?thesis by (metis abs_mult of_int_1_le_iff)
  qed
  have "\<bar>x\<bar> * \<bar>of_int d\<bar> = \<bar>of_int n\<bar>" using d by (simp add: x_def abs_mult)
  moreover have "\<bar>of_int n :: real\<bar> \<le> 2 ^ 31" using n by (rule abs_of_int_le_power)
  ultimately have "\<bar>x\<bar> / 2 ^ 53 * \<bar>of_int d\<bar> < 1" by simp
  then have err: "\<bar>fl x - x\<bar> * \<bar>of_int d\<bar> < 1"
    using mult_right_mono [OF rel_error [of x], of "\<bar>of_int d\<bar>"] by linarith
  have close: "\<bar>fl x - x\<bar> < \<bar>of_int k - x\<bar>" for k :: int
    using err scale [of k] d by (metis (no_types) less_le_trans mult_less_cancel_right abs_ge_zero
      not_less)
  have "of_int (m - 1) < x" and "x \<le> of_int m" by (simp_all add: m_def, linarith)
  then have "of_int (m - 1) < fl x" and "fl x \<le> of_int m"
    using close [of "m - 1"] close [of m] by linarith+
  then show ?thesis by (simp add: x_def [symmetric] m_def [symmetric] ceiling_eq_iff)
qed

lemma ceil_div:
  fixes n d :: int
  assumes "\<bar>n\<bar> \<le> 2 ^ 31" and "d \<noteq> 0"
  shows "\<lceil>fl (of_int n / of_int d)\<rceil> = - (- n div d)"
  using ceil_quotient [OF assms] by (simp add: ceiling_divide_eq_div)

end

lemma half_even_error: "\<bar>of_int (half_even x) - x\<bar> \<le> 1 / 2"
  unfolding half_even_def Let_def
  using of_int_floor_le [of x] floor_correct [of x] by (auto; linarith)

lemma half_even_int [simp]: "half_even (of_int n) = n"
  by (simp add: half_even_def)

lemma double_of_scaled:
  assumes "x \<noteq> 0"
  defines "u \<equiv> 2 powr (of_int \<lfloor>log 2 \<bar>x\<bar>\<rfloor> - 52)"
  shows "double_of x = of_int (half_even (x / u)) * u" and "0 < u" and "u \<le> \<bar>x\<bar> / 2 ^ 52"
proof -
  show "double_of x = of_int (half_even (x / u)) * u" "0 < u"
    using assms by (simp_all add: double_of_def Let_def)
  have "2 powr (of_int \<lfloor>log 2 \<bar>x\<bar>\<rfloor>) \<le> 2 powr (log 2 \<bar>x\<bar>)" by simp
  also have "\<dots> = \<bar>x\<bar>" using assms by simp
  finally show "u \<le> \<bar>x\<bar> / 2 ^ 52"
    by (simp add: u_def powr_diff powr_realpow [symmetric] divide_right_mono)
qed

lemma double_of_exact:
  assumes n: "\<bar>n\<bar> \<le> 2 ^ 53"
  shows "double_of (of_int n) = of_int n"
proof (cases "n = 0")
  case False
  define e where "e = \<lfloor>log 2 \<bar>of_int n :: real\<bar>\<rfloor>"
  define u :: real where "u = 2 powr (of_int e - 52)"
  have n_up: "\<bar>of_int n :: real\<bar> \<le> 2 ^ 53" using n by (rule abs_of_int_le_power)
  then have "log 2 \<bar>of_int n :: real\<bar> < 54" using False by (simp add: log_less_iff)
  then have e53: "e \<le> 53" by (simp add: e_def floor_le_iff)
  obtain k where k: "of_int n / u = of_int k"
  proof (cases "e \<le> 52")
    case True
    have "of_int n / u = of_int n * 2 powr (of_int (52 - e))"
      by (simp add: u_def powr_diff field_simps)
    also have "of_int (52 - e) = real (nat (52 - e))" using True by simp
    also have "of_int n * 2 powr \<dots> = of_int (n * 2 ^ nat (52 - e))"
      by (subst powr_realpow) simp_all
    finally show ?thesis by (rule that)
  next
    case False
    with e53 have "53 \<le> log 2 \<bar>of_int n :: real\<bar>" by (simp add: e_def le_floor_iff)
    then have "2 ^ 53 \<le> \<bar>of_int n :: real\<bar>" using \<open>n \<noteq> 0\<close> by (simp add: le_log_iff)
    then have "\<bar>n\<bar> = 2 ^ 53" using n_up
      by (metis antisym of_int_abs of_int_eq_iff of_int_numeral of_int_power)
    then have "n = 2 * 2 ^ 52 \<or> n = 2 * - (2 ^ 52)" by auto
    moreover have "e = 53" using False e53 by simp
    then have "u = 2" by (simp add: u_def)
    ultimately show ?thesis using that [of "2 ^ 52"] that [of "- (2 ^ 52)"] by auto
  qed
  have "double_of (of_int n) = of_int (half_even (of_int n / u)) * u"
    using double_of_scaled(1) [of "of_int n"] False by (simp add: u_def e_def)
  also have "\<dots> = of_int n" using k by (simp add: u_def field_simps)
  finally show ?thesis .
qed (simp add: double_of_def)

interpretation fl64: double_rounding double_of
proof
  fix x :: real
  show "\<bar>double_of x - x\<bar> \<le> \<bar>x\<bar> / 2 ^ 53"
  proof (cases "x = 0")
    case False
    define u :: real where "u = 2 powr (of_int \<lfloor>log 2 \<bar>x\<bar>\<rfloor> - 52)"
    note d = double_of_scaled [OF False, folded u_def]
    have "\<bar>double_of x - x\<bar> = \<bar>of_int (half_even (x / u)) - x / u\<bar> * u"
      using d(1,2) by (simp add: abs_mult_pos left_diff_distrib)
    also have "\<dots> \<le> 1 / 2 * u" using half_even_error d(2) by (intro mult_right_mono) auto
    also have "\<dots> \<le> \<bar>x\<bar> / 2 ^ 53" using d(3) by simp
    finally show ?thesis .
  qed (simp add: double_of_def)
qed (rule double_of_exact)

section \<open>Clusters\<close>

definition getClusterIdFromClientId :: "constants \<Rightarrow> int \<Rightarrow> int" where
  "getClusterIdFromClientId cs i =
     \<lceil>double_of (double_of (of_int (i32 (i * num_clusters cs)))
                  / double_of (of_int total_clients))\<rceil>"

definition getClusterIdFromServerId :: "constants \<Rightarrow> int \<Rightarrow> int" where
  "getClusterIdFromServerId cs i =
     \<lceil>double_of (double_of (of_int i) / double_of (of_int (cluster_size cs)))\<rceil>"

definition isClientInCluster_of :: "constants \<Rightarrow> int \<Rightarrow> int \<Rightarrow> bool" where
  "isClientInCluster_of cs client cluster \<longleftrightarrow> getClusterIdFromClientId cs client = cluster"

fun getServersInCluster_loop ::
  "constants \<Rightarrow> int \<Rightarrow> (string \<times> int) list \<Rightarrow> string list \<Rightarrow> string list" where
  "getServersInCluster_loop cs c [] acc = acc"
| "getServersInCluster_loop cs c (s # ss) acc =
     getServersInCluster_loop cs c ss
       (if getClusterIdFromServerId cs (snd s) = c then acc @ [fst s] else acc)"

definition getServersInCluster :: "constants \<Rightarrow> int \<Rightarrow> string list" where
  "getServersInCluster cs c = getServersInCluster_loop cs c (server_ids cs) []"

definition server_name_of :: "int \<Rightarrow> string" where
  "server_name_of i = ''S'' @ to_string i"

definition setup_server :: "int \<Rightarrow> constants \<Rightarrow> constants" where
  "setup_server i cs =
     cs\<lparr>server_addresses :=
          smap_set (server_name_of i) (''localhost:'' @ to_string (i32 (50000 + i)))
            (server_addresses cs),
        server_ids := smap_set (server_name_of i) i (server_ids cs)\<rparr>"

definition setupApplicationState :: "constants \<Rightarrow> int \<Rightarrow> int \<Rightarrow> constants" where
  "setupApplicationState cs nc sz =
     fold setup_server [1..i32 (nc * sz)] (cs\<lparr>num_clusters := nc, cluster_size := sz\<rparr>)"

text \<open>
  The division through \<open>double\<close> and \<open>ceil\<close> is the integer division rounded up, for every
  \<open>int\<close>. The equations also evaluate the functions on concrete arguments.
\<close>

lemma double_of_int32 [simp]: "int32 n \<Longrightarrow> double_of (of_int n) = of_int n"
  by (rule double_of_exact) (auto simp: int32_def)

lemma client_cluster_eq [cluster_simps]:
  "getClusterIdFromClientId cs i = - (- i32 (i * num_clusters cs) div 3000)"
proof -
  have "double_of (of_int total_clients) = of_int total_clients"
    by (rule double_of_int32) (simp add: total_clients_def int32_def)
  moreover have "\<bar>i32 (i * num_clusters cs)\<bar> \<le> 2 ^ 31" by (simp add: int32_abs del: power_numeral)
  ultimately show ?thesis
    using fl64.ceil_div [of "i32 (i * num_clusters cs)" total_clients]
    by (simp add: getClusterIdFromClientId_def total_clients_def)
qed

lemma server_cluster_eq:
  assumes "int32 i" and "int32 (cluster_size cs)" and "cluster_size cs \<noteq> 0"
  shows "getClusterIdFromServerId cs i = - (- i div cluster_size cs)"
proof -
  have "\<bar>i\<bar> \<le> 2 ^ 31" using assms(1) by (rule int32_abs)
  then show ?thesis
    using assms fl64.ceil_div [of i "cluster_size cs"]
    by (simp add: getClusterIdFromServerId_def)
qed

lemma client_cluster_iff:
  assumes "int32 (i * num_clusters cs)"
  shows "getClusterIdFromClientId cs i = k
           \<longleftrightarrow> (k - 1) * 3000 < i * num_clusters cs \<and> i * num_clusters cs \<le> k * 3000"
  by (simp add: client_cluster_eq i32_id assms ceil_div_iff)

lemma server_cluster_iff:
  assumes "int32 i" and "int32 (cluster_size cs)" and "0 < cluster_size cs"
  shows "getClusterIdFromServerId cs i = k
           \<longleftrightarrow> (k - 1) * cluster_size cs < i \<and> i \<le> k * cluster_size cs"
  using assms by (simp add: server_cluster_eq ceil_div_iff)

lemma client_cluster_nonpos:
  assumes "i \<le> 0" and "0 \<le> num_clusters cs" and "int32 (i * num_clusters cs)"
  shows "getClusterIdFromClientId cs i \<le> 0"
proof -
  have "i * num_clusters cs \<le> 0" using assms(1,2) by (rule mult_nonpos_nonneg)
  then show ?thesis using assms(3) by (simp add: client_cluster_eq i32_id)
qed

section \<open>The table of servers\<close>

lemma getServersInCluster_loop_eq:
  "getServersInCluster_loop cs c ss acc =
     acc @ map fst (filter (\<lambda>s. getClusterIdFromServerId cs (snd s) = c) ss)"
  by (induction ss arbitrary: acc) auto

lemma getServersInCluster_eq:
  "getServersInCluster cs c =
     map fst (filter (\<lambda>s. getClusterIdFromServerId cs (snd s) = c) (server_ids cs))"
  by (simp add: getServersInCluster_def getServersInCluster_loop_eq)

lemma server_name_of_inject [simp]: "server_name_of i = server_name_of j \<longleftrightarrow> i = j"
  by (simp add: server_name_of_def to_string_inject)

lemma setup_server_sizes [simp]:
  "num_clusters (fold setup_server is cs) = num_clusters cs"
  "cluster_size (fold setup_server is cs) = cluster_size cs"
  by (induction "is" arbitrary: cs) (auto simp: setup_server_def)

lemma server_ids_fold:
  "server_ids (fold setup_server is cs) =
     fold (\<lambda>(k, v). smap_set k v) (map (\<lambda>i. (server_name_of i, i)) is) (server_ids cs)"
  by (induction "is" arbitrary: cs) (auto simp: setup_server_def)

lemma smap_ok_fold [simp]: "smap_ok m \<Longrightarrow> smap_ok (fold (\<lambda>(k, v). smap_set k v) kvs m)"
  by (induction kvs arbitrary: m) auto

definition fresh_setup :: "int \<Rightarrow> int \<Rightarrow> constants" where
  "fresh_setup nc sz = setupApplicationState initial_constants nc sz"

lemma fresh_setup_sizes [simp]:
  "num_clusters (fresh_setup nc sz) = nc" "cluster_size (fresh_setup nc sz) = sz"
  by (simp_all add: fresh_setup_def setupApplicationState_def)

lemma fresh_setup_ids:
  "smap_ok (server_ids (fresh_setup nc sz))"
  "map_of (server_ids (fresh_setup nc sz)) (server_name_of i) = Some j
     \<longleftrightarrow> j = i \<and> 1 \<le> i \<and> i \<le> i32 (nc * sz)"
  "set (server_ids (fresh_setup nc sz)) = (\<lambda>i. (server_name_of i, i)) ` {1..i32 (nc * sz)}"
proof -
  define kvs where "kvs = map (\<lambda>i. (server_name_of i, i)) [1..i32 (nc * sz)]"
  have ids: "server_ids (fresh_setup nc sz) = fold (\<lambda>(k, v). smap_set k v) kvs []"
    by (simp add: fresh_setup_def setupApplicationState_def server_ids_fold kvs_def
      initial_constants_def)
  show ok: "smap_ok (server_ids (fresh_setup nc sz))" by (simp add: ids)
  have dist: "distinct (map fst kvs)"
    by (simp add: kvs_def comp_def distinct_map inj_on_def)
  have mo: "map_of (server_ids (fresh_setup nc sz)) = map_of kvs"
    using dist by (simp add: ids smap.get_fold map_of_rev_distinct)
  show "map_of (server_ids (fresh_setup nc sz)) (server_name_of i) = Some j
     \<longleftrightarrow> j = i \<and> 1 \<le> i \<and> i \<le> i32 (nc * sz)"
    using dist by (auto simp: mo kvs_def)
  have "set (server_ids (fresh_setup nc sz)) = set kvs"
    using smap_ok_distinct [OF ok] dist mo by (metis map_of_inject_set)
  then show "set (server_ids (fresh_setup nc sz)) = (\<lambda>i. (server_name_of i, i)) ` {1..i32 (nc * sz)}"
    by (simp add: kvs_def)
qed

end
