(* ===== verification/Tpc_WAL.thy ===== *)
theory Tpc_WAL
  imports Tpc_Types
begin

text \<open>
  The write-ahead log of \<open>server/wal.h\<close> and \<open>server/wal.cc\<close>: a text file with one line per
  step of a transaction, and an index from the identifiers of prepared cross-shard
  transactions to the position of their line. The file is modelled at the level of its
  characters; the lemmas show that the line a position points to reads back as what was
  written, and that file and index together implement a map of pending transactions.
\<close>

section \<open>The file and the index\<close>

text \<open>
  The file: its characters (\<open>None\<close> while it does not exist) and whether the process may open
  it for reading and for writing. \<open>tellp\<close> on a stream opened for appending is the length of
  the file, and \<open>-1\<close> when the stream did not open.
\<close>

record disk_file =
  contents :: "string option"
  readable :: bool
  writable :: bool

record WAL =
  walFile :: disk_file
  transferIndex :: "int \<rightharpoonup> int"

definition file_text :: "WAL \<Rightarrow> string" where
  "file_text w = (case contents (walFile w) of None \<Rightarrow> [] | Some t \<Rightarrow> t)"

definition write_app :: "string \<Rightarrow> WAL \<Rightarrow> WAL" where
  "write_app t w =
     (if writable (walFile w) then w\<lparr>walFile := (walFile w)\<lparr>contents := Some (file_text w @ t)\<rparr>\<rparr>
      else w)"

definition tellp_app :: "WAL \<Rightarrow> int" where
  "tellp_app w = (if writable (walFile w) then int (length (file_text w)) else - 1)"

definition newline :: char where
  "newline = CHR 0x0A"

text \<open>The constructor keeps the file of an earlier run, and starts with an empty index.\<close>

definition WAL_init :: "disk_file \<Rightarrow> WAL" where
  "WAL_init f = \<lparr>walFile = f, transferIndex = Map.empty\<rparr>"

text \<open>
  One line of the log. The locals of \<open>getTransactionFromFile\<close> are not initialised; the entry
  \<open>u\<close> stands for what they hold where an extraction leaves them alone.
\<close>

definition wal_line :: "string \<Rightarrow> int \<Rightarrow> int \<Rightarrow> int \<Rightarrow> Transaction \<Rightarrow> string" where
  "wal_line cmd t bn bs x =
     cmd @ '' '' @ to_string t @ '' '' @ to_string bn @ '' '' @ to_string bs @ '' ''
       @ to_string (sender x) @ '' '' @ to_string (receiver x) @ '' '' @ to_string (amount x)
       @ [newline]"

definition read_line :: "string \<Rightarrow> int \<Rightarrow> string" where
  "read_line t pos = (if pos < 0 then [] else takeWhile (\<lambda>c. c \<noteq> newline) (drop (nat pos) t))"

definition parse_line :: "WALEntry \<Rightarrow> string \<Rightarrow> WALEntry" where
  "parse_line u l =
     (let (cmd, st) = get_word [] (istringstream l);
          (t, st) = get_i64 (e_tid u) st;
          (bn, st) = get_i32 (e_ballot_num u) st;
          (bs, st) = get_i32 (e_ballot_server_id u) st;
          (s, st) = get_i32 (sender (e_txn u)) st;
          (r, st) = get_i32 (receiver (e_txn u)) st;
          (a, st) = get_i32 (amount (e_txn u)) st
      in \<lparr>e_tid = t, e_ballot_num = bn, e_ballot_server_id = bs,
          e_txn = \<lparr>sender = s, receiver = r, amount = a\<rparr>, e_type = CROSS, e_status = PREPARED\<rparr>)"

definition getTransactionFromFile :: "WAL \<Rightarrow> WALEntry \<Rightarrow> int \<Rightarrow> WALEntry" where
  "getTransactionFromFile w u pos =
     (case contents (walFile w) of
        None \<Rightarrow> no_entry
      | Some t \<Rightarrow> if readable (walFile w) then parse_line u (read_line t pos) else no_entry)"

section \<open>Operations\<close>

definition req_entry :: "TransferReq \<Rightarrow> Ballot \<Rightarrow> TransactionType \<Rightarrow> TransactionStatus \<Rightarrow> WALEntry" where
  "req_entry r b ty st =
     \<lparr>e_tid = req_tid r, e_ballot_num = bal_num b, e_ballot_server_id = bal_server_id b,
      e_txn = req_txn r, e_type = ty, e_status = st\<rparr>"

definition wal_prepareTransaction :: "WAL \<Rightarrow> TransferReq \<Rightarrow> Ballot \<Rightarrow> WALEntry \<times> WAL" where
  "wal_prepareTransaction w r b =
     (let pos = tellp_app w;
          w = w\<lparr>transferIndex := (transferIndex w)(req_tid r \<mapsto> pos)\<rparr>;
          w = write_app (wal_line ''CS_PREPARE'' (req_tid r) (bal_num b) (bal_server_id b) (req_txn r)) w
      in (req_entry r b CROSS PREPARED, w))"

definition wal_commitTransaction :: "WAL \<Rightarrow> TransferReq \<Rightarrow> Ballot \<Rightarrow> WALEntry \<times> WAL" where
  "wal_commitTransaction w r b =
     (if \<not> writable (walFile w) then (no_entry, w)
      else (req_entry r b INTRA COMMITTED,
            write_app (wal_line ''IN_COMMIT'' (req_tid r) (bal_num b) (bal_server_id b) (req_txn r)) w))"

definition wal_finish ::
  "string \<Rightarrow> TransactionStatus \<Rightarrow> WAL \<Rightarrow> WALEntry \<Rightarrow> TpcTid \<Rightarrow> WALEntry \<times> WAL" where
  "wal_finish cmd st w u t =
     (case transferIndex w t of
        None \<Rightarrow> (no_entry, w)
      | Some pos \<Rightarrow>
          let x = getTransactionFromFile w u pos in
          if \<not> writable (walFile w) then (no_entry, w)
          else let w = write_app (wal_line cmd t (e_ballot_num x) (e_ballot_server_id x) (e_txn x)) w;
                   w = w\<lparr>transferIndex := (transferIndex w)(t := None)\<rparr>
               in (x\<lparr>e_status := st\<rparr>, w))"

definition wal_commitTransaction_tid :: "WAL \<Rightarrow> WALEntry \<Rightarrow> TpcTid \<Rightarrow> WALEntry \<times> WAL" where
  "wal_commitTransaction_tid w u t = wal_finish ''CS_COMMIT'' COMMITTED w u t"

definition wal_abortTransaction :: "WAL \<Rightarrow> WALEntry \<Rightarrow> TpcTid \<Rightarrow> WALEntry \<times> WAL" where
  "wal_abortTransaction w u t = wal_finish ''CS_ABORT'' ABORTED w u t"

definition insertEntry :: "WAL \<Rightarrow> WALEntry \<Rightarrow> WAL" where
  "insertEntry w e =
     (if \<not> writable (walFile w) then w
      else let message = (if e_type e = INTRA then ''IS_'' else ''CS_'');
               (message, w) =
                 (case e_status e of
                    PREPARED \<Rightarrow>
                      (message @ ''PREPARE'',
                       w\<lparr>transferIndex := (transferIndex w)(e_tid e \<mapsto> tellp_app w)\<rparr>)
                  | COMMITTED \<Rightarrow>
                      (message @ ''COMMIT'', w\<lparr>transferIndex := (transferIndex w)(e_tid e := None)\<rparr>)
                  | ABORTED \<Rightarrow>
                      (message @ ''ABORT'', w\<lparr>transferIndex := (transferIndex w)(e_tid e := None)\<rparr>)
                  | NO_STATUS \<Rightarrow> (message, w))
           in write_app (wal_line message (e_tid e) (e_ballot_num e) (e_ballot_server_id e) (e_txn e)) w)"

section \<open>Reading back a line\<close>

definition int64 :: "int \<Rightarrow> bool" where
  "int64 x \<longleftrightarrow> - 9223372036854775808 \<le> x \<and> x \<le> 9223372036854775807"

definition txn_ok :: "Transaction \<Rightarrow> bool" where
  "txn_ok x \<longleftrightarrow> int32 (sender x) \<and> int32 (receiver x) \<and> int32 (amount x)"

definition command_ok :: "string \<Rightarrow> bool" where
  "command_ok cmd \<longleftrightarrow> cmd \<noteq> [] \<and> list_all (\<lambda>c. \<not> is_space c) cmd"

lemma newline_space [simp]: "is_space newline"
  by (simp add: is_space_def newline_def)

lemma to_string_no_newline [simp]: "newline \<notin> set (to_string i)"
  using to_string_chars [of newline i] digit_not_space [of newline] newline_space
  by (auto simp del: newline_space) (simp add: newline_def)

lemma not_digit_first_space [simp]: "not_digit_first (CHR '' '' # r)" "not_digit_first []"
  by (simp_all add: not_digit_first_def is_digit_def)

lemma get_i32_next [simp]:
  "int32 i \<Longrightarrow> not_digit_first r \<Longrightarrow>
   get_i32 old \<lparr>rest = CHR '' '' # to_string i @ r, good = True\<rparr> = (i, \<lparr>rest = r, good = True\<rparr>)"
  by (rule get_int_to_string) (auto simp: int32_def)

lemma get_i64_next [simp]:
  "int64 i \<Longrightarrow> not_digit_first r \<Longrightarrow>
   get_i64 old \<lparr>rest = CHR '' '' # to_string i @ r, good = True\<rparr> = (i, \<lparr>rest = r, good = True\<rparr>)"
  by (rule get_int_to_string) (auto simp: int64_def)

lemma wal_line_split: "wal_line cmd t bn bs x = butlast (wal_line cmd t bn bs x) @ [newline]"
  by (simp add: wal_line_def butlast_append)

lemma wal_line_no_newline:
  "command_ok cmd \<Longrightarrow> newline \<notin> set (butlast (wal_line cmd t bn bs x))"
  by (auto simp: wal_line_def butlast_append command_ok_def list_all_iff) (simp_all add: newline_def)

lemma read_line_wal_line:
  assumes "command_ok cmd"
  shows "read_line (p @ wal_line cmd t bn bs x @ q) (int (length p)) =
           butlast (wal_line cmd t bn bs x)"
proof -
  have "takeWhile (\<lambda>c. c \<noteq> newline) (butlast (wal_line cmd t bn bs x) @ newline # q)
          = butlast (wal_line cmd t bn bs x)"
    using wal_line_no_newline [OF assms] by (subst takeWhile_append2) auto
  then show ?thesis
    by (subst wal_line_split) (simp add: read_line_def)
qed

lemma parse_line_wal_line:
  assumes "command_ok cmd" and "int64 t" and "int32 bn" and "int32 bs" and "txn_ok x"
  shows "parse_line u (butlast (wal_line cmd t bn bs x)) =
     \<lparr>e_tid = t, e_ballot_num = bn, e_ballot_server_id = bs, e_txn = x, e_type = CROSS, e_status = PREPARED\<rparr>"
proof -
  have "int32 (sender x)" "int32 (receiver x)" "int32 (amount x)"
    using assms(5) by (simp_all add: txn_ok_def)
  then show ?thesis
    using assms get_i32_next [of "amount x" "[]"]
    by (simp add: parse_line_def wal_line_def butlast_append istringstream_def command_ok_def
      get_word_append)
qed

section \<open>The log implements a map of pending transactions\<close>

definition entry_ok :: "WALEntry \<Rightarrow> bool" where
  "entry_ok e \<longleftrightarrow> int64 (e_tid e) \<and> int32 (e_ballot_num e) \<and> int32 (e_ballot_server_id e)
     \<and> txn_ok (e_txn e)"

definition prepared_at :: "WAL \<Rightarrow> int \<Rightarrow> WALEntry \<Rightarrow> bool" where
  "prepared_at w pos e \<longleftrightarrow>
     entry_ok e \<and> e_type e = CROSS \<and> e_status e = PREPARED \<and>
     (\<exists>p q cmd. contents (walFile w) =
        Some (p @ wal_line cmd (e_tid e) (e_ballot_num e) (e_ballot_server_id e) (e_txn e) @ q)
        \<and> command_ok cmd \<and> pos = int (length p))"

definition wal_ok :: "WAL \<Rightarrow> bool" where
  "wal_ok w \<longleftrightarrow> readable (walFile w) \<and> writable (walFile w) \<and>
     (\<forall>t pos. transferIndex w t = Some pos \<longrightarrow> (\<exists>e. e_tid e = t \<and> prepared_at w pos e))"

definition pending :: "WAL \<Rightarrow> TpcTid \<Rightarrow> WALEntry option" where
  "pending w t = map_option (getTransactionFromFile w no_entry) (transferIndex w t)"

lemma prepared_at_read:
  assumes "prepared_at w pos e" and "readable (walFile w)"
  shows "getTransactionFromFile w u pos = e"
proof -
  from assms(1) obtain p q cmd where
    c: "contents (walFile w) =
        Some (p @ wal_line cmd (e_tid e) (e_ballot_num e) (e_ballot_server_id e) (e_txn e) @ q)"
    and cmd: "command_ok cmd" and pos: "pos = int (length p)"
    and e: "entry_ok e" "e_type e = CROSS" "e_status e = PREPARED"
    by (auto simp: prepared_at_def)
  have "parse_line u (butlast (wal_line cmd (e_tid e) (e_ballot_num e) (e_ballot_server_id e) (e_txn e)))
          = e"
    using e cmd by (subst parse_line_wal_line) (auto simp: entry_ok_def)
  with assms(2) c pos cmd show ?thesis
    by (simp add: getTransactionFromFile_def read_line_wal_line)
qed

lemma write_app_simps [simp]:
  "transferIndex (write_app t w) = transferIndex w"
  "readable (walFile (write_app t w)) = readable (walFile w)"
  "writable (walFile (write_app t w)) = writable (walFile w)"
  by (simp_all add: write_app_def)

lemma prepared_at_write_app: "prepared_at w pos e \<Longrightarrow> prepared_at (write_app t w) pos e"
  unfolding prepared_at_def write_app_def file_text_def by fastforce

lemma prepared_at_index [simp]:
  "prepared_at (w\<lparr>transferIndex := m\<rparr>) pos e = prepared_at w pos e"
  by (simp add: prepared_at_def)

lemma getTransactionFromFile_index [simp]:
  "getTransactionFromFile (w\<lparr>transferIndex := m\<rparr>) = getTransactionFromFile w"
  by (intro ext) (simp add: getTransactionFromFile_def split: option.split)

lemma prepared_at_new:
  assumes "writable (walFile w)" and "command_ok cmd" and "entry_ok e"
    and "e_type e = CROSS" and "e_status e = PREPARED"
  shows "prepared_at
    (write_app (wal_line cmd (e_tid e) (e_ballot_num e) (e_ballot_server_id e) (e_txn e)) w)
    (tellp_app w) e"
  unfolding prepared_at_def
  using assms by (fastforce simp: write_app_def tellp_app_def)

lemma pending_Some:
  "wal_ok w \<Longrightarrow> transferIndex w t = Some pos \<Longrightarrow>
   \<exists>e. pending w t = Some e \<and> e_tid e = t \<and> prepared_at w pos e"
  unfolding wal_ok_def pending_def by (metis option.simps(9) prepared_at_read)

lemma pending_write_app:
  assumes "wal_ok w"
  shows "pending (write_app t w) = pending w" and "wal_ok (write_app t w)"
proof -
  show "wal_ok (write_app t w)"
    using assms unfolding wal_ok_def by simp (blast intro: prepared_at_write_app)
  show "pending (write_app t w) = pending w"
  proof
    fix k
    show "pending (write_app t w) k = pending w k"
    proof (cases "transferIndex w k")
      case (Some pos)
      with assms obtain e where "prepared_at w pos e" and "readable (walFile w)"
        by (auto simp: wal_ok_def)
      then show ?thesis using Some
        by (simp add: pending_def prepared_at_read prepared_at_write_app)
    qed (simp add: pending_def)
  qed
qed

lemma pending_erase:
  assumes "wal_ok w"
  shows "pending (w\<lparr>transferIndex := (transferIndex w)(t := None)\<rparr>) = (pending w)(t := None)"
    and "wal_ok (w\<lparr>transferIndex := (transferIndex w)(t := None)\<rparr>)"
  using assms by (auto simp: pending_def wal_ok_def fun_eq_iff)

lemma pending_append_prepared:
  assumes "wal_ok w" and "command_ok cmd" and "entry_ok e"
  defines "w' \<equiv> write_app (wal_line cmd (e_tid e) (e_ballot_num e) (e_ballot_server_id e) (e_txn e))
    (w\<lparr>transferIndex := (transferIndex w)(e_tid e \<mapsto> tellp_app w)\<rparr>)"
  shows "pending w' = (pending w)(e_tid e \<mapsto> e\<lparr>e_type := CROSS, e_status := PREPARED\<rparr>)"
    and "wal_ok w'"
proof -
  define e' where "e' = e\<lparr>e_type := CROSS, e_status := PREPARED\<rparr>"
  define v where "v = write_app (wal_line cmd (e_tid e) (e_ballot_num e) (e_ballot_server_id e) (e_txn e)) w"
  have w': "w' = v\<lparr>transferIndex := (transferIndex w)(e_tid e \<mapsto> tellp_app w)\<rparr>"
    by (simp add: w'_def v_def write_app_def file_text_def)
  have at: "prepared_at v (tellp_app w) e'" and tid: "e_tid e' = e_tid e"
    using assms(1-3) prepared_at_new [of w cmd e']
    by (simp_all add: v_def e'_def entry_ok_def wal_ok_def)
  have v: "pending v = pending w" "wal_ok v" "transferIndex v = transferIndex w"
    using pending_write_app [OF assms(1)] by (simp_all add: v_def)
  show "wal_ok w'"
    using v(2) at tid unfolding w' wal_ok_def by (auto simp: v(3))
  have "getTransactionFromFile v no_entry (tellp_app w) = e'"
    using at v(2) by (simp add: prepared_at_read wal_ok_def)
  then show "pending w' = (pending w)(e_tid e \<mapsto> e\<lparr>e_type := CROSS, e_status := PREPARED\<rparr>)"
    unfolding w' v(1) [symmetric] by (auto simp: pending_def fun_eq_iff v(3) e'_def)
qed

section \<open>The contract of the log\<close>

text \<open>
  What the server relies on: a log of prepared transactions, each of which is finished at
  most once. The parameters are the two operations, the pending transactions as a map, the
  states in which the log works, and the shapes of requests, entries and decisions.
\<close>

datatype ('r, 'd) log_op = Prep 'r | Fin 'd int

fun log_step ::
  "('r \<Rightarrow> 'w \<Rightarrow> 'w) \<Rightarrow> ('d \<Rightarrow> int \<Rightarrow> 'w \<Rightarrow> 'e \<times> 'w) \<Rightarrow> ('r, 'd) log_op \<Rightarrow> 'w \<Rightarrow> 'w" where
  "log_step prep fin (Prep r) w = prep r w"
| "log_step prep fin (Fin d t) w = snd (fin d t w)"

fun log_op_key :: "('r \<Rightarrow> int) \<Rightarrow> ('r, 'd) log_op \<Rightarrow> int" where
  "log_op_key key (Prep r) = key r"
| "log_op_key key (Fin d t) = t"

fun log_op_valid :: "('r \<Rightarrow> bool) \<Rightarrow> ('r, 'd) log_op \<Rightarrow> bool" where
  "log_op_valid valid (Prep r) = valid r"
| "log_op_valid valid (Fin d t) = True"

locale prepared_log =
  fixes prep :: "'r \<Rightarrow> 'w \<Rightarrow> 'w"
    and fin :: "'d \<Rightarrow> int \<Rightarrow> 'w \<Rightarrow> 'e \<times> 'w"
    and pend :: "'w \<Rightarrow> int \<Rightarrow> 'e option"
    and ok :: "'w \<Rightarrow> bool"
    and valid :: "'r \<Rightarrow> bool"
    and key :: "'r \<Rightarrow> int"
    and entry :: "'r \<Rightarrow> 'e"
    and stamp :: "'d \<Rightarrow> 'e \<Rightarrow> 'e"
    and absent :: 'e
  assumes prep_ok: "ok w \<Longrightarrow> valid r \<Longrightarrow> ok (prep r w)"
    and pend_prep: "ok w \<Longrightarrow> valid r \<Longrightarrow> pend (prep r w) = (pend w)(key r \<mapsto> entry r)"
    and fin_ok: "ok w \<Longrightarrow> ok (snd (fin d t w))"
    and pend_fin: "ok w \<Longrightarrow> pend (snd (fin d t w)) = (pend w)(t := None)"
    and fin_result:
      "ok w \<Longrightarrow> fst (fin d t w) = (case pend w t of None \<Rightarrow> absent | Some e \<Rightarrow> stamp d e)"
begin

lemma step_ok: "ok w \<Longrightarrow> log_op_valid valid p \<Longrightarrow> ok (log_step prep fin p w)"
  by (cases p) (auto simp: prep_ok fin_ok)

lemma step_other:
  "ok w \<Longrightarrow> log_op_valid valid p \<Longrightarrow> log_op_key key p \<noteq> t \<Longrightarrow>
   pend (log_step prep fin p w) t = pend w t"
  by (cases p) (auto simp: pend_prep pend_fin)

lemma run_other:
  "ok w \<Longrightarrow> list_all (log_op_valid valid) ps \<Longrightarrow> t \<notin> log_op_key key ` set ps \<Longrightarrow>
   ok (fold (log_step prep fin) ps w) \<and> pend (fold (log_step prep fin) ps w) t = pend w t"
  by (induction ps arbitrary: w) (auto simp: step_ok step_other)

lemma finish_prepared:
  assumes "ok w" and "valid r" and "list_all (log_op_valid valid) ps"
    and "key r \<notin> log_op_key key ` set ps"
  shows "fst (fin d (key r) (fold (log_step prep fin) ps (prep r w))) = stamp d (entry r)"
  using assms run_other [of "prep r w" ps "key r"] by (simp add: prep_ok pend_prep fin_result)

lemma finish_twice:
  assumes "ok w" and "list_all (log_op_valid valid) ps" and "t \<notin> log_op_key key ` set ps"
  shows "fst (fin d' t (fold (log_step prep fin) ps (snd (fin d t w)))) = absent"
  using assms run_other [of "snd (fin d t w)" ps t] by (simp add: fin_ok pend_fin fin_result)

end

definition wal_prep :: "TransferReq \<times> Ballot \<Rightarrow> WAL \<Rightarrow> WAL" where
  "wal_prep rb w = snd (wal_prepareTransaction w (fst rb) (snd rb))"

definition wal_fin :: "WALEntry \<Rightarrow> bool \<Rightarrow> TpcTid \<Rightarrow> WAL \<Rightarrow> WALEntry \<times> WAL" where
  "wal_fin u is_commit t w =
     (if is_commit then wal_commitTransaction_tid w u t else wal_abortTransaction w u t)"

definition wal_req_ok :: "TransferReq \<times> Ballot \<Rightarrow> bool" where
  "wal_req_ok rb \<longleftrightarrow> entry_ok (req_entry (fst rb) (snd rb) CROSS PREPARED)"

definition decided :: "bool \<Rightarrow> WALEntry \<Rightarrow> WALEntry" where
  "decided is_commit e = e\<lparr>e_status := (if is_commit then COMMITTED else ABORTED)\<rparr>"

lemma command_ok_simps [simp]:
  "command_ok ''CS_PREPARE''" "command_ok ''IS_PREPARE''"
  by (simp_all add: command_ok_def is_space_def)

lemma wal_prepare_pending:
  assumes "wal_ok w" and "entry_ok (req_entry r b CROSS PREPARED)"
  shows "pending (snd (wal_prepareTransaction w r b)) =
           (pending w)(req_tid r \<mapsto> req_entry r b CROSS PREPARED)"
    and "wal_ok (snd (wal_prepareTransaction w r b))"
  using pending_append_prepared [OF assms(1) command_ok_simps(1) assms(2)]
  by (simp_all add: wal_prepareTransaction_def req_entry_def Let_def)

lemma wal_finish_pending:
  assumes "wal_ok w"
  shows "fst (wal_finish cmd st w u t) =
           (case pending w t of None \<Rightarrow> no_entry | Some e \<Rightarrow> e\<lparr>e_status := st\<rparr>)"
    and "pending (snd (wal_finish cmd st w u t)) = (pending w)(t := None)"
    and "wal_ok (snd (wal_finish cmd st w u t))"
proof -
  have acc: "readable (walFile w)" "writable (walFile w)" using assms by (simp_all add: wal_ok_def)
  consider "transferIndex w t = None" "pending w t = None"
    | pos e where "transferIndex w t = Some pos" "pending w t = Some e" "prepared_at w pos e"
    using pending_Some [OF assms, of t] by (cases "transferIndex w t") (auto simp: pending_def)
  then have "fst (wal_finish cmd st w u t) =
           (case pending w t of None \<Rightarrow> no_entry | Some e \<Rightarrow> e\<lparr>e_status := st\<rparr>) \<and>
    pending (snd (wal_finish cmd st w u t)) = (pending w)(t := None) \<and>
    wal_ok (snd (wal_finish cmd st w u t))"
  proof cases
    case 1
    then show ?thesis using assms by (simp add: wal_finish_def fun_upd_idem)
  next
    case 2
    define l where "l = wal_line cmd t (e_ballot_num e) (e_ballot_server_id e) (e_txn e)"
    have "wal_finish cmd st w u t =
       (e\<lparr>e_status := st\<rparr>,
        (write_app l w)\<lparr>transferIndex := (transferIndex (write_app l w))(t := None)\<rparr>)"
      using 2 acc by (simp add: wal_finish_def prepared_at_read l_def Let_def)
    then show ?thesis
      using 2 pending_erase [OF pending_write_app(2) [OF assms]] pending_write_app(1) [OF assms]
      by simp
  qed
  then show "fst (wal_finish cmd st w u t) =
           (case pending w t of None \<Rightarrow> no_entry | Some e \<Rightarrow> e\<lparr>e_status := st\<rparr>)"
    "pending (snd (wal_finish cmd st w u t)) = (pending w)(t := None)"
    "wal_ok (snd (wal_finish cmd st w u t))" by simp_all
qed

lemma wal_commit_pending:
  assumes "wal_ok w"
  shows "pending (snd (wal_commitTransaction w r b)) = pending w"
    and "wal_ok (snd (wal_commitTransaction w r b))"
  using pending_write_app [OF assms] assms by (simp_all add: wal_commitTransaction_def)

interpretation wal_log: prepared_log wal_prep "wal_fin u" pending wal_ok wal_req_ok
  "\<lambda>rb. req_tid (fst rb)" "\<lambda>rb. req_entry (fst rb) (snd rb) CROSS PREPARED" decided no_entry for u
  by unfold_locales
    (auto simp: wal_prep_def wal_fin_def wal_req_ok_def decided_def wal_commitTransaction_tid_def
      wal_abortTransaction_def wal_prepare_pending wal_finish_pending split: option.split)

lemma insertEntry_pending:
  assumes "wal_ok w" and "entry_ok e"
  shows "pending (insertEntry w e) =
     (case e_status e of
        PREPARED \<Rightarrow> (pending w)(e_tid e \<mapsto> e\<lparr>e_type := CROSS\<rparr>)
      | NO_STATUS \<Rightarrow> pending w
      | _ \<Rightarrow> (pending w)(e_tid e := None))"
    and "wal_ok (insertEntry w e)"
proof -
  have acc: "writable (walFile w)" using assms(1) by (simp add: wal_ok_def)
  have cmd: "command_ok ((if e_type e = INTRA then ''IS_'' else ''CS_'') @ ''PREPARE'')" by simp
  have keep: "e_status e = PREPARED \<Longrightarrow> e\<lparr>e_type := CROSS, e_status := PREPARED\<rparr> = e\<lparr>e_type := CROSS\<rparr>"
    by (cases e) simp
  note prep = pending_append_prepared [OF assms(1) cmd assms(2)]
  note erase = pending_erase [OF assms(1), of "e_tid e"]
  note app = pending_write_app [OF assms(1)]
  note erase_app = pending_write_app [OF erase(2)]
  show "pending (insertEntry w e) =
     (case e_status e of
        PREPARED \<Rightarrow> (pending w)(e_tid e \<mapsto> e\<lparr>e_type := CROSS\<rparr>)
      | NO_STATUS \<Rightarrow> pending w
      | _ \<Rightarrow> (pending w)(e_tid e := None))"
    using acc prep(1) erase(1) app(1) erase_app(1) keep
    by (cases "e_status e") (simp_all add: insertEntry_def Let_def)
  show "wal_ok (insertEntry w e)"
    using acc prep(2) app(2) erase_app(2)
    by (cases "e_status e") (simp_all add: insertEntry_def Let_def)
qed

end
