(* ===== verification/Tpc_Server.thy ===== *)
theory Tpc_Server
  imports Tpc_Utils Tpc_WAL
begin

text \<open>
  The server of \<open>server/server.h\<close> and \<open>server/server.cc\<close>: its state, one definition per
  member function, and the messages it sends through \<open>OutCall\<close>. A handler takes the state
  and the request and returns the new state, the reply, and the list of outgoing calls in the
  order in which the source starts them. \<open>db\<close> is the list of what the server has asked the
  key-value store to write, \<open>kv\<close> what the store holds, and \<open>put_answer n\<close> whether LevelDB
  carries out the \<open>n\<close>th write of that list: when it does not, the source writes a debug line and
  goes on. \<open>constants\<close> is the process-wide table, which the disconnect handler can extend.
\<close>

section \<open>State\<close>

record ServerImpl =
  consts_of :: constants
  server_id :: int
  server_name :: string
  cluster_id :: int
  stubs :: "int list"
  i_am_disconnected :: bool
  disconnected :: "int \<rightharpoonup> bool"
  balances :: "int \<rightharpoonup> int"
  locks :: "int set"
  db :: "(string \<times> string) list"
  kv :: "string \<rightharpoonup> string"
  put_answer :: "nat \<Rightarrow> bool"
  wal :: WAL
  log :: "WALEntry list"
  is_paxos_running :: bool
  paxos_tid :: int
  ballot_num :: int
  promised :: bool
  promised_num :: Ballot
  accepted :: bool
  accept_num :: Ballot
  accept_val :: TransferReq
  last_inserted :: int
  last_inserted_ballot :: Ballot
  in_sync :: bool
  prepare_successes :: int
  prepare_failures :: int
  accept_successes :: int
  accept_failures :: int
  await_prepare_decision :: bool
  await_accept_decision :: bool

definition MAJORITY :: int where
  "MAJORITY = 2"

text \<open>
  Outgoing calls, by the replica whose stub is used. \<open>NullStub\<close> is a call through a stub that
  the table does not hold: \<open>operator[]\<close> creates an empty pointer, which is dereferenced.
\<close>

datatype OutMsg =
  SendPrepare int PrepareReq
| SendAccept int AcceptReq
| SendCommit int CommitReq
| SendSync int SyncReq
| NullStub int

datatype Status = StatusOK | DEADLINE_EXCEEDED | OtherError

section \<open>Construction\<close>

definition resetDisconnectedState :: "ServerImpl \<Rightarrow> ServerImpl" where
  "resetDisconnectedState s =
     s\<lparr>i_am_disconnected := False,
       disconnected :=
         fold (\<lambda>p d. if getClusterIdFromServerId (consts_of s) (snd p) = cluster_id s
                     then d(snd p \<mapsto> False) else d)
           (server_ids (consts_of s)) (disconnected s)\<rparr>"

text \<open>
  What a server process starts with that its source does not determine: the counters, which the
  constructor leaves uninitialised, the store that an earlier process left in the directory, and
  the answers LevelDB will give.
\<close>

record Boot =
  left_prepare_successes :: int
  left_prepare_failures :: int
  left_accept_successes :: int
  left_accept_failures :: int
  left_store :: "string \<rightharpoonup> string"
  store_answers :: "nat \<Rightarrow> bool"

definition ServerImpl_new :: "constants \<Rightarrow> int \<Rightarrow> string \<Rightarrow> disk_file \<Rightarrow> Boot \<Rightarrow> ServerImpl" where
  "ServerImpl_new cs i name f v = resetDisconnectedState
     \<lparr>consts_of = cs, server_id = i, server_name = name,
      cluster_id = getClusterIdFromServerId cs i, stubs = [],
      i_am_disconnected = False, disconnected = Map.empty,
      balances = Map.empty, locks = {}, db = [], kv = left_store v, put_answer = store_answers v,
      wal = WAL_init f, log = [],
      is_paxos_running = False, paxos_tid = - 1, ballot_num = 0,
      promised = False, promised_num = no_ballot,
      accepted = False, accept_num = no_ballot, accept_val = no_TransferReq,
      last_inserted = - 1, last_inserted_ballot = no_ballot, in_sync = False,
      prepare_successes = left_prepare_successes v, prepare_failures = left_prepare_failures v,
      accept_successes = left_accept_successes v, accept_failures = left_accept_failures v,
      await_prepare_decision = False, await_accept_decision = False\<rparr>"

definition run_stubs :: "ServerImpl \<Rightarrow> int list" where
  "run_stubs s =
     fold (\<lambda>p acc. if snd p \<noteq> server_id s
                     \<and> getClusterIdFromServerId (consts_of s) (snd p) = cluster_id s
                   then insort_insert (snd p) acc else acc)
       (server_ids (consts_of s)) (stubs s)"

definition init_balance :: "int \<Rightarrow> ServerImpl \<Rightarrow> ServerImpl" where
  "init_balance i s =
     (if isClientInCluster_of (consts_of s) i (cluster_id s)
      then s\<lparr>balances := (balances s)(i \<mapsto> 10), db := db s @ [(to_string i, ''10'')]\<rparr>
      else s)"

text \<open>
  \<open>run\<close> up to the event loop: whether the database opened and whether the first batch was
  written are the environment's answers; the flag returned says that the loop is entered. The
  batch is written as a whole or not at all.
\<close>

definition write_batch :: "(string \<times> string) list \<Rightarrow> (string \<rightharpoonup> string) \<Rightarrow> string \<rightharpoonup> string" where
  "write_batch ps m = fold (\<lambda>(k, x) m. m(k \<mapsto> x)) ps m"

definition run_setup :: "ServerImpl \<Rightarrow> bool \<Rightarrow> bool \<Rightarrow> ServerImpl \<times> bool" where
  "run_setup s open_ok write_ok =
     (let s = s\<lparr>stubs := run_stubs s\<rparr> in
      if \<not> open_ok then (s, False)
      else let s = fold init_balance [1..total_clients] s
           in (if write_ok then s\<lparr>kv := write_batch (db s) (kv s)\<rparr> else s, write_ok))"

text \<open>
  \<open>RunServer\<close> looks its own name up; a name that the table does not hold is entered with the
  number \<open>0\<close>. \<open>server_main\<close> is the process up to the event loop: \<open>Inl\<close> is the exit status of a
  wrong call.
\<close>

definition RunServer ::
  "constants \<Rightarrow> string \<Rightarrow> disk_file \<Rightarrow> Boot \<Rightarrow> bool \<Rightarrow> bool \<Rightarrow> ServerImpl \<times> bool" where
  "RunServer cs name f v open_ok write_ok =
     (let (i, cs) =
            (case map_of (server_ids cs) name of
               Some i \<Rightarrow> (i, cs)
             | None \<Rightarrow> (0, cs\<lparr>server_ids := smap_set name 0 (server_ids cs)\<rparr>));
          cs = (case map_of (server_addresses cs) name of
                  Some _ \<Rightarrow> cs
                | None \<Rightarrow> cs\<lparr>server_addresses := smap_set name [] (server_addresses cs)\<rparr>)
      in run_setup (ServerImpl_new cs i name f v) open_ok write_ok)"

definition server_main ::
  "string list \<Rightarrow> disk_file \<Rightarrow> Boot \<Rightarrow> bool \<Rightarrow> bool \<Rightarrow> int + (std_exception + (ServerImpl \<times> bool))" where
  "server_main argv f v open_ok write_ok =
     (if length argv \<noteq> 4 then Inl 1
      else Inr (case stoi (argv ! 2) of
                  Inl e \<Rightarrow> Inl e
                | Inr nc \<Rightarrow>
                    (case stoi (argv ! 3) of
                       Inl e \<Rightarrow> Inl e
                     | Inr sz \<Rightarrow>
                         Inr (RunServer (setupApplicationState initial_constants nc sz) (argv ! 1)
                               f v open_ok write_ok))))"

section \<open>Helpers\<close>

definition isClientInCluster :: "ServerImpl \<Rightarrow> int \<Rightarrow> bool" where
  "isClientInCluster s c \<longleftrightarrow> getClusterIdFromClientId (consts_of s) c = cluster_id s"

definition updateBalance :: "int \<Rightarrow> int \<Rightarrow> ServerImpl \<Rightarrow> ServerImpl" where
  "updateBalance c b s =
     s\<lparr>db := db s @ [(to_string c, to_string b)],
       kv := (if put_answer s (length (db s)) then (kv s)(to_string c \<mapsto> to_string b) else kv s)\<rparr>"

definition balance_add :: "int \<Rightarrow> int \<Rightarrow> ServerImpl \<Rightarrow> ServerImpl" where
  "balance_add c d s = s\<lparr>balances := (balances s)(c \<mapsto> i32 (idx (balances s) c + d))\<rparr>"

definition push_log :: "WALEntry \<Rightarrow> ServerImpl \<Rightarrow> ServerImpl" where
  "push_log e s = s\<lparr>log := log s @ [e]\<rparr>"

definition last_index :: "ServerImpl \<Rightarrow> int" where
  "last_index s = i32 (int (length (log s)) - 1)"

definition prepareTransaction :: "TransferReq \<Rightarrow> Ballot \<Rightarrow> ServerImpl \<Rightarrow> ServerImpl" where
  "prepareTransaction r b s =
     (let (entry, w) = wal_prepareTransaction (wal s) r b;
          s = push_log entry (s\<lparr>wal := w\<rparr>)
      in s\<lparr>last_inserted := last_index s, last_inserted_ballot := b\<rparr>)"

definition commitTransaction :: "TransferReq \<Rightarrow> Ballot \<Rightarrow> ServerImpl \<Rightarrow> ServerImpl" where
  "commitTransaction r b s =
     (let (entry, w) = wal_commitTransaction (wal s) r b;
          s = push_log entry (s\<lparr>wal := w\<rparr>);
          s = balance_add (sender (e_txn entry)) (- amount (e_txn entry)) s;
          s = balance_add (receiver (e_txn entry)) (amount (e_txn entry)) s;
          s = updateBalance (sender (e_txn entry)) (idx (balances s) (sender (e_txn entry))) s;
          s = updateBalance (receiver (e_txn entry)) (idx (balances s) (receiver (e_txn entry))) s
      in s\<lparr>last_inserted := last_index s, last_inserted_ballot := b\<rparr>)"

section \<open>The coordinator's decision\<close>

definition settle :: "bool \<Rightarrow> int \<Rightarrow> int \<Rightarrow> ServerImpl \<Rightarrow> ServerImpl" where
  "settle is_commit c d s =
     (if isClientInCluster s c
      then let s = s\<lparr>locks := locks s - {c}\<rparr> in
           if is_commit
           then let s = balance_add c d s in updateBalance c (idx (balances s) c) s
           else s
      else s)"

definition processTpcDecision :: "WALEntry \<Rightarrow> TpcTid \<Rightarrow> bool \<Rightarrow> ServerImpl \<Rightarrow> ServerImpl" where
  "processTpcDecision u t is_commit s =
     (if i_am_disconnected s then s
      else let (entry, w) =
                 (if is_commit then wal_commitTransaction_tid (wal s) u t
                  else wal_abortTransaction (wal s) u t);
               s = s\<lparr>wal := w\<rparr>;
               s = (if e_tid entry \<noteq> - 1 then push_log entry s else s);
               s = settle is_commit (sender (e_txn entry)) (- amount (e_txn entry)) s;
               s = settle is_commit (receiver (e_txn entry)) (amount (e_txn entry)) s
           in s)"

section \<open>The proposer\<close>

text \<open>
  \<open>runPaxos\<close> is called again every few milliseconds until it returns \<open>True\<close>: a call starts a
  round, looks at the counters of the round in progress, or moves to the next phase.
\<close>

definition start_round :: "int \<Rightarrow> ServerImpl \<Rightarrow> ServerImpl \<times> OutMsg list" where
  "start_round t s =
     (let n = i32 (ballot_num s + 1);
          ballot = \<lparr>bal_num = n, bal_server_id = server_id s\<rparr>;
          prepare = \<lparr>pq_ballot = ballot, pq_last_inserted = last_inserted s\<rparr>
      in (s\<lparr>is_paxos_running := True, paxos_tid := t, ballot_num := n,
            promised := True, promised_num := ballot, await_prepare_decision := True,
            prepare_successes := 1, prepare_failures := 0\<rparr>,
          map (\<lambda>i. SendPrepare i prepare) (stubs s)))"

definition locked :: "ServerImpl \<Rightarrow> Transaction \<Rightarrow> bool" where
  "locked s x \<longleftrightarrow>
     (isClientInCluster s (sender x) \<and> sender x \<in> locks s)
     \<or> (isClientInCluster s (receiver x) \<and> receiver x \<in> locks s)"

definition conditions_fail :: "ServerImpl \<Rightarrow> Transaction \<Rightarrow> bool" where
  "conditions_fail s x \<longleftrightarrow>
     locked s x \<or> (isClientInCluster s (sender x) \<and> idx (balances s) (sender x) < amount x)"

text \<open>Reading \<open>balances[sender]\<close> inserts a missing key.\<close>

definition read_sender :: "Transaction \<Rightarrow> ServerImpl \<Rightarrow> ServerImpl" where
  "read_sender x s =
     (if \<not> locked s x \<and> isClientInCluster s (sender x)
      then s\<lparr>balances := touch (balances s) (sender x)\<rparr> else s)"

definition take_locks :: "Transaction \<Rightarrow> ServerImpl \<Rightarrow> ServerImpl" where
  "take_locks x s =
     (let s = (if isClientInCluster s (sender x) then s\<lparr>locks := insert (sender x) (locks s)\<rparr> else s);
          s = (if isClientInCluster s (receiver x) then s\<lparr>locks := insert (receiver x) (locks s)\<rparr> else s)
      in s\<lparr>locks := insert (receiver x) (locks s)\<rparr>)"

definition propose :: "TransferReq \<Rightarrow> bool \<Rightarrow> ServerImpl \<Rightarrow> ServerImpl \<times> OutMsg list" where
  "propose r is_cross s =
     (let s = take_locks (req_txn r) s;
          accept = \<lparr>aq_ballot = promised_num s, aq_r = r\<rparr>;
          s = s\<lparr>accepted := True, accept_num := promised_num s, accept_val := r,
                await_accept_decision := True, accept_successes := 1, accept_failures := 0\<rparr>;
          s = (if is_cross then prepareTransaction r (accept_num s) s else s)
      in (s, map (\<lambda>i. SendAccept i accept) (stubs s)))"

definition conclude :: "TransferReq \<Rightarrow> bool \<Rightarrow> ServerImpl \<Rightarrow> ServerImpl \<times> OutMsg list" where
  "conclude r is_cross s =
     (let s = s\<lparr>await_accept_decision := False\<rparr>;
          commit = \<lparr>cq_ballot = accept_num s\<rparr>;
          msgs = map (\<lambda>i. SendCommit i commit) (stubs s);
          s = (if \<not> is_cross
               then let s = s\<lparr>locks := locks s - {sender (req_txn r)} - {receiver (req_txn r)}\<rparr>
                    in commitTransaction r (accept_num s) s
               else s)
      in (s\<lparr>promised := False, accepted := False, await_prepare_decision := False,
            await_accept_decision := False, is_paxos_running := False, paxos_tid := - 1\<rparr>, msgs))"

definition runPaxos ::
  "TransferReq \<Rightarrow> TransferRes \<Rightarrow> bool \<Rightarrow> ServerImpl
     \<Rightarrow> bool \<times> ServerImpl \<times> TransferRes \<times> OutMsg list" where
  "runPaxos r res is_cross s =
     (if in_sync s then (False, s, res, [])
      else if is_paxos_running s \<and> paxos_tid s \<noteq> req_tid r then (False, s, res, [])
      else let res = res\<lparr>res_tid := req_tid r\<rparr> in
      if \<not> await_prepare_decision s \<and> \<not> await_accept_decision s then
        (let (s, msgs) = start_round (req_tid r) s in (False, s, res, msgs))
      else if await_prepare_decision s then
        (if MAJORITY \<le> prepare_successes s then
           let s = s\<lparr>await_prepare_decision := False\<rparr>;
               fail = conditions_fail s (req_txn r);
               s = read_sender (req_txn r) s
           in if fail
              then (True, s\<lparr>is_paxos_running := False, paxos_tid := - 1\<rparr>, res\<lparr>res_ack := False\<rparr>, [])
              else (let (s, msgs) = propose r is_cross s in (False, s, res, msgs))
         else if MAJORITY \<le> prepare_failures s then
           (True, s\<lparr>await_prepare_decision := False, is_paxos_running := False, paxos_tid := - 1\<rparr>,
            res\<lparr>res_ack := False\<rparr>, [])
         else (False, s, res, []))
      else if await_accept_decision s then
        (if MAJORITY \<le> accept_successes s then
           (let (s, msgs) = conclude r is_cross s in (True, s, res\<lparr>res_ack := True\<rparr>, msgs))
         else if MAJORITY \<le> accept_failures s then
           let s = s\<lparr>await_accept_decision := False, is_paxos_running := False, paxos_tid := - 1\<rparr>;
               s = (if \<not> is_cross
                    then s\<lparr>locks := locks s - {sender (req_txn r)} - {receiver (req_txn r)}\<rparr> else s)
           in (True, s, res\<lparr>res_ack := False\<rparr>, [])
         else (False, s, res, []))
      else (True, s, res, []))"

definition processTpcPrepare ::
  "TransferReq \<Rightarrow> TransferRes \<Rightarrow> ServerImpl \<Rightarrow> bool \<times> ServerImpl \<times> TransferRes \<times> OutMsg list" where
  "processTpcPrepare r res s = runPaxos r res True s"

definition processTransferCall ::
  "TransferReq \<Rightarrow> TransferRes \<Rightarrow> ServerImpl \<Rightarrow> bool \<times> ServerImpl \<times> TransferRes \<times> OutMsg list" where
  "processTransferCall r res s = runPaxos r res False s"

section \<open>The replicas\<close>

definition send_sync :: "int \<Rightarrow> ServerImpl \<Rightarrow> OutMsg" where
  "send_sync i s = (if i \<in> set (stubs s) then SendSync i (last_inserted s) else NullStub i)"

definition processPrepareCall ::
  "PrepareReq \<Rightarrow> PrepareRes \<Rightarrow> ServerImpl \<Rightarrow> ServerImpl \<times> PrepareRes \<times> OutMsg list" where
  "processPrepareCall q res s =
     (if i_am_disconnected s then (s, res\<lparr>pr_ack := False, pr_ballot := pq_ballot q\<rparr>, [])
      else let higher = (ballot_num s < bal_num (pq_ballot q));
               ack = (higher \<and> pq_last_inserted q = last_inserted s);
               behind = (higher \<and> last_inserted s < pq_last_inserted q);
               s' = (if ack
                     then s\<lparr>promised := True, promised_num := pq_ballot q,
                            ballot_num := bal_num (pq_ballot q)\<rparr>
                     else if behind then s\<lparr>in_sync := True\<rparr> else s);
               msgs = (if behind then [send_sync (bal_server_id (pq_ballot q)) s] else []);
               res = res\<lparr>pr_ack := ack, pr_ballot := pq_ballot q\<rparr>;
               res = (if ack \<and> accepted s'
                      then res\<lparr>pr_accept_num := Some (accept_num s'), pr_accept_val := Some (accept_val s')\<rparr>
                      else if \<not> ack
                      then let res = res\<lparr>pr_server_id := Some (server_id s')\<rparr>;
                               res = (if bal_num (pq_ballot q) \<le> ballot_num s'
                                      then res\<lparr>pr_latest_ballot_num := Some (ballot_num s')\<rparr> else res)
                           in (if pq_last_inserted q < last_inserted s'
                               then res\<lparr>pr_last_inserted := Some (last_inserted s')\<rparr> else res)
                      else res)
           in (s', res, msgs))"

definition in_cluster_count :: "ServerImpl \<Rightarrow> Transaction \<Rightarrow> nat" where
  "in_cluster_count s x =
     (if isClientInCluster s (sender x) then 1 else 0) + (if isClientInCluster s (receiver x) then 1 else 0)"

definition lock_own :: "Transaction \<Rightarrow> ServerImpl \<Rightarrow> ServerImpl" where
  "lock_own x s =
     (let L = locks s;
          L = (if isClientInCluster s (sender x) then insert (sender x) L else L);
          L = (if isClientInCluster s (receiver x) then insert (receiver x) L else L)
      in s\<lparr>locks := L\<rparr>)"

definition unlock_own :: "Transaction \<Rightarrow> ServerImpl \<Rightarrow> ServerImpl" where
  "unlock_own x s =
     (let L = locks s;
          L = (if isClientInCluster s (sender x) then L - {sender x} else L);
          L = (if isClientInCluster s (receiver x) then L - {receiver x} else L)
      in s\<lparr>locks := L\<rparr>)"

definition processAcceptCall ::
  "AcceptReq \<Rightarrow> AcceptRes \<Rightarrow> ServerImpl \<Rightarrow> ServerImpl \<times> AcceptRes" where
  "processAcceptCall q res s =
     (if i_am_disconnected s then (s, res\<lparr>ar_ack := False, ar_ballot := aq_ballot q\<rparr>)
      else let ack = (promised s \<and> bal_num (aq_ballot q) = bal_num (promised_num s));
               s' = (if ack
                     then let s = s\<lparr>accepted := True, accept_num := aq_ballot q, accept_val := aq_r q\<rparr>;
                              x = req_txn (accept_val s);
                              s = lock_own x s
                          in (if in_cluster_count s x = 1
                              then prepareTransaction (accept_val s) (accept_num s) s else s)
                     else s)
           in (s', res\<lparr>ar_ack := ack, ar_ballot := aq_ballot q\<rparr>))"

definition processCommitCall :: "CommitReq \<Rightarrow> ServerImpl \<Rightarrow> ServerImpl" where
  "processCommitCall q s =
     (if i_am_disconnected s then s
      else if bal_num (promised_num s) = bal_num (cq_ballot q)
              \<and> bal_num (accept_num s) = bal_num (cq_ballot q)
      then let s = s\<lparr>last_inserted := last_index s, last_inserted_ballot := accept_num s\<rparr>;
               x = req_txn (accept_val s);
               s = unlock_own x s;
               s = (if in_cluster_count s x = 2
                    then commitTransaction (accept_val s) (accept_num s) s else s)
           in s\<lparr>promised := False, accepted := False\<rparr>
      else s)"

section \<open>Synchronisation\<close>

definition getLogEntryFromLocalLog :: "WALEntry \<Rightarrow> LogEntry" where
  "getLogEntryFromLocalLog e =
     \<lparr>l_txn = e_txn e, l_tid = e_tid e, l_type = type_to_int (e_type e),
      l_status = status_to_int (e_status e), l_ballot_num = e_ballot_num e,
      l_ballot_server_id = e_ballot_server_id e\<rparr>"

text \<open>
  The loop of \<open>processSyncCall\<close> runs from \<open>commit_idx + 1\<close> to the end of the log. The index is
  compared with the unsigned length of the log, so from a negative one nothing is copied.
\<close>

definition processSyncCall :: "SyncReq \<Rightarrow> SyncRes \<Rightarrow> ServerImpl \<Rightarrow> SyncRes" where
  "processSyncCall commit_idx res s =
     (if commit_idx < last_inserted s
      then res\<lparr>sr_logs := sr_logs res
                  @ (if commit_idx + 1 < 0 then []
                     else map getLogEntryFromLocalLog (drop (nat (commit_idx + 1)) (log s))),
               sr_ack := True, sr_last_inserted_ballot := last_inserted_ballot s\<rparr>
      else res\<lparr>sr_ack := False\<rparr>)"

definition entry_of_LogEntry :: "LogEntry \<Rightarrow> WALEntry" where
  "entry_of_LogEntry e =
     \<lparr>e_tid = l_tid e, e_ballot_num = l_ballot_num e, e_ballot_server_id = l_ballot_server_id e,
      e_txn = l_txn e, e_type = int_to_type (l_type e), e_status = int_to_status (l_status e)\<rparr>"

definition sync_credit :: "WALEntry \<Rightarrow> int \<Rightarrow> int \<Rightarrow> ServerImpl \<Rightarrow> ServerImpl" where
  "sync_credit e c d s =
     (if e_status e = COMMITTED \<and> isClientInCluster s c
      then let s = balance_add c d s in updateBalance c (idx (balances s) c) s
      else s)"

definition sync_entry :: "LogEntry \<Rightarrow> ServerImpl \<Rightarrow> ServerImpl" where
  "sync_entry l s =
     (let entry = entry_of_LogEntry l;
          s = push_log entry s;
          s = s\<lparr>wal := insertEntry (wal s) entry\<rparr>;
          s = sync_credit entry (sender (e_txn entry)) (- amount (e_txn entry)) s
      in sync_credit entry (receiver (e_txn entry)) (amount (e_txn entry)) s)"

definition handleSyncReply :: "Status \<Rightarrow> SyncRes \<Rightarrow> ServerImpl \<Rightarrow> ServerImpl" where
  "handleSyncReply st res s =
     (let s = (if st = StatusOK \<and> sr_ack res
               then let s = fold sync_entry (sr_logs res) s in
                    s\<lparr>ballot_num := bal_num (sr_last_inserted_ballot res),
                      last_inserted := i32 (last_inserted s + int (length (sr_logs res))),
                      last_inserted_ballot := sr_last_inserted_ballot res\<rparr>
               else s)
      in s\<lparr>in_sync := False\<rparr>)"

section \<open>Replies to the proposer\<close>

definition handlePrepareReply ::
  "Status \<Rightarrow> PrepareReq \<Rightarrow> PrepareRes \<Rightarrow> ServerImpl \<Rightarrow> ServerImpl \<times> OutMsg list" where
  "handlePrepareReply st q res s =
     (if \<not> await_prepare_decision s then (s, [])
      else if st = DEADLINE_EXCEEDED \<and> bal_num (pq_ballot q) = bal_num (promised_num s)
              \<and> bal_server_id (pq_ballot q) = server_id s
      then (s\<lparr>prepare_failures := i32 (prepare_failures s + 1)\<rparr>, [])
      else if st = StatusOK \<and> bal_num (pr_ballot res) = bal_num (promised_num s)
              \<and> bal_server_id (pr_ballot res) = server_id s
      then let s = (if pr_ack res then s\<lparr>prepare_successes := i32 (prepare_successes s + 1)\<rparr>
                    else s\<lparr>prepare_failures := i32 (prepare_failures s + 1)\<rparr>);
               s = (case pr_latest_ballot_num res of
                      None \<Rightarrow> s
                    | Some n \<Rightarrow> s\<lparr>ballot_num := n, await_prepare_decision := False\<rparr>)
           in case pr_last_inserted res of
                None \<Rightarrow> (s, [])
              | Some n \<Rightarrow>
                  if last_inserted s < n
                  then let s = s\<lparr>in_sync := True, await_prepare_decision := False\<rparr>
                       in (s, [send_sync (case pr_server_id res of None \<Rightarrow> 0 | Some i \<Rightarrow> i) s])
                  else (s, [])
      else (s, []))"

definition handleAcceptReply :: "Status \<Rightarrow> AcceptReq \<Rightarrow> AcceptRes \<Rightarrow> ServerImpl \<Rightarrow> ServerImpl" where
  "handleAcceptReply st q res s =
     (if \<not> await_accept_decision s then s
      else if st = DEADLINE_EXCEEDED \<and> bal_num (aq_ballot q) = bal_num (accept_num s)
              \<and> bal_server_id (aq_ballot q) = server_id s
      then s\<lparr>accept_failures := i32 (accept_failures s + 1)\<rparr>
      else if st = StatusOK \<and> bal_num (ar_ballot res) = bal_num (accept_num s)
              \<and> bal_server_id (ar_ballot res) = server_id s
      then (if ar_ack res then s\<lparr>accept_successes := i32 (accept_successes s + 1)\<rparr>
            else s\<lparr>accept_failures := i32 (accept_failures s + 1)\<rparr>)
      else s)"

section \<open>Queries and disconnection\<close>

definition processGetBalanceCall :: "BalanceReq \<Rightarrow> ServerImpl \<Rightarrow> ServerImpl \<times> BalanceRes" where
  "processGetBalanceCall c s = (s\<lparr>balances := touch (balances s) c\<rparr>, idx (balances s) c)"

definition processGetLogsCall :: "LogRes \<Rightarrow> ServerImpl \<Rightarrow> LogRes" where
  "processGetLogsCall res s = res @ map getLogEntryFromLocalLog (log s)"

text \<open>\<open>constants::server_ids[name]\<close> enters an unknown name with the number \<open>0\<close>.\<close>

definition lookup_server :: "string \<Rightarrow> ServerImpl \<Rightarrow> int \<times> ServerImpl" where
  "lookup_server name s =
     (case map_of (server_ids (consts_of s)) name of
        Some i \<Rightarrow> (i, s)
      | None \<Rightarrow> (0, s\<lparr>consts_of := (consts_of s)\<lparr>server_ids := smap_set name 0 (server_ids (consts_of s))\<rparr>\<rparr>))"

definition mark_disconnected :: "string \<Rightarrow> ServerImpl \<Rightarrow> ServerImpl" where
  "mark_disconnected name s =
     (let (i, s) = lookup_server name s;
          s = (if getClusterIdFromServerId (consts_of s) i = cluster_id s
               then s\<lparr>disconnected := (disconnected s)(i \<mapsto> True)\<rparr> else s)
      in (if i = server_id s then s\<lparr>i_am_disconnected := True\<rparr> else s))"

definition processDisconnectCall :: "DisconnectReq \<Rightarrow> ServerImpl \<Rightarrow> ServerImpl" where
  "processDisconnectCall names s = fold mark_disconnected names (resetDisconnectedState s)"

lemmas server_handler_defs [handler_defs] =
  processTpcDecision_def runPaxos_def start_round_def propose_def conclude_def
  processPrepareCall_def processAcceptCall_def processCommitCall_def processSyncCall_def
  handleSyncReply_def handlePrepareReply_def handleAcceptReply_def

end
