(* ===== verification/Tpc_Server_Data.thy ===== *)
theory Tpc_Server_Data
  imports Tpc_Server
begin

text \<open>
  What the handlers do to the data of a server: its log, its balances, the write-ahead log
  and the key-value store. The data changes through four operations only
  (\<open>prepareTransaction\<close>, \<open>commitTransaction\<close>, the coordinator's decision and one step of
  synchronisation); every other handler leaves it alone. The invariant proved here says that
  the balances are the initial balances plus the committed entries of the log, that the store
  holds what memory holds, that the index of the log file is sound and that
  \<open>last_inserted\<close> points into the log.
\<close>

section \<open>Frame lemmas\<close>

lemma idx_balances_add [simp]:
  "idx (balances (balance_add c d s)) x =
     (if x = c then i32 (idx (balances s) c + d) else idx (balances s) x)"
  by (simp add: balance_add_def)

lemma balance_add_frame [simp]:
  "consts_of (balance_add c d s) = consts_of s" "cluster_id (balance_add c d s) = cluster_id s"
  "log (balance_add c d s) = log s" "wal (balance_add c d s) = wal s" "db (balance_add c d s) = db s"
  "locks (balance_add c d s) = locks s" "last_inserted (balance_add c d s) = last_inserted s"
  "i_am_disconnected (balance_add c d s) = i_am_disconnected s"
  by (simp_all add: balance_add_def)

lemma updateBalance_frame [simp]:
  "consts_of (updateBalance c b s) = consts_of s" "cluster_id (updateBalance c b s) = cluster_id s"
  "log (updateBalance c b s) = log s" "wal (updateBalance c b s) = wal s"
  "balances (updateBalance c b s) = balances s" "locks (updateBalance c b s) = locks s"
  "last_inserted (updateBalance c b s) = last_inserted s"
  "db (updateBalance c b s) = db s @ [(to_string c, to_string b)]"
  "i_am_disconnected (updateBalance c b s) = i_am_disconnected s"
  by (simp_all add: updateBalance_def)

lemma push_log_frame [simp]:
  "consts_of (push_log e s) = consts_of s" "cluster_id (push_log e s) = cluster_id s"
  "log (push_log e s) = log s @ [e]" "wal (push_log e s) = wal s"
  "balances (push_log e s) = balances s" "locks (push_log e s) = locks s"
  "last_inserted (push_log e s) = last_inserted s" "db (push_log e s) = db s"
  "i_am_disconnected (push_log e s) = i_am_disconnected s"
  by (simp_all add: push_log_def)

lemma client_cluster_cong:
  "num_clusters cs = num_clusters cs' \<Longrightarrow> getClusterIdFromClientId cs = getClusterIdFromClientId cs'"
  by (rule ext) (simp add: client_cluster_eq)

lemma isClientInCluster_cong:
  "num_clusters (consts_of s) = num_clusters (consts_of s') \<Longrightarrow> cluster_id s = cluster_id s' \<Longrightarrow>
   isClientInCluster s = isClientInCluster s'"
  using client_cluster_cong [of "consts_of s" "consts_of s'"]
  by (simp add: isClientInCluster_def fun_eq_iff)

lemma isClientInCluster_frame [simp]:
  "isClientInCluster (balance_add c d s) = isClientInCluster s"
  "isClientInCluster (updateBalance c b s) = isClientInCluster s"
  "isClientInCluster (push_log e s) = isClientInCluster s"
  "isClientInCluster (s\<lparr>wal := w\<rparr>) = isClientInCluster s"
  "isClientInCluster (s\<lparr>locks := L\<rparr>) = isClientInCluster s"
  by (simp_all add: isClientInCluster_def fun_eq_iff)

lemma prepareTransaction_frame [simp]:
  "consts_of (prepareTransaction r b s) = consts_of s"
  "cluster_id (prepareTransaction r b s) = cluster_id s"
  "log (prepareTransaction r b s) = log s @ [req_entry r b CROSS PREPARED]"
  "wal (prepareTransaction r b s) = snd (wal_prepareTransaction (wal s) r b)"
  "balances (prepareTransaction r b s) = balances s" "db (prepareTransaction r b s) = db s"
  "locks (prepareTransaction r b s) = locks s"
  "last_inserted (prepareTransaction r b s) = i32 (int (length (log s)))"
  by (simp_all add: prepareTransaction_def wal_prepareTransaction_def Let_def last_index_def)

lemma commitTransaction_frame [simp]:
  "consts_of (commitTransaction r b s) = consts_of s"
  "cluster_id (commitTransaction r b s) = cluster_id s"
  "wal (commitTransaction r b s) = snd (wal_commitTransaction (wal s) r b)"
  "length (log (commitTransaction r b s)) = Suc (length (log s))"
  "locks (commitTransaction r b s) = locks s"
  "last_inserted (commitTransaction r b s) = i32 (int (length (log s)))"
  by (simp_all add: commitTransaction_def Let_def last_index_def split: prod.split)

lemma commitTransaction_data:
  fixes r :: TransferReq
  assumes "writable (walFile (wal s))"
  defines "x \<equiv> req_txn r"
  shows "log (commitTransaction r b s) = log s @ [req_entry r b INTRA COMMITTED]"
    and "idx (balances (commitTransaction r b s)) c =
      (let b1 = (if c = sender x then i32 (idx (balances s) c - amount x) else idx (balances s) c)
       in if c = receiver x then i32 (b1 + amount x) else b1)"
    and "db (commitTransaction r b s) = db s @
      [(to_string (sender x), to_string (idx (balances (commitTransaction r b s)) (sender x))),
       (to_string (receiver x), to_string (idx (balances (commitTransaction r b s)) (receiver x)))]"
  using assms
  by (auto simp: commitTransaction_def wal_commitTransaction_def req_entry_def Let_def)

section \<open>Replaying the log\<close>

text \<open>
  The effect of a log entry on the balance of a client, and the sum over a log: the
  specification that the balances are checked against.
\<close>

definition effect :: "WALEntry \<Rightarrow> int \<Rightarrow> int" where
  "effect e c =
     (if e_status e = COMMITTED
      then (if c = receiver (e_txn e) then amount (e_txn e) else 0)
           - (if c = sender (e_txn e) then amount (e_txn e) else 0)
      else 0)"

definition replay :: "WALEntry list \<Rightarrow> int \<Rightarrow> int" where
  "replay es c = (\<Sum>e\<leftarrow>es. effect e c)"

lemma replay_Nil [simp]: "replay [] c = 0"
  by (simp add: replay_def)

lemma replay_append [simp]: "replay (es @ fs) c = replay es c + replay fs c"
  by (simp add: replay_def)

lemma replay_single [simp]: "replay [e] c = effect e c"
  by (simp add: replay_def)

definition tracks :: "(int \<Rightarrow> int) \<Rightarrow> ServerImpl \<Rightarrow> bool" where
  "tracks base s \<longleftrightarrow>
     (\<forall>c. isClientInCluster s c \<longrightarrow> idx (balances s) c = i32 (base c + replay (log s) c))"

definition persisted :: "ServerImpl \<Rightarrow> bool" where
  "persisted s \<longleftrightarrow>
     (\<forall>c. 1 \<le> c \<and> c \<le> total_clients \<and> isClientInCluster s c \<longrightarrow>
        map_of (rev (db s)) (to_string c) = Some (to_string (idx (balances s) c)))"

definition index_ok :: "ServerImpl \<Rightarrow> bool" where
  "index_ok s \<longleftrightarrow> int (length (log s)) \<le> 2147483647 \<longrightarrow>
     - 1 \<le> last_inserted s \<and> last_inserted s < int (length (log s))"

definition config_ok :: "constants \<Rightarrow> bool" where
  "config_ok cs \<longleftrightarrow> 0 < num_clusters cs \<and> num_clusters cs \<le> 700000"

definition core_ok :: "(int \<Rightarrow> int) \<Rightarrow> ServerImpl \<Rightarrow> bool" where
  "core_ok base s \<longleftrightarrow>
     config_ok (consts_of s) \<and> 0 < cluster_id s \<and> wal_ok (wal s) \<and> pending (wal s) (- 1) = None
     \<and> tracks base s \<and> persisted s"

definition data_ok :: "(int \<Rightarrow> int) \<Rightarrow> ServerImpl \<Rightarrow> bool" where
  "data_ok base s \<longleftrightarrow> core_ok base s \<and> index_ok s"

lemma no_negative_client:
  assumes "config_ok (consts_of s)" and "0 < cluster_id s"
  shows "\<not> isClientInCluster s (- 1)"
proof -
  have "getClusterIdFromClientId (consts_of s) (- 1) \<le> 0"
    using assms(1) by (intro client_cluster_nonpos) (auto simp: config_ok_def int32_def)
  with assms(2) show ?thesis by (simp add: isClientInCluster_def)
qed

section \<open>Handlers that leave the data alone\<close>

definition same_data :: "ServerImpl \<Rightarrow> ServerImpl \<Rightarrow> bool" where
  "same_data s s' \<longleftrightarrow>
     num_clusters (consts_of s') = num_clusters (consts_of s) \<and> cluster_id s' = cluster_id s
     \<and> log s' = log s \<and> wal s' = wal s \<and> db s' = db s
     \<and> idx (balances s') = idx (balances s) \<and> last_inserted s' = last_inserted s"

lemma same_data_data_ok:
  assumes "same_data s s'" and "data_ok base s"
  shows "data_ok base s'"
proof -
  have "isClientInCluster s' = isClientInCluster s"
    using assms(1) by (intro isClientInCluster_cong) (auto simp: same_data_def)
  with assms show ?thesis
    by (simp add: data_ok_def core_ok_def same_data_def config_ok_def tracks_def persisted_def
      index_ok_def)
qed

lemma same_data_refl [simp]: "same_data s s"
  by (simp add: same_data_def)

section \<open>The four operations that change the data\<close>

definition req_ok :: "TransferReq \<Rightarrow> bool" where
  "req_ok r \<longleftrightarrow> int64 (req_tid r) \<and> txn_ok (req_txn r) \<and> req_tid r \<noteq> - 1"

definition bal_ok :: "Ballot \<Rightarrow> bool" where
  "bal_ok b \<longleftrightarrow> int32 (bal_num b) \<and> int32 (bal_server_id b)"

lemma entry_ok_req_entry [simp]: "req_ok r \<Longrightarrow> bal_ok b \<Longrightarrow> entry_ok (req_entry r b ty st)"
  by (simp add: req_ok_def bal_ok_def entry_ok_def req_entry_def)

lemma effect_prepared [simp]: "effect (req_entry r b CROSS PREPARED) c = 0"
  by (simp add: effect_def req_entry_def)

lemma last_after_push:
  "int (length xs) + 1 \<le> 2147483647 \<Longrightarrow> i32 (int (length xs)) = int (length xs)"
  by (rule i32_id) (simp add: int32_def)

lemma prepareTransaction_ok:
  assumes "data_ok base s" and "req_ok r" and "bal_ok b"
  shows "data_ok base (prepareTransaction r b s)"
proof -
  have wal: "wal_ok (wal s)" "pending (wal s) (- 1) = None"
    using assms(1) by (simp_all add: data_ok_def core_ok_def)
  have "isClientInCluster (prepareTransaction r b s) = isClientInCluster s"
    by (rule isClientInCluster_cong) simp_all
  then show ?thesis
    using assms wal_prepare_pending [OF wal(1) entry_ok_req_entry [OF assms(2,3)]] wal(2)
    by (auto simp: data_ok_def core_ok_def tracks_def persisted_def index_ok_def req_ok_def
      last_after_push)
qed

lemma effect_committed:
  "effect (req_entry r b INTRA COMMITTED) c =
     (if c = receiver (req_txn r) then amount (req_txn r) else 0)
     - (if c = sender (req_txn r) then amount (req_txn r) else 0)"
  by (simp add: effect_def req_entry_def)

lemma commitTransaction_ok:
  assumes "data_ok base s"
  shows "data_ok base (commitTransaction r b s)"
proof -
  have wal: "wal_ok (wal s)" and wr: "writable (walFile (wal s))"
    using assms by (simp_all add: data_ok_def core_ok_def wal_ok_def)
  note data = commitTransaction_data [OF wr, of r b]
  have cl: "isClientInCluster (commitTransaction r b s) = isClientInCluster s"
    by (rule isClientInCluster_cong) simp_all
  have "tracks base (commitTransaction r b s)"
    using assms by (auto simp: tracks_def data_ok_def core_ok_def cl data(1,2) effect_committed
      Let_def algebra_simps)
  moreover have "persisted (commitTransaction r b s)"
    using assms by (auto simp: persisted_def data_ok_def core_ok_def cl data(2,3) Let_def
      to_string_inject)
  ultimately show ?thesis
    using assms wal_commit_pending [OF wal] data(1)
    by (auto simp: data_ok_def core_ok_def index_ok_def last_after_push)
qed

text \<open>The updates made by a decision and by a synchronisation step.\<close>

lemma settle_frame [simp]:
  "consts_of (settle ic c d s) = consts_of s" "cluster_id (settle ic c d s) = cluster_id s"
  "log (settle ic c d s) = log s" "wal (settle ic c d s) = wal s"
  "last_inserted (settle ic c d s) = last_inserted s"
  "isClientInCluster (settle ic c d s) = isClientInCluster s"
  "i_am_disconnected (settle ic c d s) = i_am_disconnected s"
  by (simp_all add: settle_def Let_def)

lemma settle_balances:
  "idx (balances (settle ic c d s)) x =
     (if ic \<and> isClientInCluster s c \<and> x = c then i32 (idx (balances s) c + d) else idx (balances s) x)"
  by (simp add: settle_def Let_def)

lemma settle_locks [simp]:
  "locks (settle ic c d s) = (if isClientInCluster s c then locks s - {c} else locks s)"
  by (simp add: settle_def Let_def)

lemma settle_persisted: "persisted s \<Longrightarrow> persisted (settle ic c d s)"
  by (auto simp: persisted_def settle_def Let_def to_string_inject)

lemma sync_credit_eq_settle:
  "sync_credit e c d s = (if e_status e = COMMITTED then (settle True c d s)\<lparr>locks := locks s\<rparr> else s)"
  by (simp add: sync_credit_def settle_def Let_def balance_add_def updateBalance_def)

lemma effect_status:
  "effect (e\<lparr>e_status := COMMITTED\<rparr>) c =
     (if c = receiver (e_txn e) then amount (e_txn e) else 0)
     - (if c = sender (e_txn e) then amount (e_txn e) else 0)"
  "st \<noteq> COMMITTED \<Longrightarrow> effect (e\<lparr>e_status := st\<rparr>) c = 0"
  by (simp_all add: effect_def)

lemma effect_decided:
  "effect (decided ic e) c =
     (if ic then (if c = receiver (e_txn e) then amount (e_txn e) else 0)
                 - (if c = sender (e_txn e) then amount (e_txn e) else 0) else 0)"
  by (simp add: decided_def effect_status)

lemma pending_tid: "wal_ok w \<Longrightarrow> pending w t = Some e \<Longrightarrow> e_tid e = t"
  using pending_Some [of w t] by (cases "transferIndex w t") (auto simp: pending_def)

lemma wal_fin_unknown: "pending w t = None \<Longrightarrow> wal_fin u ic t w = (no_entry, w)"
  by (auto simp: wal_fin_def wal_commitTransaction_tid_def wal_abortTransaction_def wal_finish_def
    pending_def)

lemma processTpcDecision_wal_fin:
  "processTpcDecision u t ic s =
     (if i_am_disconnected s then s
      else let (e, w) = wal_fin u ic t (wal s);
               s = s\<lparr>wal := w\<rparr>;
               s = (if e_tid e \<noteq> - 1 then push_log e s else s)
           in settle ic (receiver (e_txn e)) (amount (e_txn e))
                (settle ic (sender (e_txn e)) (- amount (e_txn e)) s))"
  by (simp add: processTpcDecision_def wal_fin_def Let_def)

lemma processTpcDecision_unknown:
  assumes "core_ok base s" and "pending (wal s) t = None"
  shows "processTpcDecision u t ic s = s"
proof -
  have "\<not> isClientInCluster s (- 1)"
    using assms(1) no_negative_client by (simp add: core_ok_def)
  then show ?thesis
    by (simp add: processTpcDecision_wal_fin wal_fin_unknown [OF assms(2)] no_entry_def settle_def)
qed

lemma processTpcDecision_pending:
  assumes "core_ok base s" and "\<not> i_am_disconnected s" and "pending (wal s) t = Some e"
  shows "processTpcDecision u t ic s =
     settle ic (receiver (e_txn e)) (amount (e_txn e))
       (settle ic (sender (e_txn e)) (- amount (e_txn e))
         (push_log (decided ic e) (s\<lparr>wal := snd (wal_fin u ic t (wal s))\<rparr>)))"
proof -
  have wal: "wal_ok (wal s)" using assms(1) by (simp add: core_ok_def)
  then have "e_tid e = t" using assms(3) by (rule pending_tid)
  moreover have "t \<noteq> - 1" using assms(1,3) by (auto simp: core_ok_def)
  moreover have "fst (wal_fin u ic t (wal s)) = decided ic e"
    using wal_log.fin_result [OF wal, of u ic t] assms(3) by simp
  ultimately show ?thesis
    using assms(2)
    by (cases "wal_fin u ic t (wal s)") (simp add: processTpcDecision_wal_fin decided_def)
qed

lemma processTpcDecision_ok:
  assumes "data_ok base s"
  shows "data_ok base (processTpcDecision u t ic s)"
proof (cases "i_am_disconnected s \<or> pending (wal s) t = None")
  case True
  then show ?thesis
    using assms processTpcDecision_unknown [of base s t u ic]
    by (auto simp: data_ok_def processTpcDecision_def)
next
  case False
  then obtain e where e: "pending (wal s) t = Some e" and d: "\<not> i_am_disconnected s" by auto
  define s1 where "s1 = push_log (decided ic e) (s\<lparr>wal := snd (wal_fin u ic t (wal s))\<rparr>)"
  define s' where "s' = settle ic (receiver (e_txn e)) (amount (e_txn e))
    (settle ic (sender (e_txn e)) (- amount (e_txn e)) s1)"
  have core: "core_ok base s" using assms by (simp add: data_ok_def)
  then have wal: "wal_ok (wal s)" by (simp add: core_ok_def)
  have eq: "processTpcDecision u t ic s = s'"
    using processTpcDecision_pending [OF core d e] by (simp add: s'_def s1_def)
  have cl: "isClientInCluster s' = isClientInCluster s" by (simp add: s'_def s1_def)
  have "persisted s1" using core by (simp add: s1_def core_ok_def persisted_def)
  then have "persisted s'" by (simp add: s'_def settle_persisted)
  moreover have "tracks base s'"
    using core by (auto simp: tracks_def core_ok_def cl)
      (auto simp: s'_def s1_def settle_balances effect_decided algebra_simps)
  moreover have "wal_ok (wal s')" "pending (wal s') (- 1) = None"
    using core wal_log.fin_ok [OF wal] wal_log.pend_fin [OF wal]
    by (simp_all add: s'_def s1_def core_ok_def)
  ultimately show ?thesis
    using assms by (auto simp: eq data_ok_def core_ok_def index_ok_def s'_def s1_def)
qed

section \<open>Synchronisation\<close>

definition log_entry_ok :: "LogEntry \<Rightarrow> bool" where
  "log_entry_ok l \<longleftrightarrow> entry_ok (entry_of_LogEntry l) \<and> l_tid l \<noteq> - 1"

lemma sync_credit_frame [simp]:
  "consts_of (sync_credit e c d s) = consts_of s" "cluster_id (sync_credit e c d s) = cluster_id s"
  "log (sync_credit e c d s) = log s" "wal (sync_credit e c d s) = wal s"
  "last_inserted (sync_credit e c d s) = last_inserted s"
  "locks (sync_credit e c d s) = locks s"
  "isClientInCluster (sync_credit e c d s) = isClientInCluster s"
  by (simp_all add: sync_credit_def Let_def)

lemma sync_credit_balances:
  "idx (balances (sync_credit e c d s)) x =
     (if e_status e = COMMITTED \<and> isClientInCluster s c \<and> x = c
      then i32 (idx (balances s) c + d) else idx (balances s) x)"
  by (simp add: sync_credit_def Let_def)

lemma sync_credit_persisted: "persisted s \<Longrightarrow> persisted (sync_credit e c d s)"
  by (auto simp: persisted_def sync_credit_def Let_def to_string_inject)

lemma sync_entry_frame [simp]:
  "consts_of (sync_entry l s) = consts_of s" "cluster_id (sync_entry l s) = cluster_id s"
  "log (sync_entry l s) = log s @ [entry_of_LogEntry l]"
  "last_inserted (sync_entry l s) = last_inserted s" "locks (sync_entry l s) = locks s"
  "wal (sync_entry l s) = insertEntry (wal s) (entry_of_LogEntry l)"
  "isClientInCluster (sync_entry l s) = isClientInCluster s"
  by (simp_all add: sync_entry_def Let_def)

lemma sync_entry_ok:
  assumes "core_ok base s" and "log_entry_ok l"
  shows "core_ok base (sync_entry l s)"
proof -
  define e where "e = entry_of_LogEntry l"
  have wal: "wal_ok (wal s)" and e: "entry_ok e" "e_tid e \<noteq> - 1"
    using assms by (simp_all add: core_ok_def log_entry_ok_def e_def entry_of_LogEntry_def)
  note ins = insertEntry_pending [OF wal e(1)]
  have "pending (insertEntry (wal s) e) (- 1) = None"
    using assms(1) e(2) by (cases "e_status e") (simp_all add: ins core_ok_def)
  moreover have "tracks base (sync_entry l s)"
    using assms(1) by (auto simp: tracks_def core_ok_def)
      (auto simp: sync_entry_def Let_def sync_credit_balances effect_def algebra_simps)
  moreover have "persisted (sync_entry l s)"
    using assms(1) unfolding sync_entry_def Let_def core_ok_def
    by (intro sync_credit_persisted) (simp add: persisted_def)
  ultimately show ?thesis
    using assms(1) ins(2) by (simp add: core_ok_def e_def)
qed

lemma sync_fold_frame [simp]:
  "log (fold sync_entry ls s) = log s @ map entry_of_LogEntry ls"
  "last_inserted (fold sync_entry ls s) = last_inserted s"
  "locks (fold sync_entry ls s) = locks s"
  by (induction ls arbitrary: s) auto

lemma sync_fold_ok:
  "core_ok base s \<Longrightarrow> list_all log_entry_ok ls \<Longrightarrow> core_ok base (fold sync_entry ls s)"
  by (induction ls arbitrary: s) (auto simp: sync_entry_ok)

lemma core_ok_cong:
  assumes "same_data (s\<lparr>last_inserted := last_inserted s'\<rparr>) s'" and "core_ok base s"
  shows "core_ok base s'"
proof -
  have "isClientInCluster s' = isClientInCluster s"
    using assms(1) by (intro isClientInCluster_cong) (auto simp: same_data_def)
  with assms show ?thesis
    by (simp add: core_ok_def same_data_def config_ok_def tracks_def persisted_def)
qed

lemma handleSyncReply_ok:
  assumes "data_ok base s" and "list_all log_entry_ok (sr_logs res)"
  shows "data_ok base (handleSyncReply st res s)"
proof -
  define s1 where "s1 = fold sync_entry (sr_logs res) s"
  have "core_ok base s1" using assms by (simp add: s1_def sync_fold_ok data_ok_def)
  moreover have "core_ok base s" using assms by (simp add: data_ok_def)
  moreover have "same_data (s2\<lparr>last_inserted := last_inserted (handleSyncReply st res s)\<rparr>)
      (handleSyncReply st res s)"
    if "s2 = (if st = StatusOK \<and> sr_ack res then s1 else s)" for s2
    using that by (simp add: handleSyncReply_def s1_def [symmetric] same_data_def Let_def)
  ultimately have "core_ok base (handleSyncReply st res s)"
    using core_ok_cong by (metis (full_types))
  moreover have "index_ok (handleSyncReply st res s)"
    using assms(1)
    by (auto simp: handleSyncReply_def index_ok_def data_ok_def Let_def)
      (simp_all add: i32_id int32_def)
  ultimately show ?thesis by (simp add: data_ok_def)
qed

end
