(* ===== verification/Tpc_Server_Steps.thy ===== *)
theory Tpc_Server_Steps
  imports Tpc_Server_Data
begin

text \<open>
  The server as a state machine: one step per handler, with any request or reply that fits
  the types of the messages, in any order. The invariant holds in every reachable state
  whatever the clients, the peers and the network do.
\<close>

section \<open>Every handler acts on the data through the four operations\<close>

lemma same_data_prepare:
  "same_data s t \<Longrightarrow> same_data (prepareTransaction r b s) (prepareTransaction r b t)"
  by (simp add: same_data_def)

lemma same_data_commit:
  assumes "same_data s t" and "writable (walFile (wal s))"
  shows "same_data (commitTransaction r b s) (commitTransaction r b t)"
  using assms by (auto simp: same_data_def commitTransaction_data fun_eq_iff)

lemma same_data_trans: "same_data s t \<Longrightarrow> same_data t u \<Longrightarrow> same_data s u"
  by (simp add: same_data_def)

lemma take_locks_frame [simp]:
  "same_data s (take_locks x s)" "promised_num (take_locks x s) = promised_num s"
  "stubs (take_locks x s) = stubs s" "is_paxos_running (take_locks x s) = is_paxos_running s"
  "paxos_tid (take_locks x s) = paxos_tid s" "server_id (take_locks x s) = server_id s"
  "ballot_num (take_locks x s) = ballot_num s"
  "await_prepare_decision (take_locks x s) = await_prepare_decision s"
  by (simp_all add: take_locks_def same_data_def Let_def)

lemma read_sender_frame [simp]:
  "same_data s (read_sender x s)" "promised_num (read_sender x s) = promised_num s"
  "stubs (read_sender x s) = stubs s" "is_paxos_running (read_sender x s) = is_paxos_running s"
  "paxos_tid (read_sender x s) = paxos_tid s" "server_id (read_sender x s) = server_id s"
  "ballot_num (read_sender x s) = ballot_num s" "accept_num (read_sender x s) = accept_num s"
  "accept_val (read_sender x s) = accept_val s" "locks (read_sender x s) = locks s"
  "await_prepare_decision (read_sender x s) = await_prepare_decision s"
  "await_accept_decision (read_sender x s) = await_accept_decision s"
  by (simp_all add: read_sender_def same_data_def)

lemma prepareTransaction_control [simp]:
  "promised_num (prepareTransaction r b s) = promised_num s"
  "stubs (prepareTransaction r b s) = stubs s"
  "is_paxos_running (prepareTransaction r b s) = is_paxos_running s"
  "paxos_tid (prepareTransaction r b s) = paxos_tid s"
  "server_id (prepareTransaction r b s) = server_id s"
  "ballot_num (prepareTransaction r b s) = ballot_num s"
  "accept_num (prepareTransaction r b s) = accept_num s"
  "accept_val (prepareTransaction r b s) = accept_val s"
  "await_prepare_decision (prepareTransaction r b s) = await_prepare_decision s"
  "await_accept_decision (prepareTransaction r b s) = await_accept_decision s"
  by (simp_all add: prepareTransaction_def push_log_def Let_def split: prod.split)

lemma commitTransaction_control [simp]:
  "promised_num (commitTransaction r b s) = promised_num s"
  "stubs (commitTransaction r b s) = stubs s"
  "is_paxos_running (commitTransaction r b s) = is_paxos_running s"
  "paxos_tid (commitTransaction r b s) = paxos_tid s"
  "server_id (commitTransaction r b s) = server_id s"
  "ballot_num (commitTransaction r b s) = ballot_num s"
  "accept_num (commitTransaction r b s) = accept_num s"
  "accept_val (commitTransaction r b s) = accept_val s"
  "await_prepare_decision (commitTransaction r b s) = await_prepare_decision s"
  "await_accept_decision (commitTransaction r b s) = await_accept_decision s"
  by (simp_all add: commitTransaction_def push_log_def balance_add_def updateBalance_def Let_def
    split: prod.split)

abbreviation runPaxos_state :: "TransferReq \<Rightarrow> TransferRes \<Rightarrow> bool \<Rightarrow> ServerImpl \<Rightarrow> ServerImpl" where
  "runPaxos_state r res x s \<equiv> fst (snd (runPaxos r res x s))"

lemma propose_data:
  "same_data (if is_cross then prepareTransaction r (promised_num s) s else s) (fst (propose r is_cross s))"
proof -
  let ?t = "(take_locks (req_txn r) s)\<lparr>accepted := True, accept_num := promised_num s, accept_val := r,
              await_accept_decision := True, accept_successes := 1, accept_failures := 0\<rparr>"
  have "same_data s ?t" using take_locks_frame(1) [of s "req_txn r"] by (simp add: same_data_def)
  then show ?thesis
    by (auto simp: propose_def Let_def intro: same_data_prepare)
qed

lemma take_locks_locks:
  "locks (take_locks x s) =
     insert (receiver x) (locks s \<union> {c \<in> {sender x}. isClientInCluster s c})"
proof -
  have "isClientInCluster (if P then s\<lparr>locks := L\<rparr> else s) = isClientInCluster s" for P L
    by (cases P) simp_all
  then show ?thesis by (auto simp: take_locks_def Let_def)
qed

lemma propose_effect:
  "locks (fst (propose r x s)) = locks (take_locks (req_txn r) s)"
  "await_accept_decision (fst (propose r x s))"
  "snd (propose r x s) = map (\<lambda>i. SendAccept i \<lparr>aq_ballot = promised_num s, aq_r = r\<rparr>) (stubs s)"
  by (simp_all add: propose_def Let_def)

lemma conclude_effect:
  "locks (fst (conclude r x s)) =
     (if x then locks s else locks s - {sender (req_txn r)} - {receiver (req_txn r)})"
  "snd (conclude r x s) = map (\<lambda>i. SendCommit i \<lparr>cq_ballot = accept_num s\<rparr>) (stubs s)"
  "\<not> is_paxos_running (fst (conclude r x s))"
  by (simp_all add: conclude_def Let_def)

lemma conclude_data:
  assumes "writable (walFile (wal s))"
  shows "same_data (if is_cross then s else commitTransaction r (accept_num s) s)
    (fst (conclude r is_cross s))"
proof -
  let ?t = "s\<lparr>await_accept_decision := False,
              locks := locks s - {sender (req_txn r)} - {receiver (req_txn r)}\<rparr>"
  have "same_data s ?t" by (simp add: same_data_def)
  then have "same_data (commitTransaction r (accept_num s) s) (commitTransaction r (accept_num s) ?t)"
    using assms by (rule same_data_commit)
  then show ?thesis
    by (auto simp: conclude_def Let_def same_data_def)
qed

text \<open>The ways a call of \<open>runPaxos\<close> can go.\<close>

lemma conditions_fail_await [simp]:
  "conditions_fail (s\<lparr>await_prepare_decision := a\<rparr>) x = conditions_fail s x"
  by (simp add: conditions_fail_def locked_def isClientInCluster_def)

definition checked :: "TransferReq \<Rightarrow> ServerImpl \<Rightarrow> ServerImpl" where
  "checked r s = read_sender (req_txn r) (s\<lparr>await_prepare_decision := False\<rparr>)"

definition stopped :: "ServerImpl \<Rightarrow> ServerImpl" where
  "stopped s = s\<lparr>is_paxos_running := False, paxos_tid := - 1\<rparr>"

definition released :: "TransferReq \<Rightarrow> bool \<Rightarrow> ServerImpl \<Rightarrow> ServerImpl" where
  "released r x s =
     (if x then s else s\<lparr>locks := locks s - {sender (req_txn r)} - {receiver (req_txn r)}\<rparr>)"

definition free_for :: "TransferReq \<Rightarrow> ServerImpl \<Rightarrow> bool" where
  "free_for r s \<longleftrightarrow> \<not> in_sync s \<and> \<not> (is_paxos_running s \<and> paxos_tid s \<noteq> req_tid r)"

lemma runPaxos_blocked: "\<not> free_for r s \<Longrightarrow> runPaxos r res x s = (False, s, res, [])"
  by (auto simp: runPaxos_def free_for_def)

lemma runPaxos_starting:
  "free_for r s \<Longrightarrow> \<not> await_prepare_decision s \<Longrightarrow> \<not> await_accept_decision s \<Longrightarrow>
   runPaxos r res x s =
     (False, fst (start_round (req_tid r) s), res\<lparr>res_tid := req_tid r\<rparr>, snd (start_round (req_tid r) s))"
  by (auto simp: runPaxos_def free_for_def Let_def split: prod.split)

lemma runPaxos_awaiting_prepare:
  assumes "free_for r s" and "await_prepare_decision s"
  shows "runPaxos r res x s =
    (if MAJORITY \<le> prepare_successes s
     then if conditions_fail s (req_txn r)
          then (True, stopped (checked r s), res\<lparr>res_tid := req_tid r, res_ack := False\<rparr>, [])
          else (False, fst (propose r x (checked r s)), res\<lparr>res_tid := req_tid r\<rparr>,
                snd (propose r x (checked r s)))
     else if MAJORITY \<le> prepare_failures s
     then (True, stopped (s\<lparr>await_prepare_decision := False\<rparr>),
           res\<lparr>res_tid := req_tid r, res_ack := False\<rparr>, [])
     else (False, s, res\<lparr>res_tid := req_tid r\<rparr>, []))"
  using assms
  by (auto simp: runPaxos_def free_for_def Let_def checked_def stopped_def split: prod.split)

lemma runPaxos_awaiting_accept:
  assumes "free_for r s" and "\<not> await_prepare_decision s" and "await_accept_decision s"
  shows "runPaxos r res x s =
    (if MAJORITY \<le> accept_successes s
     then (True, fst (conclude r x s), res\<lparr>res_tid := req_tid r, res_ack := True\<rparr>, snd (conclude r x s))
     else if MAJORITY \<le> accept_failures s
     then (True, released r x (stopped (s\<lparr>await_accept_decision := False\<rparr>)),
           res\<lparr>res_tid := req_tid r, res_ack := False\<rparr>, [])
     else (False, s, res\<lparr>res_tid := req_tid r\<rparr>, []))"
  using assms
  by (auto simp: runPaxos_def free_for_def Let_def released_def stopped_def split: prod.split)

lemma runPaxos_cases:
  assumes "runPaxos r res x s = (fin, s', res', msgs)"
  obtains
    (idle) "\<not> fin" "s' = s" "msgs = []"
  | (start) "\<not> fin" "\<not> await_prepare_decision s" "\<not> await_accept_decision s"
      "start_round (req_tid r) s = (s', msgs)"
  | (reject) "fin" "await_prepare_decision s" "MAJORITY \<le> prepare_successes s"
      "conditions_fail s (req_txn r)" "s' = stopped (checked r s)" "msgs = []" "\<not> res_ack res'"
  | (proposed) "\<not> fin" "await_prepare_decision s" "MAJORITY \<le> prepare_successes s"
      "\<not> conditions_fail s (req_txn r)" "propose r x (checked r s) = (s', msgs)"
  | (no_quorum) "fin" "await_prepare_decision s" "MAJORITY \<le> prepare_failures s"
      "s' = stopped (s\<lparr>await_prepare_decision := False\<rparr>)" "msgs = []" "\<not> res_ack res'"
  | (concluded) "fin" "\<not> await_prepare_decision s" "await_accept_decision s"
      "MAJORITY \<le> accept_successes s" "conclude r x s = (s', msgs)" "res_ack res'"
  | (refused) "fin" "\<not> await_prepare_decision s" "await_accept_decision s"
      "MAJORITY \<le> accept_failures s" "msgs = []" "\<not> res_ack res'"
      "s' = released r x (stopped (s\<lparr>await_accept_decision := False\<rparr>))"
proof -
  consider (blocked) "\<not> free_for r s"
    | (none) "free_for r s" "\<not> await_prepare_decision s" "\<not> await_accept_decision s"
    | (ap) "free_for r s" "await_prepare_decision s"
    | (aa) "free_for r s" "\<not> await_prepare_decision s" "await_accept_decision s" by blast
  then show thesis
  proof cases
    case blocked
    with assms show thesis by (intro idle) (auto simp: runPaxos_blocked)
  next
    case none
    with assms show thesis by (intro start) (auto simp: runPaxos_starting)
  next
    case ap
    note eq = runPaxos_awaiting_prepare [OF ap]
    consider (a) "MAJORITY \<le> prepare_successes s" "conditions_fail s (req_txn r)"
      | (b) "MAJORITY \<le> prepare_successes s" "\<not> conditions_fail s (req_txn r)"
      | (c) "\<not> MAJORITY \<le> prepare_successes s" "MAJORITY \<le> prepare_failures s"
      | (d) "\<not> MAJORITY \<le> prepare_successes s" "\<not> MAJORITY \<le> prepare_failures s" by blast
    then show thesis
    proof cases
      case a with assms ap eq show thesis by (intro reject) auto
    next
      case b with assms ap eq show thesis by (intro proposed) auto
    next
      case c with assms ap eq show thesis by (intro no_quorum) auto
    next
      case d with assms ap eq show thesis by (intro idle) auto
    qed
  next
    case aa
    note eq = runPaxos_awaiting_accept [OF aa]
    consider (a) "MAJORITY \<le> accept_successes s"
      | (b) "\<not> MAJORITY \<le> accept_successes s" "MAJORITY \<le> accept_failures s"
      | (c) "\<not> MAJORITY \<le> accept_successes s" "\<not> MAJORITY \<le> accept_failures s" by blast
    then show thesis
    proof cases
      case a with assms aa eq show thesis by (intro concluded) auto
    next
      case b with assms aa eq show thesis by (intro refused) auto
    next
      case c with assms aa eq show thesis by (intro idle) auto
    qed
  qed
qed

lemma stopped_same_data: "same_data s t \<Longrightarrow> same_data s (stopped t)"
  by (simp add: same_data_def stopped_def)

lemma checked_same_data: "same_data s (checked r s)"
  using read_sender_frame(1) [of "s\<lparr>await_prepare_decision := False\<rparr>" "req_txn r"]
  by (simp add: checked_def same_data_def)

lemma start_round_data: "same_data s (fst (start_round t s))"
  by (simp add: start_round_def same_data_def Let_def)

lemma runPaxos_kind:
  assumes "writable (walFile (wal s))"
  shows "same_data s (runPaxos_state r res x s)
     \<or> x \<and> same_data (prepareTransaction r (promised_num s) s) (runPaxos_state r res x s)
     \<or> \<not> x \<and> same_data (commitTransaction r (accept_num s) s) (runPaxos_state r res x s)"
proof -
  obtain fin s' res' msgs where eq: "runPaxos r res x s = (fin, s', res', msgs)"
    by (metis prod_cases4)
  then have "same_data s s' \<or> x \<and> same_data (prepareTransaction r (promised_num s) s) s'
    \<or> \<not> x \<and> same_data (commitTransaction r (accept_num s) s) s'"
  proof (cases rule: runPaxos_cases)
    case start
    then show ?thesis using start_round_data [of s "req_tid r"] by simp
  next
    case reject
    then show ?thesis by (simp add: stopped_same_data checked_same_data)
  next
    case proposed
    moreover have "promised_num (checked r s) = promised_num s" by (simp add: checked_def)
    ultimately show ?thesis
      using propose_data [of x r "checked r s"] checked_same_data [of s r]
      by (auto intro: same_data_trans same_data_prepare split: if_splits)
  next
    case no_quorum
    then show ?thesis by (simp add: same_data_def stopped_def)
  next
    case concluded
    then show ?thesis using conclude_data [OF assms, of x r] by (auto split: if_splits)
  next
    case refused
    then show ?thesis by (auto simp: same_data_def stopped_def released_def)
  qed simp
  with eq show ?thesis by simp
qed

lemma runPaxos_data:
  assumes "writable (walFile (wal s))"
  shows "same_data s (runPaxos_state r res x s)
     \<or> same_data (prepareTransaction r (promised_num s) s) (runPaxos_state r res x s)
     \<or> same_data (commitTransaction r (accept_num s) s) (runPaxos_state r res x s)"
  using runPaxos_kind [OF assms] by blast

lemma lock_own_same_data [simp]: "same_data s (lock_own x s)" "same_data s (unlock_own x s)"
  by (simp_all add: same_data_def lock_own_def unlock_own_def Let_def)

lemma lock_own_locks:
  "locks (lock_own x s) = locks s \<union> {c \<in> {sender x, receiver x}. isClientInCluster s c}"
  "locks (unlock_own x s) = locks s - {c \<in> {sender x, receiver x}. isClientInCluster s c}"
  by (auto simp: lock_own_def unlock_own_def Let_def)

lemma processPrepareCall_data: "same_data s (fst (processPrepareCall q res s))"
  by (auto simp: processPrepareCall_def Let_def same_data_def)

lemma in_cluster_count_cong:
  "isClientInCluster s' = isClientInCluster s \<Longrightarrow> in_cluster_count s' x = in_cluster_count s x"
  by (simp add: in_cluster_count_def)

lemma lock_own_clients [simp]:
  "isClientInCluster (lock_own x s) = isClientInCluster s"
  "isClientInCluster (unlock_own x s) = isClientInCluster s"
  by (simp_all add: lock_own_def unlock_own_def Let_def)

lemma processAcceptCall_kind:
  "same_data s (fst (processAcceptCall q res s))
   \<or> in_cluster_count s (req_txn (aq_r q)) = 1
     \<and> same_data (prepareTransaction (aq_r q) (aq_ballot q) s) (fst (processAcceptCall q res s))"
proof -
  let ?t = "lock_own (req_txn (aq_r q))
    (s\<lparr>accepted := True, accept_num := aq_ballot q, accept_val := aq_r q\<rparr>)"
  have "same_data s ?t" "accept_val ?t = aq_r q" "accept_num ?t = aq_ballot q"
    by (simp_all add: same_data_def lock_own_def Let_def)
  moreover have "in_cluster_count ?t = in_cluster_count s"
    by (intro ext in_cluster_count_cong) (simp add: isClientInCluster_def fun_eq_iff)
  ultimately show ?thesis
    using same_data_prepare [of s ?t "aq_r q" "aq_ballot q"]
    by (auto simp: processAcceptCall_def Let_def)
qed

lemma processAcceptCall_data:
  "same_data s (fst (processAcceptCall q res s))
   \<or> same_data (prepareTransaction (aq_r q) (aq_ballot q) s) (fst (processAcceptCall q res s))"
  using processAcceptCall_kind by blast

definition reindexed :: "ServerImpl \<Rightarrow> ServerImpl" where
  "reindexed s = s\<lparr>last_inserted := last_index s\<rparr>"

lemma processCommitCall_kind:
  assumes "writable (walFile (wal s))"
  shows "same_data s (processCommitCall q s) \<or> same_data (reindexed s) (processCommitCall q s)
    \<or> in_cluster_count s (req_txn (accept_val s)) = 2
      \<and> same_data (commitTransaction (accept_val s) (accept_num s) s) (processCommitCall q s)"
proof -
  let ?t = "unlock_own (req_txn (accept_val s))
    (s\<lparr>last_inserted := last_index s, last_inserted_ballot := accept_num s\<rparr>)"
  have t: "same_data (reindexed s) ?t" "accept_val ?t = accept_val s" "accept_num ?t = accept_num s"
    by (simp_all add: same_data_def unlock_own_def reindexed_def Let_def)
  have w: "writable (walFile (wal (reindexed s)))" using assms by (simp add: reindexed_def)
  have "same_data (commitTransaction (accept_val s) (accept_num s) s)
    (commitTransaction (accept_val s) (accept_num s) (reindexed s))"
    using assms by (auto simp: same_data_def reindexed_def commitTransaction_data fun_eq_iff)
  then have "same_data (commitTransaction (accept_val s) (accept_num s) s)
    (commitTransaction (accept_val s) (accept_num s) ?t)"
    using same_data_commit [OF t(1) w] same_data_trans by blast
  moreover have "in_cluster_count ?t = in_cluster_count s"
    by (intro ext in_cluster_count_cong) (simp add: isClientInCluster_def fun_eq_iff)
  ultimately show ?thesis
    using t by (auto simp: processCommitCall_def Let_def same_data_def)
qed

lemma processCommitCall_data:
  assumes "writable (walFile (wal s))"
  shows "same_data s (processCommitCall q s) \<or> same_data (reindexed s) (processCommitCall q s)
    \<or> same_data (commitTransaction (accept_val s) (accept_num s) s) (processCommitCall q s)"
  using processCommitCall_kind [OF assms] by blast

lemma reindexed_ok: "data_ok base s \<Longrightarrow> data_ok base (reindexed s)"
proof -
  assume ok: "data_ok base s"
  have "core_ok base (reindexed s)"
    by (rule core_ok_cong [where s = s]) (use ok in \<open>simp_all add: data_ok_def same_data_def reindexed_def\<close>)
  moreover have "index_ok (reindexed s)"
    by (auto simp: index_ok_def reindexed_def last_index_def i32_id int32_def)
  ultimately show ?thesis by (simp add: data_ok_def)
qed

lemma handlePrepareReply_data: "same_data s (fst (handlePrepareReply st q res s))"
  by (auto simp: handlePrepareReply_def Let_def same_data_def split: option.split)

lemma handleAcceptReply_data: "same_data s (handleAcceptReply st q res s)"
  by (auto simp: handleAcceptReply_def same_data_def)

lemma processGetBalanceCall_data: "same_data s (fst (processGetBalanceCall c s))"
  by (simp add: processGetBalanceCall_def same_data_def)

lemma mark_disconnected_data: "same_data s (mark_disconnected name s)"
  by (auto simp: mark_disconnected_def lookup_server_def Let_def same_data_def split: option.split)

lemma fold_mark_data: "same_data s (fold mark_disconnected names s)"
  by (induction names arbitrary: s) (auto intro: same_data_trans mark_disconnected_data)

lemma processDisconnectCall_data: "same_data s (processDisconnectCall names s)"
proof -
  have "same_data s (resetDisconnectedState s)"
    by (simp add: resetDisconnectedState_def same_data_def)
  then show ?thesis unfolding processDisconnectCall_def by (rule same_data_trans [OF _ fold_mark_data])
qed

section \<open>The control state\<close>

text \<open>
  At most one phase is awaited, only while a transaction is being run; \<open>paxos_tid\<close> is
  \<open>-1\<close> when none is. The values kept for later use fit their types.
\<close>

definition phase_ok :: "ServerImpl \<Rightarrow> bool" where
  "phase_ok s \<longleftrightarrow>
     \<not> (await_prepare_decision s \<and> await_accept_decision s)
     \<and> (await_prepare_decision s \<or> await_accept_decision s \<longrightarrow> is_paxos_running s)
     \<and> (\<not> is_paxos_running s \<longrightarrow> paxos_tid s = - 1)"

definition kept_ok :: "ServerImpl \<Rightarrow> bool" where
  "kept_ok s \<longleftrightarrow> int32 (server_id s) \<and> bal_ok (promised_num s) \<and> bal_ok (accept_num s)
     \<and> req_ok (accept_val s)"

definition control_ok :: "ServerImpl \<Rightarrow> bool" where
  "control_ok s \<longleftrightarrow> phase_ok s \<and> kept_ok s"

definition same_control :: "ServerImpl \<Rightarrow> ServerImpl \<Rightarrow> bool" where
  "same_control s s' \<longleftrightarrow>
     await_prepare_decision s' = await_prepare_decision s
     \<and> await_accept_decision s' = await_accept_decision s
     \<and> is_paxos_running s' = is_paxos_running s \<and> paxos_tid s' = paxos_tid s
     \<and> server_id s' = server_id s \<and> promised_num s' = promised_num s
     \<and> accept_num s' = accept_num s \<and> accept_val s' = accept_val s
     \<and> accept_successes s' = accept_successes s \<and> accept_failures s' = accept_failures s"

lemma same_control_ok: "same_control s s' \<Longrightarrow> control_ok s \<Longrightarrow> control_ok s'"
  by (simp add: same_control_def control_ok_def phase_ok_def kept_ok_def)

lemma same_control_trans: "same_control s t \<Longrightarrow> same_control t u \<Longrightarrow> same_control s u"
  by (simp add: same_control_def)

lemma start_round_control:
  "control_ok s \<Longrightarrow> \<not> await_accept_decision s \<Longrightarrow> control_ok (fst (start_round t s))"
  by (simp add: start_round_def control_ok_def phase_ok_def kept_ok_def bal_ok_def Let_def)

lemma checked_simps [simp]:
  "await_prepare_decision (checked r s) = False"
  "await_accept_decision (checked r s) = await_accept_decision s"
  "is_paxos_running (checked r s) = is_paxos_running s" "paxos_tid (checked r s) = paxos_tid s"
  "server_id (checked r s) = server_id s" "promised_num (checked r s) = promised_num s"
  "accept_num (checked r s) = accept_num s" "accept_val (checked r s) = accept_val s"
  "stubs (checked r s) = stubs s" "locks (checked r s) = locks s"
  by (simp_all add: checked_def)

lemma propose_control:
  assumes "kept_ok s" and "req_ok r" and "is_paxos_running s" and "\<not> await_prepare_decision s"
  shows "control_ok (fst (propose r x s))"
  using assms by (auto simp: propose_def control_ok_def phase_ok_def kept_ok_def Let_def)

lemma conclude_control: "kept_ok s \<Longrightarrow> control_ok (fst (conclude r x s))"
  by (simp add: conclude_def control_ok_def phase_ok_def kept_ok_def Let_def)

lemma runPaxos_control:
  assumes "control_ok s" and "req_ok r"
  shows "control_ok (runPaxos_state r res x s)"
proof -
  obtain fin s' res' msgs where eq: "runPaxos r res x s = (fin, s', res', msgs)"
    by (metis prod_cases4)
  have kept: "kept_ok s" and phase: "phase_ok s" using assms(1) by (simp_all add: control_ok_def)
  from eq have "control_ok s'"
  proof (cases rule: runPaxos_cases)
    case start
    then show ?thesis using assms(1) start_round_control [of s "req_tid r"] by simp
  next
    case proposed
    have "kept_ok (checked r s)" using kept by (simp add: kept_ok_def)
    moreover have "is_paxos_running s" using phase proposed by (simp add: phase_ok_def)
    ultimately show ?thesis
      using proposed propose_control [of "checked r s" r x] assms(2) by simp
  next
    case concluded
    then show ?thesis using conclude_control [OF kept, of r x] by simp
  qed (use assms(1) in \<open>auto simp: stopped_def released_def control_ok_def phase_ok_def kept_ok_def\<close>)
  with eq show ?thesis by simp
qed

lemma processPrepareCall_control:
  assumes "control_ok s" and "bal_ok (pq_ballot q)"
  shows "control_ok (fst (processPrepareCall q res s))"
  using assms
  by (auto simp: processPrepareCall_def control_ok_def phase_ok_def kept_ok_def Let_def)

lemma processAcceptCall_control:
  assumes "control_ok s" and "bal_ok (aq_ballot q)" and "req_ok (aq_r q)"
  shows "control_ok (fst (processAcceptCall q res s))"
  using assms
  by (auto simp: processAcceptCall_def control_ok_def phase_ok_def kept_ok_def lock_own_def Let_def)

lemma processCommitCall_control: "control_ok s \<Longrightarrow> control_ok (processCommitCall q s)"
  by (auto simp: processCommitCall_def control_ok_def phase_ok_def kept_ok_def unlock_own_def Let_def)

lemma settle_control [simp]: "same_control s (settle ic c d s)"
  by (simp add: settle_def same_control_def balance_add_def updateBalance_def Let_def)

lemma processTpcDecision_same: "same_control s (processTpcDecision u t ic s)"
proof -
  have push: "same_control s (push_log e (s\<lparr>wal := w\<rparr>))" "same_control s (s\<lparr>wal := w\<rparr>)" for e w
    by (simp_all add: same_control_def push_log_def)
  then show ?thesis
    by (auto simp: processTpcDecision_wal_fin Let_def same_control_def [of s s] split: prod.split
        intro!: same_control_trans [OF _ settle_control])
qed

lemmas processTpcDecision_control = same_control_ok [OF processTpcDecision_same]

lemma sync_entry_control: "same_control s (sync_entry l s)"
  by (simp add: sync_entry_def sync_credit_def same_control_def push_log_def balance_add_def
    updateBalance_def Let_def)

lemma sync_fold_control: "same_control s (fold sync_entry ls s)"
proof (induction ls arbitrary: s)
  case (Cons l ls)
  then show ?case using sync_entry_control same_control_trans by fastforce
qed (simp add: same_control_def)

lemma handleSyncReply_same: "same_control s (handleSyncReply st res s)"
  using sync_fold_control [of s "sr_logs res"]
  by (simp add: handleSyncReply_def same_control_def Let_def)

lemmas handleSyncReply_control = same_control_ok [OF handleSyncReply_same]

lemma handlePrepareReply_control:
  "control_ok s \<Longrightarrow> control_ok (fst (handlePrepareReply st q res s))"
  by (auto simp: handlePrepareReply_def control_ok_def phase_ok_def kept_ok_def Let_def
    split: option.split)

lemma handleAcceptReply_control: "control_ok s \<Longrightarrow> control_ok (handleAcceptReply st q res s)"
  by (auto simp: handleAcceptReply_def control_ok_def phase_ok_def kept_ok_def)

lemma mark_disconnected_control: "same_control s (mark_disconnected name s)"
  by (auto simp: mark_disconnected_def lookup_server_def Let_def same_control_def split: option.split)

lemma fold_mark_control: "same_control s (fold mark_disconnected names s)"
proof (induction names arbitrary: s)
  case (Cons n ns)
  then show ?case using mark_disconnected_control same_control_trans by fastforce
qed (simp add: same_control_def)

lemma processDisconnectCall_control: "same_control s (processDisconnectCall names s)"
  using fold_mark_control [of "resetDisconnectedState s" names]
  by (simp add: processDisconnectCall_def same_control_def resetDisconnectedState_def)

section \<open>Steps and reachable states\<close>

inductive server_step :: "ServerImpl \<Rightarrow> ServerImpl \<Rightarrow> bool" where
  transfer: "req_ok r \<Longrightarrow> server_step s (runPaxos_state r res x s)"
| decision: "server_step s (processTpcDecision u t ic s)"
| prepare: "bal_ok (pq_ballot q) \<Longrightarrow> server_step s (fst (processPrepareCall q pres s))"
| accept: "bal_ok (aq_ballot q) \<Longrightarrow> req_ok (aq_r q) \<Longrightarrow> server_step s (fst (processAcceptCall q ares s))"
| commit: "server_step s (processCommitCall q s)"
| prepare_reply: "server_step s (fst (handlePrepareReply st q pres s))"
| accept_reply: "server_step s (handleAcceptReply st q ares s)"
| sync_reply: "list_all log_entry_ok (sr_logs sres) \<Longrightarrow> server_step s (handleSyncReply st sres s)"
| balance: "server_step s (fst (processGetBalanceCall c s))"
| disconnect: "server_step s (processDisconnectCall names s)"

inductive_cases server_stepE: "server_step s s'"

inductive server_run :: "ServerImpl \<Rightarrow> ServerImpl \<Rightarrow> bool" where
  stay: "server_run s s"
| step: "server_run s t \<Longrightarrow> server_step t u \<Longrightarrow> server_run s u"

lemma server_run_trans: "server_run t u \<Longrightarrow> server_run s t \<Longrightarrow> server_run s u"
  by (induction rule: server_run.induct) (auto intro: server_run.step)

definition server_ok :: "(int \<Rightarrow> int) \<Rightarrow> ServerImpl \<Rightarrow> bool" where
  "server_ok base s \<longleftrightarrow> data_ok base s \<and> control_ok s"

lemma server_ok_writable: "server_ok base s \<Longrightarrow> writable (walFile (wal s))"
  by (simp add: server_ok_def data_ok_def core_ok_def wal_ok_def)

lemma runPaxos_ok:
  assumes "server_ok base s" and "req_ok r"
  shows "data_ok base (runPaxos_state r res x s)"
proof -
  have ok: "data_ok base s" and kept: "bal_ok (promised_num s)" "bal_ok (accept_num s)"
    using assms(1) by (simp_all add: server_ok_def control_ok_def kept_ok_def)
  show ?thesis
    using runPaxos_data [OF server_ok_writable [OF assms(1)], of r res x] same_data_data_ok
      prepareTransaction_ok [OF ok assms(2) kept(1)] commitTransaction_ok [OF ok] ok
    by blast
qed

lemma server_step_data:
  assumes "server_step s t" and "server_ok base s"
  shows "data_ok base t"
  using assms(1)
proof cases
  case (transfer r res x)
  then show ?thesis using runPaxos_ok [OF assms(2)] by simp
next
  case (accept q ares)
  then show ?thesis
    using processAcceptCall_data [of s q ares] assms(2) same_data_data_ok
      prepareTransaction_ok [of base s "aq_r q" "aq_ballot q"]
    by (auto simp: server_ok_def)
next
  case (commit q)
  then show ?thesis
    using processCommitCall_data [OF server_ok_writable [OF assms(2)], of q] assms(2)
      same_data_data_ok reindexed_ok commitTransaction_ok
    by (auto simp: server_ok_def)
qed (use assms(2) processTpcDecision_ok handleSyncReply_ok
    same_data_data_ok [OF processPrepareCall_data] same_data_data_ok [OF handlePrepareReply_data]
    same_data_data_ok [OF handleAcceptReply_data] same_data_data_ok [OF processGetBalanceCall_data]
    same_data_data_ok [OF processDisconnectCall_data] in \<open>auto simp: server_ok_def\<close>)

lemma server_step_control:
  assumes "server_step s t" and "control_ok s"
  shows "control_ok t"
  using assms(1)
proof cases
  case (balance c)
  then show ?thesis using assms(2) same_control_ok [of s t]
    by (simp add: processGetBalanceCall_def same_control_def)
next
  case (disconnect names)
  then show ?thesis using assms(2) same_control_ok processDisconnectCall_control by blast
qed (use assms(2) runPaxos_control processTpcDecision_control processPrepareCall_control
    processAcceptCall_control processCommitCall_control handlePrepareReply_control
    handleAcceptReply_control handleSyncReply_control in auto)

lemma server_step_ok: "server_step s t \<Longrightarrow> server_ok base s \<Longrightarrow> server_ok base t"
  using server_step_data server_step_control by (auto simp: server_ok_def)

lemma server_run_ok: "server_run s t \<Longrightarrow> server_ok base s \<Longrightarrow> server_ok base t"
  by (induction rule: server_run.induct) (auto intro: server_step_ok)

section \<open>The initial state\<close>

definition started :: "constants \<Rightarrow> int \<Rightarrow> string \<Rightarrow> disk_file \<Rightarrow> Boot \<Rightarrow> ServerImpl" where
  "started cs i name f v = fst (run_setup (ServerImpl_new cs i name f v) True True)"

text \<open>A process whose counters happen to be zero, with an empty store that takes every write.\<close>

definition plain_boot :: Boot where
  "plain_boot = \<lparr>left_prepare_successes = 0, left_prepare_failures = 0, left_accept_successes = 0,
     left_accept_failures = 0, left_store = Map.empty, store_answers = (\<lambda>_. True)\<rparr>"

definition initial_balance :: "constants \<Rightarrow> int \<Rightarrow> int \<Rightarrow> int" where
  "initial_balance cs k c =
     (if 1 \<le> c \<and> c \<le> total_clients \<and> getClusterIdFromClientId cs c = k then 10 else 0)"

definition start_ok :: "constants \<Rightarrow> int \<Rightarrow> disk_file \<Rightarrow> bool" where
  "start_ok cs i f \<longleftrightarrow> config_ok cs \<and> int32 i \<and> 0 < getClusterIdFromServerId cs i
     \<and> readable f \<and> writable f"

lemma init_balance_frame [simp]:
  "consts_of (init_balance i s) = consts_of s" "cluster_id (init_balance i s) = cluster_id s"
  "log (init_balance i s) = log s" "wal (init_balance i s) = wal s"
  "last_inserted (init_balance i s) = last_inserted s" "stubs (init_balance i s) = stubs s"
  "isClientInCluster (init_balance i s) = isClientInCluster s"
  by (simp_all add: init_balance_def isClientInCluster_def fun_eq_iff)

lemma init_fold_shape:
  "\<exists>b d. fold init_balance is s = s\<lparr>balances := b, db := d\<rparr>"
proof (induction "is" arbitrary: s)
  case Nil
  have "s = s\<lparr>balances := balances s, db := db s\<rparr>" by simp
  then show ?case by (metis fold_simps(1))
next
  case (Cons i "is")
  obtain b d where "init_balance i s = s\<lparr>balances := b, db := d\<rparr>"
    using that [where b = "balances s" and d = "db s"] that
    by (cases "isClientInCluster_of (consts_of s) i (cluster_id s)") (auto simp: init_balance_def)
  moreover obtain b' d' where "fold init_balance is (init_balance i s) =
      (init_balance i s)\<lparr>balances := b', db := d'\<rparr>" using Cons.IH by blast
  ultimately show ?case by auto
qed

lemma init_fold_frame [simp]:
  "consts_of (fold init_balance is s) = consts_of s" "cluster_id (fold init_balance is s) = cluster_id s"
  "log (fold init_balance is s) = log s" "wal (fold init_balance is s) = wal s"
  "last_inserted (fold init_balance is s) = last_inserted s" "stubs (fold init_balance is s) = stubs s"
  "i_am_disconnected (fold init_balance is s) = i_am_disconnected s"
  "locks (fold init_balance is s) = locks s" "server_id (fold init_balance is s) = server_id s"
  "ballot_num (fold init_balance is s) = ballot_num s" "in_sync (fold init_balance is s) = in_sync s"
  "promised (fold init_balance is s) = promised s" "accepted (fold init_balance is s) = accepted s"
  "is_paxos_running (fold init_balance is s) = is_paxos_running s"
  "await_prepare_decision (fold init_balance is s) = await_prepare_decision s"
  "await_accept_decision (fold init_balance is s) = await_accept_decision s"
  "isClientInCluster (fold init_balance is s) = isClientInCluster s"
  "same_control s (fold init_balance is s)"
  using init_fold_shape [of "is" s] by (auto simp: isClientInCluster_def same_control_def)

lemma init_fold_balances:
  "idx (balances (fold init_balance is s)) c =
     (if c \<in> set is \<and> isClientInCluster s c then 10 else idx (balances s) c)"
  by (induction "is" arbitrary: s)
    (auto simp: init_balance_def isClientInCluster_of_def isClientInCluster_def)

lemma init_fold_db:
  "map_of (rev (db (fold init_balance is s))) (to_string c) =
     (if c \<in> set is \<and> isClientInCluster s c then Some ''10'' else map_of (rev (db s)) (to_string c))"
  by (induction "is" arbitrary: s)
    (auto simp: init_balance_def isClientInCluster_of_def isClientInCluster_def to_string_inject)

lemma ServerImpl_new_simps [simp]:
  "consts_of (ServerImpl_new cs i name f v) = cs" "log (ServerImpl_new cs i name f v) = []"
  "cluster_id (ServerImpl_new cs i name f v) = getClusterIdFromServerId cs i"
  "balances (ServerImpl_new cs i name f v) = Map.empty" "db (ServerImpl_new cs i name f v) = []"
  "wal (ServerImpl_new cs i name f v) = WAL_init f" "last_inserted (ServerImpl_new cs i name f v) = - 1"
  "server_id (ServerImpl_new cs i name f v) = i" "locks (ServerImpl_new cs i name f v) = {}"
  "i_am_disconnected (ServerImpl_new cs i name f v) = False"
  "ballot_num (ServerImpl_new cs i name f v) = 0" "in_sync (ServerImpl_new cs i name f v) = False"
  "promised (ServerImpl_new cs i name f v) = False" "accepted (ServerImpl_new cs i name f v) = False"
  "is_paxos_running (ServerImpl_new cs i name f v) = False"
  "await_prepare_decision (ServerImpl_new cs i name f v) = False"
  "await_accept_decision (ServerImpl_new cs i name f v) = False"
  by (simp_all add: ServerImpl_new_def resetDisconnectedState_def)

lemma new_control: "int32 i \<Longrightarrow> control_ok (ServerImpl_new cs i name f v)"
  by (simp add: ServerImpl_new_def resetDisconnectedState_def control_ok_def phase_ok_def kept_ok_def
    bal_ok_def req_ok_def txn_ok_def message_defaults int32_def int64_def)

definition filled :: "ServerImpl \<Rightarrow> ServerImpl" where
  "filled s = s\<lparr>kv := write_batch (db s) (kv s)\<rparr>"

lemma filled_frame [simp]:
  "consts_of (filled s) = consts_of s" "cluster_id (filled s) = cluster_id s"
  "log (filled s) = log s" "wal (filled s) = wal s" "balances (filled s) = balances s" "db (filled s) = db s"
  "last_inserted (filled s) = last_inserted s" "stubs (filled s) = stubs s"
  "i_am_disconnected (filled s) = i_am_disconnected s" "locks (filled s) = locks s"
  "server_id (filled s) = server_id s" "ballot_num (filled s) = ballot_num s" "in_sync (filled s) = in_sync s"
  "promised (filled s) = promised s" "accepted (filled s) = accepted s"
  "is_paxos_running (filled s) = is_paxos_running s" "await_prepare_decision (filled s) = await_prepare_decision s"
  "await_accept_decision (filled s) = await_accept_decision s" "isClientInCluster (filled s) = isClientInCluster s"
  "same_control s (filled s)" "put_answer (filled s) = put_answer s" "kv (filled s) = write_batch (db s) (kv s)"
  "accept_val (filled s) = accept_val s"
  by (simp_all add: filled_def same_control_def isClientInCluster_def fun_eq_iff)

lemma started_eq:
  "started cs i name f v = filled (fold init_balance [1..total_clients]
     ((ServerImpl_new cs i name f v)\<lparr>stubs := run_stubs (ServerImpl_new cs i name f v)\<rparr>))"
  by (simp add: started_def run_setup_def filled_def Let_def)

lemma to_string_10: "to_string 10 = ''10''"
  by code_simp

lemma started_ok:
  assumes "start_ok cs i f"
  shows "server_ok (initial_balance cs (getClusterIdFromServerId cs i)) (started cs i name f v)"
proof -
  let ?s = "(ServerImpl_new cs i name f v)\<lparr>stubs := run_stubs (ServerImpl_new cs i name f v)\<rparr>"
  have cl: "isClientInCluster ?s c \<longleftrightarrow> getClusterIdFromClientId cs c = getClusterIdFromServerId cs i" for c
    by (simp add: isClientInCluster_def)
  have "control_ok ?s"
    using new_control [of i cs name f v] assms same_control_ok [of "ServerImpl_new cs i name f v" ?s]
    by (simp add: same_control_def start_ok_def)
  then have "control_ok (started cs i name f v)"
    unfolding started_eq by (rule same_control_ok [OF filled_frame(20) same_control_ok [OF init_fold_frame(18)]])
  moreover have "wal_ok (WAL_init f)" "pending (WAL_init f) (- 1) = None"
    using assms by (simp_all add: start_ok_def wal_ok_def WAL_init_def pending_def)
  moreover have "tracks (initial_balance cs (getClusterIdFromServerId cs i)) (started cs i name f v)"
    by (auto simp: started_eq tracks_def init_fold_balances cl initial_balance_def)
  moreover have "persisted (started cs i name f v)"
    by (auto simp: started_eq persisted_def init_fold_balances init_fold_db cl to_string_10)
  ultimately show ?thesis
    using assms by (simp add: server_ok_def data_ok_def core_ok_def start_ok_def started_eq index_ok_def)
qed

end
