(* ===== verification/Tpc_Server_Props.thy ===== *)
theory Tpc_Server_Props
  imports Tpc_Server_Steps
begin

text \<open>
  The properties of the server: what holds in every reachable state, what each handler does
  on every branch, and where the handlers depart from what the README asks for.
\<close>

section \<open>A concrete deployment\<close>

text \<open>Three clusters of three servers, server \<open>S1\<close> with an empty log file.\<close>

definition demo_constants :: constants where
  "demo_constants = fresh_setup 3 3"

definition demo_file :: disk_file where
  "demo_file = \<lparr>contents = None, readable = True, writable = True\<rparr>"

definition demo_server :: ServerImpl where
  "demo_server = started demo_constants 1 ''S1'' demo_file plain_boot"

lemma demo_sizes [simp]: "num_clusters demo_constants = 3" "cluster_size demo_constants = 3"
  by (simp_all add: demo_constants_def)

lemma demo_cluster [simp]: "getClusterIdFromServerId demo_constants 1 = 1"
  by (subst server_cluster_eq) (simp_all add: int32_def)

lemma demo_start_ok [simp]: "start_ok demo_constants 1 demo_file"
  by (simp add: start_ok_def config_ok_def demo_file_def int32_def)

lemma demo_server_simps [simp]:
  "consts_of demo_server = demo_constants" "cluster_id demo_server = 1" "log demo_server = []"
  "wal demo_server = WAL_init demo_file" "last_inserted demo_server = - 1" "locks demo_server = {}"
  "i_am_disconnected demo_server = False" "ballot_num demo_server = 0" "in_sync demo_server = False"
  "promised demo_server = False" "accepted demo_server = False" "server_id demo_server = 1"
  "is_paxos_running demo_server = False" "await_prepare_decision demo_server = False"
  "await_accept_decision demo_server = False"
  by (simp_all add: demo_server_def started_eq)

lemma demo_in_cluster [simp]:
  "isClientInCluster demo_server c \<longleftrightarrow> - (- i32 (c * 3) div 3000) = 1"
  by (simp add: isClientInCluster_def client_cluster_eq)

lemma demo_balance [simp]:
  "1 \<le> c \<Longrightarrow> c \<le> 1000 \<Longrightarrow> idx (balances demo_server) c = 10"
  by (simp add: demo_server_def started_eq init_fold_balances total_clients_def
      isClientInCluster_def client_cluster_iff int32_def)

lemma demo_server_ok [simp]: "server_ok (initial_balance demo_constants 1) demo_server"
  using started_ok [OF demo_start_ok, of "''S1''" plain_boot] by (simp add: demo_server_def)

section \<open>Invariants\<close>

lemma reachable_ok:
  assumes "start_ok cs i f" and "server_run (started cs i name f v) s"
  shows "server_ok (initial_balance cs (getClusterIdFromServerId cs i)) s"
  using assms started_ok server_run_ok by blast

text \<open>
  C7. In every reachable state, whatever requests and replies arrived and in whatever order,
  the balance of every client of the cluster is its initial balance plus the effect of the
  committed entries of the server's log (in \<open>int\<close> arithmetic): the balances are a function of
  the log.
\<close>

theorem balances_replay_log:
  assumes "start_ok cs i f" and "server_run (started cs i name f v) s" and "isClientInCluster s c"
  shows "idx (balances s) c =
    i32 (initial_balance cs (getClusterIdFromServerId cs i) c + replay (log s) c)"
  using reachable_ok [OF assms(1,2)] assms(3)
  by (simp add: server_ok_def data_ok_def core_ok_def tracks_def)

theorem balances_replay_log_witness:
  "isClientInCluster demo_server 7 \<and>
   idx (balances demo_server) 7 = i32 (initial_balance demo_constants 1 7 + replay (log demo_server) 7)"
  using balances_replay_log [OF demo_start_ok server_run.stay, of "''S1''" plain_boot 7]
  by (simp add: demo_server_def [symmetric])

text \<open>
  C27. \<open>last_inserted\<close> always points into the log, or is \<open>-1\<close>, as long as the length of the
  log fits an \<open>int\<close>: the loop of \<open>processSyncCall\<close> never reads outside the log.
\<close>

theorem last_inserted_in_log:
  assumes "start_ok cs i f" and "server_run (started cs i name f v) s"
    and "int (length (log s)) \<le> 2147483647"
  shows "- 1 \<le> last_inserted s \<and> last_inserted s < int (length (log s))"
  using reachable_ok [OF assms(1,2)] assms(3)
  by (simp add: server_ok_def data_ok_def index_ok_def)

theorem last_inserted_in_log_witness:
  "- 1 \<le> last_inserted demo_server \<and> last_inserted demo_server < int (length (log demo_server))"
  using last_inserted_in_log [OF demo_start_ok server_run.stay, of "''S1''" plain_boot]
  by (simp add: demo_server_def [symmetric])

text \<open>
  The control state of the proposer is coherent in every reachable state: it never awaits
  two decisions at once, it awaits one only while a transaction runs, and no transaction
  number is kept when none runs.
\<close>

theorem proposer_phases_exclusive:
  assumes "start_ok cs i f" and "server_run (started cs i name f v) s"
  shows "\<not> (await_prepare_decision s \<and> await_accept_decision s)
    \<and> (await_prepare_decision s \<or> await_accept_decision s \<longrightarrow> is_paxos_running s)
    \<and> (\<not> is_paxos_running s \<longrightarrow> paxos_tid s = - 1)"
  using reachable_ok [OF assms] by (auto simp: server_ok_def control_ok_def phase_ok_def)

text \<open>A first step of the deployment: a transfer request starts a round.\<close>

definition demo_req :: TransferReq where
  "demo_req = \<lparr>req_txn = \<lparr>sender = 1, receiver = 2, amount = 4\<rparr>, req_tid = 77\<rparr>"

definition demo_round :: ServerImpl where
  "demo_round = runPaxos_state demo_req no_TransferRes False demo_server"

lemma demo_req_ok [simp]: "req_ok demo_req"
  by (simp add: demo_req_def req_ok_def txn_ok_def int32_def int64_def)

lemma demo_round_run: "server_run (started demo_constants 1 ''S1'' demo_file plain_boot) demo_round"
  unfolding demo_round_def demo_server_def
  by (rule server_run.step [OF server_run.stay server_step.transfer]) simp

theorem proposer_phases_exclusive_witness:
  "\<not> (await_prepare_decision demo_round \<and> await_accept_decision demo_round)"
  using proposer_phases_exclusive [OF demo_start_ok demo_round_run] by simp

section \<open>The coordinator's decision\<close>

definition moved :: "Transaction \<Rightarrow> int \<Rightarrow> int \<Rightarrow> int" where
  "moved x c b =
     (if c = sender x then i32 (b - amount x) else if c = receiver x then i32 (b + amount x) else b)"

lemma decision_effect:
  assumes "core_ok base s" and "\<not> i_am_disconnected s" and "pending (wal s) t = Some e"
    and "sender (e_txn e) \<noteq> receiver (e_txn e)"
  shows "log (processTpcDecision u t ic s) = log s @ [decided ic e]"
    and "pending (wal (processTpcDecision u t ic s)) = (pending (wal s))(t := None)"
    and "locks (processTpcDecision u t ic s) =
      locks s - {c \<in> {sender (e_txn e), receiver (e_txn e)}. isClientInCluster s c}"
    and "idx (balances (processTpcDecision u t ic s)) c =
      (if ic \<and> isClientInCluster s c then moved (e_txn e) c (idx (balances s) c)
       else idx (balances s) c)"
proof -
  have wal: "wal_ok (wal s)" using assms(1) by (simp add: core_ok_def)
  note eq = processTpcDecision_pending [OF assms(1-3), of u ic]
  show "log (processTpcDecision u t ic s) = log s @ [decided ic e]" by (simp add: eq)
  show "pending (wal (processTpcDecision u t ic s)) = (pending (wal s))(t := None)"
    using wal_log.pend_fin [OF wal] by (simp add: eq)
  show "locks (processTpcDecision u t ic s) =
      locks s - {c \<in> {sender (e_txn e), receiver (e_txn e)}. isClientInCluster s c}"
    by (auto simp: eq)
  show "idx (balances (processTpcDecision u t ic s)) c =
      (if ic \<and> isClientInCluster s c then moved (e_txn e) c (idx (balances s) c)
       else idx (balances s) c)"
    using assms(4) by (auto simp: eq settle_balances moved_def)
qed

text \<open>
  A decision about a prepared transaction takes effect exactly as prepared: the entry
  logged is the prepared one with the decided status, the transaction is no longer pending,
  the clients of this cluster are unlocked, and on a commit the balance of the sender drops
  and that of the receiver grows by the amount (for the clients of this cluster; on an abort
  no balance changes).
\<close>

theorem decision_settles_prepared:
  assumes "start_ok cs i f" and "server_run (started cs i name f v) s"
    and "\<not> i_am_disconnected s" and "pending (wal s) t = Some e"
    and "sender (e_txn e) \<noteq> receiver (e_txn e)"
  shows "log (processTpcDecision u t ic s) = log s @ [decided ic e]
    \<and> pending (wal (processTpcDecision u t ic s)) = (pending (wal s))(t := None)
    \<and> locks (processTpcDecision u t ic s) =
        locks s - {c \<in> {sender (e_txn e), receiver (e_txn e)}. isClientInCluster s c}
    \<and> (\<forall>c. idx (balances (processTpcDecision u t ic s)) c =
        (if ic \<and> isClientInCluster s c then moved (e_txn e) c (idx (balances s) c)
         else idx (balances s) c))"
proof -
  have "core_ok (initial_balance cs (getClusterIdFromServerId cs i)) s"
    using reachable_ok [OF assms(1,2)] by (simp add: server_ok_def data_ok_def)
  then show ?thesis using decision_effect [OF _ assms(3-5)] by simp
qed

text \<open>A replica of the deployment that has accepted a cross-shard transfer.\<close>

definition demo_cross :: TransferReq where
  "demo_cross = \<lparr>req_txn = \<lparr>sender = 1, receiver = 1500, amount = 10\<rparr>, req_tid = 42\<rparr>"

definition demo_ballot :: Ballot where
  "demo_ballot = \<lparr>bal_num = 1, bal_server_id = 2\<rparr>"

definition demo_promised :: ServerImpl where
  "demo_promised = fst (processPrepareCall
     \<lparr>pq_ballot = demo_ballot, pq_last_inserted = - 1\<rparr> no_PrepareRes demo_server)"

definition demo_accepted :: ServerImpl where
  "demo_accepted = fst (processAcceptCall
     \<lparr>aq_ballot = demo_ballot, aq_r = demo_cross\<rparr> no_AcceptRes demo_promised)"

lemma demo_ballot_num [simp]: "bal_num demo_ballot = 1" "bal_server_id demo_ballot = 2"
  by (simp_all add: demo_ballot_def)

lemma demo_cross_ok [simp]: "req_ok demo_cross" "bal_ok demo_ballot"
  by (simp_all add: demo_cross_def demo_ballot_def req_ok_def bal_ok_def txn_ok_def int32_def int64_def)

lemma demo_accepted_run: "server_run (started demo_constants 1 ''S1'' demo_file plain_boot) demo_accepted"
proof -
  have "server_run (started demo_constants 1 ''S1'' demo_file plain_boot) demo_promised"
    unfolding demo_promised_def demo_server_def
    by (rule server_run.step [OF server_run.stay server_step.prepare]) simp
  then show ?thesis
    unfolding demo_accepted_def
    by (rule server_run.step [OF _ server_step.accept]) simp_all
qed

lemma demo_promised_eq:
  "demo_promised = demo_server\<lparr>promised := True, promised_num := demo_ballot, ballot_num := 1\<rparr>"
  by (simp add: demo_promised_def processPrepareCall_def demo_ballot_def Let_def)

lemma demo_cross_members:
  "getClusterIdFromClientId demo_constants 1 = 1" "getClusterIdFromClientId demo_constants 2 = 1"
  "getClusterIdFromClientId demo_constants 1500 = 2"
  by (simp_all add: client_cluster_iff int32_def)

lemma demo_accepted_eq:
  "demo_accepted = prepareTransaction demo_cross demo_ballot
     (demo_server\<lparr>promised := True, promised_num := demo_ballot, ballot_num := 1, accepted := True,
        accept_num := demo_ballot, accept_val := demo_cross, locks := {1}\<rparr>)"
  by (simp add: demo_accepted_def demo_promised_eq processAcceptCall_def lock_own_def
    in_cluster_count_def isClientInCluster_def demo_cross_members demo_cross_def Let_def)

lemma demo_accepted_pending:
  "pending (wal demo_accepted) = [42 \<mapsto> req_entry demo_cross demo_ballot CROSS PREPARED]"
proof -
  have "wal_ok (WAL_init demo_file)" by (simp add: wal_ok_def WAL_init_def demo_file_def)
  moreover have "pending (WAL_init demo_file) = Map.empty"
    by (simp add: pending_def WAL_init_def fun_eq_iff)
  moreover have "req_tid demo_cross = 42" by (simp add: demo_cross_def)
  ultimately show ?thesis
    using wal_prepare_pending(1) [of "WAL_init demo_file" demo_cross demo_ballot]
    by (simp add: demo_accepted_eq)
qed

theorem decision_settles_prepared_witness:
  "idx (balances (processTpcDecision no_entry 42 True demo_accepted)) 1 = 0
   \<and> locks (processTpcDecision no_entry 42 True demo_accepted) = {}"
proof -
  have "i_am_disconnected demo_accepted = False"
    by (simp add: demo_accepted_eq prepareTransaction_def push_log_def Let_def split: prod.split)
  moreover have "balances demo_accepted = balances demo_server" "locks demo_accepted = {1}"
    "isClientInCluster demo_accepted 1"
    by (simp_all add: demo_accepted_eq isClientInCluster_def demo_cross_members)
  ultimately show ?thesis
    using decision_settles_prepared [OF demo_start_ok demo_accepted_run, where t = 42 and u = no_entry
        and ic = True and e = "req_entry demo_cross demo_ballot CROSS PREPARED"]
    by (auto simp: demo_accepted_pending req_entry_def demo_cross_def moved_def i32_id int32_def)
qed

text \<open>
  A decision about a transaction that is not pending here (never prepared, or already
  decided) changes nothing, whatever it decides: decisions are idempotent.
\<close>

theorem decision_unknown_ignored:
  assumes "start_ok cs i f" and "server_run (started cs i name f v) s" and "pending (wal s) t = None"
  shows "processTpcDecision u t ic s = s"
proof -
  have "core_ok (initial_balance cs (getClusterIdFromServerId cs i)) s"
    using reachable_ok [OF assms(1,2)] by (simp add: server_ok_def data_ok_def)
  then show ?thesis using assms(3) by (rule processTpcDecision_unknown)
qed

theorem decision_unknown_ignored_witness:
  "processTpcDecision no_entry 43 True demo_accepted = demo_accepted"
  using decision_unknown_ignored [OF demo_start_ok demo_accepted_run, of 43 no_entry True]
  by (simp add: demo_accepted_pending)

section \<open>The proposer\<close>

text \<open>
  C14. Accept requests leave a server only when its prepare phase has a majority, neither
  client of this cluster is locked and the sender's balance covers the amount; then both are
  locked, the ballot is the promised one, a cross-shard transaction is prepared in the log,
  and one request goes to every peer.
\<close>

theorem propose_only_when_allowed:
  assumes "runPaxos r res x s = (fin, s', res', msgs)" and "SendAccept p q \<in> set msgs"
  shows "await_prepare_decision s \<and> MAJORITY \<le> prepare_successes s
    \<and> (isClientInCluster s (sender (req_txn r)) \<longrightarrow>
         sender (req_txn r) \<notin> locks s \<and> amount (req_txn r) \<le> idx (balances s) (sender (req_txn r)))
    \<and> (isClientInCluster s (receiver (req_txn r)) \<longrightarrow> receiver (req_txn r) \<notin> locks s)
    \<and> {c \<in> {sender (req_txn r), receiver (req_txn r)}. isClientInCluster s c} \<subseteq> locks s'
    \<and> q = \<lparr>aq_ballot = promised_num s, aq_r = r\<rparr> \<and> p \<in> set (stubs s)
    \<and> log s' = log s @ (if x then [req_entry r (promised_num s) CROSS PREPARED] else [])
    \<and> \<not> fin \<and> await_accept_decision s'"
  using assms(1)
proof (cases rule: runPaxos_cases)
  case start
  then show ?thesis using assms(2) by (auto simp: start_round_def Let_def)
next
  case proposed
  have "same_data (if x then prepareTransaction r (promised_num s) (checked r s) else checked r s) s'"
    using propose_data [of x r "checked r s"] proposed(5) by (auto split: if_splits)
  moreover have "log (checked r s) = log s" using checked_same_data [of s r] by (simp add: same_data_def)
  ultimately have "log s' = log s @ (if x then [req_entry r (promised_num s) CROSS PREPARED] else [])"
    by (auto simp: same_data_def split: if_splits)
  moreover have "isClientInCluster (checked r s) = isClientInCluster s"
    by (rule isClientInCluster_cong) (use checked_same_data [of s r] in \<open>simp_all add: same_data_def\<close>)
  then have "locks s' = insert (receiver (req_txn r))
      (locks s \<union> {c \<in> {sender (req_txn r)}. isClientInCluster s c})"
    using propose_effect(1) [of r x "checked r s"] proposed(5) by (simp add: take_locks_locks)
  moreover have "await_accept_decision s'"
    "msgs = map (\<lambda>i. SendAccept i \<lparr>aq_ballot = promised_num s, aq_r = r\<rparr>) (stubs s)"
    using propose_effect(2,3) [of r x "checked r s"] proposed(5) by simp_all
  moreover have "\<not> locked s (req_txn r)" using proposed(4) by (simp add: conditions_fail_def)
  ultimately show ?thesis
    using proposed(1-4) assms(2) by (auto simp: conditions_fail_def locked_def)
next
  case concluded
  then show ?thesis using assms(2) by (auto simp: conclude_def Let_def)
qed (use assms(2) in auto)

text \<open>The round of the transfer, once a second replica has promised.\<close>

definition demo_ready :: ServerImpl where
  "demo_ready = demo_server\<lparr>await_prepare_decision := True, is_paxos_running := True, paxos_tid := 77,
     prepare_successes := 2, stubs := [2, 3], promised_num := demo_ballot\<rparr>"

lemma demo_ready_free [simp]:
  "free_for demo_req demo_ready" "await_prepare_decision demo_ready" "prepare_successes demo_ready = 2"
  "locks demo_ready = {}" "stubs demo_ready = [2, 3]" "promised_num demo_ready = demo_ballot"
  "balances demo_ready = balances demo_server" "log demo_ready = []"
  "isClientInCluster demo_ready = isClientInCluster demo_server"
  by (simp_all add: demo_ready_def free_for_def demo_req_def isClientInCluster_def fun_eq_iff)

lemma demo_ready_conditions [simp]: "\<not> conditions_fail demo_ready (req_txn demo_req)"
  by (simp add: conditions_fail_def locked_def demo_req_def)

lemma demo_ready_run:
  "runPaxos demo_req no_TransferRes x demo_ready =
     (False, fst (propose demo_req x (checked demo_req demo_ready)),
      no_TransferRes\<lparr>res_tid := 77\<rparr>,
      map (\<lambda>i. SendAccept i \<lparr>aq_ballot = demo_ballot, aq_r = demo_req\<rparr>) [2, 3])"
  using propose_effect(3) [of demo_req x "checked demo_req demo_ready"]
  by (simp add: runPaxos_awaiting_prepare MAJORITY_def) (simp add: demo_req_def)

theorem propose_only_when_allowed_witness:
  "1 \<in> locks (runPaxos_state demo_req no_TransferRes False demo_ready)
   \<and> MAJORITY \<le> prepare_successes demo_ready"
proof -
  have "{c \<in> {sender (req_txn demo_req), receiver (req_txn demo_req)}. isClientInCluster demo_ready c}
      \<subseteq> locks (runPaxos_state demo_req no_TransferRes False demo_ready)"
    using propose_only_when_allowed [OF demo_ready_run,
      of 2 "\<lparr>aq_ballot = demo_ballot, aq_r = demo_req\<rparr>" False]
    by (simp add: demo_ready_run)
  moreover have "1 \<in> {c \<in> {sender (req_txn demo_req), receiver (req_txn demo_req)}.
      isClientInCluster demo_ready c}"
    by (simp add: demo_req_def i32_id int32_def)
  ultimately show ?thesis by (auto simp: MAJORITY_def)
qed

text \<open>
  C15. A positive answer to a client is given only after a majority of accepts. An
  intra-shard transfer is then committed in full: the entry is logged, both locks are
  released and the amount has moved from sender to receiver; a cross-shard transaction is
  left prepared, with its locks. Commit requests for the accepted ballot go to every peer.
\<close>

theorem ack_only_after_accept_majority:
  assumes "runPaxos r res x s = (True, s', res', msgs)" and "res_ack res'"
    and "writable (walFile (wal s))" and "sender (req_txn r) \<noteq> receiver (req_txn r)"
  shows "await_accept_decision s \<and> MAJORITY \<le> accept_successes s \<and> \<not> is_paxos_running s'
    \<and> msgs = map (\<lambda>i. SendCommit i \<lparr>cq_ballot = accept_num s\<rparr>) (stubs s)
    \<and> log s' = (if x then log s else log s @ [req_entry r (accept_num s) INTRA COMMITTED])
    \<and> locks s' = (if x then locks s else locks s - {sender (req_txn r), receiver (req_txn r)})
    \<and> (\<forall>c. idx (balances s') c =
          (if x then idx (balances s) c else moved (req_txn r) c (idx (balances s) c)))"
  using assms(1)
proof (cases rule: runPaxos_cases)
  case concluded
  have "same_data (if x then s else commitTransaction r (accept_num s) s) s'"
    using conclude_data [OF assms(3), of x r] concluded(5) by (auto split: if_splits)
  then have "log s' = (if x then log s else log s @ [req_entry r (accept_num s) INTRA COMMITTED])"
    "idx (balances s') = (if x then idx (balances s) else idx (balances (commitTransaction r (accept_num s) s)))"
    using commitTransaction_data(1) [OF assms(3)] by (auto simp: same_data_def split: if_splits)
  moreover have "idx (balances (commitTransaction r (accept_num s) s)) c
      = moved (req_txn r) c (idx (balances s) c)" for c
    using assms(4) by (simp add: commitTransaction_data(2) [OF assms(3)] moved_def)
  ultimately show ?thesis
    using concluded conclude_effect [of r x s] by auto
qed (use assms(2) in auto)

definition demo_majority :: ServerImpl where
  "demo_majority = demo_server\<lparr>await_accept_decision := True, is_paxos_running := True, paxos_tid := 77,
     accept_successes := 2, accept_num := demo_ballot, locks := {1, 2}, stubs := [2, 3]\<rparr>"

lemma demo_majority_run:
  "runPaxos demo_req no_TransferRes x demo_majority =
     (True, fst (conclude demo_req x demo_majority),
      no_TransferRes\<lparr>res_tid := 77, res_ack := True\<rparr>, snd (conclude demo_req x demo_majority))"
proof -
  have "free_for demo_req demo_majority" by (simp add: free_for_def demo_majority_def demo_req_def)
  then show ?thesis
    by (simp add: runPaxos_awaiting_accept demo_majority_def MAJORITY_def) (simp add: demo_req_def)
qed

theorem ack_only_after_accept_majority_witness:
  "locks (runPaxos_state demo_req no_TransferRes False demo_majority) = {}
   \<and> idx (balances (runPaxos_state demo_req no_TransferRes False demo_majority)) 2 = 14"
proof -
  have "writable (walFile (wal demo_majority))"
    by (simp add: demo_majority_def WAL_init_def demo_file_def)
  moreover have "sender (req_txn demo_req) = 1" "receiver (req_txn demo_req) = 2"
    "amount (req_txn demo_req) = 4" "balances demo_majority = balances demo_server"
    "locks demo_majority = {1, 2}"
    by (simp_all add: demo_req_def demo_majority_def)
  ultimately show ?thesis
    using ack_only_after_accept_majority [OF demo_majority_run, of False]
    by (simp add: demo_majority_run moved_def)
qed

text \<open>
  A negative answer never changes the log, the files or a balance; only after a refused
  intra-shard accept phase are the two locks given back.
\<close>

theorem nack_changes_no_data:
  assumes "runPaxos r res x s = (True, s', res', msgs)" and "\<not> res_ack res'"
  shows "log s' = log s \<and> wal s' = wal s \<and> db s' = db s \<and> idx (balances s') = idx (balances s)
    \<and> \<not> is_paxos_running s' \<and> msgs = []
    \<and> locks s' = (if await_accept_decision s \<and> \<not> await_prepare_decision s \<and> \<not> x
        then locks s - {sender (req_txn r), receiver (req_txn r)} else locks s)"
  using assms(1)
proof (cases rule: runPaxos_cases)
  case reject
  have "same_data s s'" unfolding reject(5) by (intro stopped_same_data checked_same_data)
  then show ?thesis using reject by (simp add: same_data_def stopped_def)
qed (use assms(2) in \<open>auto simp: stopped_def released_def\<close>)

definition demo_poor :: TransferReq where
  "demo_poor = \<lparr>req_txn = \<lparr>sender = 1, receiver = 2, amount = 11\<rparr>, req_tid = 77\<rparr>"

theorem nack_changes_no_data_witness:
  "log (runPaxos_state demo_poor no_TransferRes False demo_ready) = []
   \<and> locks (runPaxos_state demo_poor no_TransferRes False demo_ready) = {}"
proof -
  have "conditions_fail demo_ready (req_txn demo_poor)"
    by (simp add: conditions_fail_def locked_def demo_poor_def i32_id int32_def)
  moreover have "free_for demo_poor demo_ready" by (simp add: free_for_def demo_ready_def demo_poor_def)
  ultimately have run: "runPaxos demo_poor no_TransferRes False demo_ready =
      (True, stopped (checked demo_poor demo_ready), no_TransferRes\<lparr>res_tid := 77, res_ack := False\<rparr>, [])"
    by (simp add: runPaxos_awaiting_prepare MAJORITY_def) (simp add: demo_poor_def)
  show ?thesis using nack_changes_no_data [OF run] by (simp add: run)
qed

end
