(* ===== verification/Tpc_Events.thy ===== *)
theory Tpc_Events
  imports Tpc_Server_Props
begin

text \<open>
  What can happen to a server, as a value: one event per handler with its request or reply. A
  property that holds under some events only names the ones it allows. \<open>server_step\<close> is the
  happening of any event whose messages fit their types.
\<close>

section \<open>Events\<close>

datatype handler_event =
  Attempt TransferReq TransferRes bool
| Decide WALEntry TpcTid bool
| GetPrepare PrepareReq PrepareRes
| GetAccept AcceptReq AcceptRes
| GetCommit CommitReq
| PrepareBack Status PrepareReq PrepareRes
| AcceptBack Status AcceptReq AcceptRes
| SyncBack Status SyncRes
| GetBalance BalanceReq
| GetDisconnect DisconnectReq

fun handle :: "handler_event \<Rightarrow> ServerImpl \<Rightarrow> ServerImpl" where
  "handle (Attempt r res x) s = runPaxos_state r res x s"
| "handle (Decide u t ic) s = processTpcDecision u t ic s"
| "handle (GetPrepare q res) s = fst (processPrepareCall q res s)"
| "handle (GetAccept q res) s = fst (processAcceptCall q res s)"
| "handle (GetCommit q) s = processCommitCall q s"
| "handle (PrepareBack st q res) s = fst (handlePrepareReply st q res s)"
| "handle (AcceptBack st q res) s = handleAcceptReply st q res s"
| "handle (SyncBack st res) s = handleSyncReply st res s"
| "handle (GetBalance c) s = fst (processGetBalanceCall c s)"
| "handle (GetDisconnect names) s = processDisconnectCall names s"

fun event_typed :: "handler_event \<Rightarrow> bool" where
  "event_typed (Attempt r res x) = req_ok r"
| "event_typed (GetPrepare q res) = bal_ok (pq_ballot q)"
| "event_typed (GetAccept q res) = (bal_ok (aq_ballot q) \<and> req_ok (aq_r q))"
| "event_typed (SyncBack st res) = list_all log_entry_ok (sr_logs res)"
| "event_typed _ = True"

lemma server_step_event: "server_step s t \<longleftrightarrow> (\<exists>e. event_typed e \<and> t = handle e s)"
proof
  show "\<exists>e. event_typed e \<and> t = handle e s" if "server_step s t"
    using that by cases (metis event_typed.simps handle.simps)+
next
  assume "\<exists>e. event_typed e \<and> t = handle e s"
  then obtain e where "event_typed e" "t = handle e s" by blast
  then show "server_step s t" by (cases e) (auto intro: server_step.intros)
qed

text \<open>Runs of allowed events, and the rule for their invariants.\<close>

inductive events :: "(handler_event \<Rightarrow> ServerImpl \<Rightarrow> bool) \<Rightarrow> ServerImpl \<Rightarrow> ServerImpl \<Rightarrow> bool" for P where
  none: "events P s s"
| happens: "events P s t \<Longrightarrow> P e t \<Longrightarrow> events P s (handle e t)"

lemma events_invariant:
  assumes "events P s t" and "I s" and "\<And>e u. P e u \<Longrightarrow> I u \<Longrightarrow> I (handle e u)"
  shows "I t"
  using assms by (induction rule: events.induct) auto

end
