(* ===== verification/Tpc_Paxos.thy ===== *)
theory Tpc_Paxos
  imports Tpc_Events
begin

text \<open>
  The replica side of Paxos and the agreement inside a cluster: promises, accepts and commits,
  that a replica ends with the data its leader has, how a replica that lags behind catches
  up, and the quorums.
\<close>

section \<open>Promises\<close>

lemma prepare_response:
  "pr_ack (fst (snd (processPrepareCall q res s))) \<longleftrightarrow>
     \<not> i_am_disconnected s \<and> ballot_num s < bal_num (pq_ballot q)
     \<and> pq_last_inserted q = last_inserted s"
  by (auto simp: processPrepareCall_def Let_def)

text \<open>
  The events that cannot make a server forget a promise: all but a synchronisation, as long as an
  attempt to start a round does not overflow the ballot number. A reply to a prepare request
  reports a ballot number only if it is at least that of the request, as \<open>processPrepareCall\<close> does.
\<close>

definition prepare_res_ok :: "PrepareRes \<Rightarrow> bool" where
  "prepare_res_ok res \<longleftrightarrow> (\<forall>n. pr_latest_ballot_num res = Some n \<longrightarrow> bal_num (pr_ballot res) \<le> n)"

lemma prepare_reply_honest: "prepare_res_ok (fst (snd (processPrepareCall q no_PrepareRes s)))"
  by (auto simp: prepare_res_ok_def processPrepareCall_def no_PrepareRes_def Let_def)

fun keeps_promise :: "handler_event \<Rightarrow> ServerImpl \<Rightarrow> bool" where
  "keeps_promise (Attempt r res x) s = (int32 (ballot_num s) \<and> ballot_num s < 2147483647)"
| "keeps_promise (PrepareBack st q res) s = prepare_res_ok res"
| "keeps_promise (SyncBack st res) s = False"
| "keeps_promise _ s = True"

lemma settle_ballot [simp]: "ballot_num (settle ic c d s) = ballot_num s"
  by (simp add: settle_def balance_add_def updateBalance_def Let_def)

lemma processTpcDecision_ballot [simp]: "ballot_num (processTpcDecision u t ic s) = ballot_num s"
  by (simp add: processTpcDecision_wal_fin push_log_def Let_def split: prod.split)

lemma propose_ballot [simp]: "ballot_num (fst (propose r x s)) = ballot_num s"
  by (simp add: propose_def Let_def)

lemma conclude_ballot [simp]: "ballot_num (fst (conclude r x s)) = ballot_num s"
  by (simp add: conclude_def Let_def)

text \<open>
  The ballot number is at least \<open>n\<close>, and a server that awaits promises has promised its own
  ballot, which is the highest it knows.
\<close>

definition knows_ballot :: "int \<Rightarrow> ServerImpl \<Rightarrow> bool" where
  "knows_ballot n s \<longleftrightarrow> n \<le> ballot_num s
     \<and> (await_prepare_decision s \<longrightarrow> bal_num (promised_num s) = ballot_num s)"

lemma runPaxos_knows:
  assumes "keeps_promise (Attempt r res x) s" and "knows_ballot n s"
  shows "knows_ballot n (runPaxos_state r res x s)"
proof -
  obtain fin s' res' msgs where eq: "runPaxos r res x s = (fin, s', res', msgs)" by (metis prod_cases4)
  have "i32 (ballot_num s + 1) = ballot_num s + 1"
    using assms(1) by (intro i32_id) (auto simp: int32_def)
  then have start: "knows_ballot n (fst (start_round t s))" for t
    using assms(2) by (simp add: start_round_def knows_ballot_def Let_def)
  from eq have "knows_ballot n s'"
  proof (cases rule: runPaxos_cases)
    case start
    then show ?thesis using \<open>\<And>t. knows_ballot n (fst (start_round t s))\<close> [of "req_tid r"] by simp
  next
    case proposed
    then have "s' = fst (propose r x (checked r s))" by simp
    then show ?thesis using assms(2) by (simp add: knows_ballot_def) (simp add: propose_def checked_def Let_def)
  next
    case concluded
    then have "s' = fst (conclude r x s)" by simp
    then show ?thesis using assms(2) by (simp add: knows_ballot_def) (simp add: conclude_def Let_def)
  qed (use assms(2) in \<open>auto simp: knows_ballot_def stopped_def released_def checked_def\<close>)
  with eq show ?thesis by simp
qed

lemma event_knows:
  assumes "keeps_promise e s" and "knows_ballot n s"
  shows "knows_ballot n (handle e s)"
proof (cases e)
  case (Attempt r res x)
  then show ?thesis using runPaxos_knows assms by simp
next
  case (Decide u t ic)
  then show ?thesis
    using assms(2) processTpcDecision_same [of s u t ic] by (simp add: knows_ballot_def same_control_def)
next
  case (GetPrepare q res)
  then show ?thesis using assms(2) by (auto simp: knows_ballot_def processPrepareCall_def Let_def)
next
  case (GetAccept q res)
  then show ?thesis
    using assms(2) by (auto simp: knows_ballot_def processAcceptCall_def lock_own_def Let_def)
next
  case (GetCommit q)
  then show ?thesis
    using assms(2) by (auto simp: knows_ballot_def processCommitCall_def unlock_own_def Let_def)
next
  case (PrepareBack st q res)
  then show ?thesis
    using assms by (auto simp: knows_ballot_def prepare_res_ok_def handlePrepareReply_def Let_def split: option.split)
next
  case (AcceptBack st q res)
  then show ?thesis using assms(2) by (auto simp: knows_ballot_def handleAcceptReply_def)
next
  case (GetBalance c)
  then show ?thesis using assms(2) by (simp add: knows_ballot_def processGetBalanceCall_def)
next
  case (GetDisconnect names)
  have "ballot_num (fold mark_disconnected ns v) = ballot_num v" for ns v
    by (induction ns arbitrary: v)
      (simp_all add: mark_disconnected_def lookup_server_def Let_def split: option.split)
  then have "ballot_num (processDisconnectCall names s) = ballot_num s"
    by (simp add: processDisconnectCall_def resetDisconnectedState_def)
  then show ?thesis
    using GetDisconnect assms(2) processDisconnectCall_control [of s names]
    by (simp add: knows_ballot_def same_control_def)
qed (use assms in simp_all)

text \<open>
  C20. A replica promises each ballot number at most once between two synchronisations: after a
  promise for a ballot, and any number of other events, whichever handlers they concern and in
  whatever order, every prepare request with the same or a lower number is turned down. The
  events leave out the reply to a synchronisation request, attempts at a round when the ballot
  number is the greatest \<open>int\<close>, and prepare replies that no \<open>processPrepareCall\<close> gives.
\<close>

theorem promise_not_repeated:
  assumes "pr_ack (fst (snd (processPrepareCall q res s)))"
    and "events keeps_promise (fst (processPrepareCall q res s)) t"
    and "bal_num (pq_ballot q') \<le> bal_num (pq_ballot q)"
  shows "\<not> pr_ack (fst (snd (processPrepareCall q' res' t)))"
proof -
  have "knows_ballot (bal_num (pq_ballot q)) (fst (processPrepareCall q res s))"
    using assms(1) by (auto simp: knows_ballot_def processPrepareCall_def Let_def split: if_splits)
  from events_invariant [OF assms(2), of "knows_ballot (bal_num (pq_ballot q))", OF this event_knows]
  have "bal_num (pq_ballot q) \<le> ballot_num t" by (simp add: knows_ballot_def)
  then show ?thesis using assms(3) by (simp add: prepare_response)
qed

theorem promise_not_repeated_witness:
  "\<not> pr_ack (fst (snd (processPrepareCall
      \<lparr>pq_ballot = \<lparr>bal_num = 1, bal_server_id = 3\<rparr>, pq_last_inserted = 0\<rparr> no_PrepareRes
      (processDisconnectCall [] (processTpcDecision no_entry 42 True demo_accepted)))))"
proof -
  have "events keeps_promise demo_promised (handle (GetDisconnect []) (handle (Decide no_entry 42 True) demo_accepted))"
    unfolding demo_accepted_def handle.simps(4) [symmetric]
    by (intro events.happens events.none) simp_all
  then show ?thesis
    using promise_not_repeated [of "\<lparr>pq_ballot = demo_ballot, pq_last_inserted = - 1\<rparr>" no_PrepareRes demo_server
        _ "\<lparr>pq_ballot = \<lparr>bal_num = 1, bal_server_id = 3\<rparr>, pq_last_inserted = 0\<rparr>" no_PrepareRes]
    by (simp add: demo_promised_def [symmetric] prepare_response)
qed

text \<open>
  A synchronisation can lower the ballot number, so the promise is forgotten: a replica
  that has promised ballot 7 and then copies the log of a peer, whose last entry was inserted
  under ballot 1, promises ballot 3 again.
\<close>

theorem sync_forgets_promise:
  "\<exists>s q q' peer. pr_ack (fst (snd (processPrepareCall q no_PrepareRes s)))
     \<and> bal_num (pq_ballot q') < bal_num (pq_ballot q)
     \<and> pr_ack (fst (snd (processPrepareCall q' no_PrepareRes
           (handleSyncReply StatusOK (processSyncCall (last_inserted s) no_SyncRes peer)
             (fst (processPrepareCall q no_PrepareRes s))))))"
proof (intro exI conjI)
  let ?q = "\<lparr>pq_ballot = \<lparr>bal_num = 7, bal_server_id = 2\<rparr>, pq_last_inserted = - 1\<rparr>"
  let ?q' = "\<lparr>pq_ballot = \<lparr>bal_num = 3, bal_server_id = 3\<rparr>, pq_last_inserted = 0\<rparr>"
  let ?s = "fst (processPrepareCall ?q no_PrepareRes demo_server)"
  show "pr_ack (fst (snd (processPrepareCall ?q no_PrepareRes demo_server)))"
    by (simp add: prepare_response)
  show "bal_num (pq_ballot ?q') < bal_num (pq_ballot ?q)" by simp
  have peer: "log demo_accepted = [req_entry demo_cross demo_ballot CROSS PREPARED]"
    "last_inserted demo_accepted = 0" "last_inserted_ballot demo_accepted = demo_ballot"
    by (simp_all add: demo_accepted_eq)
      (simp add: prepareTransaction_def push_log_def Let_def split: prod.split)
  have "last_inserted ?s = - 1" "i_am_disconnected ?s = False"
    by (simp_all add: processPrepareCall_def Let_def)
  then show "pr_ack (fst (snd (processPrepareCall ?q' no_PrepareRes
      (handleSyncReply StatusOK (processSyncCall (last_inserted demo_server) no_SyncRes demo_accepted)
        ?s))))"
    by (simp add: prepare_response handleSyncReply_def processSyncCall_def peer no_SyncRes_def
      sync_entry_def sync_credit_def push_log_def balance_add_def updateBalance_def Let_def)
qed

section \<open>Accepting and committing\<close>

definition accept_of :: "Ballot \<Rightarrow> TransferReq \<Rightarrow> AcceptReq" where
  "accept_of b r = \<lparr>aq_ballot = b, aq_r = r\<rparr>"

definition commit_of :: "Ballot \<Rightarrow> CommitReq" where
  "commit_of b = \<lparr>cq_ballot = b\<rparr>"

definition can_accept :: "Ballot \<Rightarrow> ServerImpl \<Rightarrow> bool" where
  "can_accept b s \<longleftrightarrow> \<not> i_am_disconnected s \<and> promised s \<and> bal_num b = bal_num (promised_num s)"

definition replica_round :: "Ballot \<Rightarrow> TransferReq \<Rightarrow> ServerImpl \<Rightarrow> ServerImpl" where
  "replica_round b r s = processCommitCall (commit_of b) (fst (processAcceptCall (accept_of b r) no_AcceptRes s))"

definition leader_round :: "TransferReq \<Rightarrow> bool \<Rightarrow> ServerImpl \<Rightarrow> ServerImpl" where
  "leader_round r x s = fst (conclude r x (fst (propose r x (checked r s))))"

definition accept_state :: "Ballot \<Rightarrow> TransferReq \<Rightarrow> ServerImpl \<Rightarrow> ServerImpl" where
  "accept_state b r s = lock_own (req_txn r) (s\<lparr>accepted := True, accept_num := b, accept_val := r\<rparr>)"

lemma accept_state_simps [simp]:
  "same_data s (accept_state b r s)" "accept_val (accept_state b r s) = r"
  "accept_num (accept_state b r s) = b" "promised_num (accept_state b r s) = promised_num s"
  "i_am_disconnected (accept_state b r s) = i_am_disconnected s" "wal (accept_state b r s) = wal s"
  "log (accept_state b r s) = log s" "balances (accept_state b r s) = balances s"
  "isClientInCluster (accept_state b r s) = isClientInCluster s"
  "locks (accept_state b r s) =
     locks s \<union> {c \<in> {sender (req_txn r), receiver (req_txn r)}. isClientInCluster s c}"
  by (auto simp: accept_state_def lock_own_def isClientInCluster_def fun_eq_iff same_data_def Let_def)

lemma accepted_state:
  assumes "can_accept b s"
  shows "processAcceptCall (accept_of b r) res s =
      (if in_cluster_count s (req_txn r) = 1
       then prepareTransaction r b (accept_state b r s) else accept_state b r s,
       res\<lparr>ar_ack := True, ar_ballot := b\<rparr>)"
proof -
  have "in_cluster_count (accept_state b r s) = in_cluster_count s"
    by (intro ext in_cluster_count_cong) simp
  then show ?thesis
    using assms accept_state_simps(2,3) [of b r s]
    by (simp add: processAcceptCall_def can_accept_def accept_of_def accept_state_def Let_def)
qed

text \<open>
  C19. A replica accepts a value exactly when it is connected and has an open promise for a
  ballot with that number. It then remembers ballot and value, and holds the locks of the
  clients of its cluster; a transaction with exactly one client here is prepared in the log,
  one with two is not logged yet. A refused accept changes nothing.
\<close>

theorem accept_call_contract:
  "if can_accept (aq_ballot q) s
   then ar_ack (snd (processAcceptCall q res s))
     \<and> accept_val (fst (processAcceptCall q res s)) = aq_r q
     \<and> accept_num (fst (processAcceptCall q res s)) = aq_ballot q
     \<and> locks (fst (processAcceptCall q res s)) =
         locks s \<union> {c \<in> {sender (req_txn (aq_r q)), receiver (req_txn (aq_r q))}. isClientInCluster s c}
     \<and> log (fst (processAcceptCall q res s)) =
         log s @ (if in_cluster_count s (req_txn (aq_r q)) = 1
                  then [req_entry (aq_r q) (aq_ballot q) CROSS PREPARED] else [])
     \<and> balances (fst (processAcceptCall q res s)) = balances s
   else \<not> ar_ack (snd (processAcceptCall q res s)) \<and> fst (processAcceptCall q res s) = s"
proof (cases "can_accept (aq_ballot q) s")
  case True
  have "q = accept_of (aq_ballot q) (aq_r q)" by (simp add: accept_of_def)
  then have eq: "processAcceptCall q res s = processAcceptCall (accept_of (aq_ballot q) (aq_r q)) res s"
    by simp
  show ?thesis
    unfolding eq accepted_state [OF True] using True by simp
next
  case False
  then show ?thesis by (auto simp: processAcceptCall_def can_accept_def Let_def)
qed

lemma prepareTransaction_disconnected [simp]:
  "i_am_disconnected (prepareTransaction r b s) = i_am_disconnected s"
  "isClientInCluster (prepareTransaction r b s) = isClientInCluster s"
  by (simp_all add: prepareTransaction_def push_log_def isClientInCluster_def fun_eq_iff Let_def
    split: prod.split)

definition commit_state :: "ServerImpl \<Rightarrow> ServerImpl" where
  "commit_state s = unlock_own (req_txn (accept_val s))
     (s\<lparr>last_inserted := last_index s, last_inserted_ballot := accept_num s\<rparr>)"

lemma commit_state_simps [simp]:
  "same_data (reindexed s) (commit_state s)" "accept_val (commit_state s) = accept_val s"
  "accept_num (commit_state s) = accept_num s" "wal (commit_state s) = wal s"
  "isClientInCluster (commit_state s) = isClientInCluster s"
  "locks (commit_state s) =
     locks s - {c \<in> {sender (req_txn (accept_val s)), receiver (req_txn (accept_val s))}.
       isClientInCluster s c}"
  by (auto simp: commit_state_def unlock_own_def isClientInCluster_def fun_eq_iff same_data_def
    reindexed_def Let_def)

lemma committed_state:
  assumes "\<not> i_am_disconnected s" and "bal_num (promised_num s) = bal_num b"
    and "bal_num (accept_num s) = bal_num b"
  shows "processCommitCall (commit_of b) s =
     (if in_cluster_count s (req_txn (accept_val s)) = 2
      then commitTransaction (accept_val s) (accept_num s) (commit_state s) else commit_state s)
       \<lparr>promised := False, accepted := False\<rparr>"
proof -
  have "in_cluster_count (commit_state s) = in_cluster_count s"
    by (intro ext in_cluster_count_cong) simp
  then show ?thesis
    using assms commit_state_simps(2,3) [of s]
    by (simp add: processCommitCall_def commit_of_def commit_state_def Let_def)
qed

lemma same_data_reindexed_commit:
  assumes "same_data s t" and "writable (walFile (wal s))"
  shows "same_data (commitTransaction r b s) (commitTransaction r b (reindexed t))"
  using assms by (auto simp: same_data_def reindexed_def commitTransaction_data fun_eq_iff)

text \<open>What a replica has after the accept and the commit of a round.\<close>

lemma replica_round_effect:
  assumes acc: "can_accept b s" and wr: "writable (walFile (wal s))"
    and n: "in_cluster_count s (req_txn r) \<in> {1, 2}"
  shows "same_data (if in_cluster_count s (req_txn r) = 2 then commitTransaction r b s
                    else prepareTransaction r b s) (replica_round b r s)"
    and "locks (replica_round b r s) =
      locks s - {c \<in> {sender (req_txn r), receiver (req_txn r)}. isClientInCluster s c}"
proof -
  define t where "t = (if in_cluster_count s (req_txn r) = 1
    then prepareTransaction r b (accept_state b r s) else accept_state b r s)"
  have t: "\<not> i_am_disconnected t" "bal_num (promised_num t) = bal_num b" "accept_num t = b"
    "accept_val t = r" "isClientInCluster t = isClientInCluster s"
    "locks t = locks s \<union> {c \<in> {sender (req_txn r), receiver (req_txn r)}. isClientInCluster s c}"
    using acc by (simp_all add: t_def can_accept_def)
  have cnt: "in_cluster_count t = in_cluster_count s" by (intro ext in_cluster_count_cong) (simp add: t(5))
  have round: "replica_round b r s =
     (if in_cluster_count s (req_txn r) = 2 then commitTransaction r b (commit_state t)
      else commit_state t) \<lparr>promised := False, accepted := False\<rparr>"
    using committed_state [OF t(1,2)] t(3,4) cnt accepted_state [OF acc]
    by (simp add: replica_round_def t_def)
  show "locks (replica_round b r s) =
      locks s - {c \<in> {sender (req_txn r), receiver (req_txn r)}. isClientInCluster s c}"
    using t(4-6) by (auto simp: round)
  show "same_data (if in_cluster_count s (req_txn r) = 2 then commitTransaction r b s
                    else prepareTransaction r b s) (replica_round b r s)"
  proof (cases "in_cluster_count s (req_txn r) = 2")
    case True
    then have "t = accept_state b r s" by (simp add: t_def)
    then have "same_data (commitTransaction r b s) (commitTransaction r b (reindexed t))"
      using same_data_reindexed_commit [OF accept_state_simps(1) wr] by simp
    moreover have "same_data (commitTransaction r b (reindexed t)) (commitTransaction r b (commit_state t))"
      using wr by (intro same_data_commit commit_state_simps(1))
        (simp add: reindexed_def \<open>t = accept_state b r s\<close>)
    ultimately have "same_data (commitTransaction r b s) (commitTransaction r b (commit_state t))"
      by (rule same_data_trans)
    then show ?thesis using True by (simp add: round same_data_def)
  next
    case False
    with n have one: "t = prepareTransaction r b (accept_state b r s)" by (simp add: t_def)
    have "same_data (prepareTransaction r b s) t"
      unfolding one by (rule same_data_prepare) simp
    moreover have "last_index t = last_inserted t" by (simp add: one last_index_def)
    ultimately have "same_data (prepareTransaction r b s) (commit_state t)"
      using commit_state_simps(1) [of t] by (simp add: same_data_def reindexed_def)
    then show ?thesis using False by (simp add: round same_data_def)
  qed
qed

lemma wal_prepare_writable [simp]:
  "writable (walFile (snd (wal_prepareTransaction w r b))) = writable (walFile w)"
  by (simp add: wal_prepareTransaction_def Let_def)

lemma leader_round_data:
  assumes "writable (walFile (wal s))"
  shows "same_data (if x then prepareTransaction r (promised_num s) s
                    else commitTransaction r (promised_num s) s) (leader_round r x s)"
proof -
  define t where "t = fst (propose r x (checked r s))"
  have "same_data (if x then prepareTransaction r (promised_num s) (checked r s) else checked r s) t"
    using propose_data [of x r "checked r s"] by (cases x) (simp_all add: t_def)
  then have t: "same_data (if x then prepareTransaction r (promised_num s) s else s) t"
    using checked_same_data [of s r] same_data_trans same_data_prepare by (metis (full_types))
  then have wr: "writable (walFile (wal t))"
    using assms by (auto simp: same_data_def split: if_splits)
  moreover have "accept_num t = promised_num s" by (simp add: t_def propose_def Let_def)
  moreover have "leader_round r x s = fst (conclude r x t)" by (simp add: leader_round_def t_def)
  ultimately have "same_data (if x then t else commitTransaction r (promised_num s) t) (leader_round r x s)"
    using conclude_data [OF wr, of x r] by (cases x) simp_all
  then show ?thesis
    using t assms same_data_trans same_data_commit by (cases x) (simp_all, blast+)
qed

text \<open>
  C13. Agreement inside a cluster: if a leader and a replica hold the same data and the
  replica takes part in the leader's round (accept and commit under the leader's ballot),
  both hold the same data afterwards: log, write-ahead log, store, balances and position. This
  is so for intra-shard transfers and for the prepare phase of cross-shard ones.
\<close>

theorem replica_follows_leader:
  assumes "same_data s t" and "can_accept (promised_num s) t" and "writable (walFile (wal s))"
    and "in_cluster_count s (req_txn r) = (if x then 1 else 2)"
  shows "same_data (leader_round r x s) (replica_round (promised_num s) r t)"
proof -
  have "isClientInCluster t = isClientInCluster s"
    using assms(1) by (intro isClientInCluster_cong) (auto simp: same_data_def)
  then have n: "in_cluster_count t (req_txn r) = (if x then 1 else 2)"
    using assms(4) by (simp add: in_cluster_count_def)
  have wt: "writable (walFile (wal t))" using assms(1,3) by (simp add: same_data_def)
  have "same_data (if x then prepareTransaction r (promised_num s) t
      else commitTransaction r (promised_num s) t) (replica_round (promised_num s) r t)"
    using replica_round_effect(1) [OF assms(2) wt, of r] n by (cases x) simp_all
  moreover have "same_data (if x then prepareTransaction r (promised_num s) s
        else commitTransaction r (promised_num s) s)
      (if x then prepareTransaction r (promised_num s) t else commitTransaction r (promised_num s) t)"
    using assms(1,3) same_data_prepare same_data_commit by simp
  moreover note leader_round_data [OF assms(3), of x r]
  ultimately show ?thesis by (auto simp: same_data_def)
qed

definition demo_leader :: ServerImpl where
  "demo_leader = demo_server\<lparr>promised_num := demo_ballot\<rparr>"

theorem replica_follows_leader_witness:
  "log (leader_round demo_cross True demo_leader) = log (replica_round demo_ballot demo_cross demo_promised)"
proof -
  have "same_data demo_leader demo_promised" "can_accept (promised_num demo_leader) demo_promised"
    "writable (walFile (wal demo_leader))"
    by (simp_all add: demo_leader_def demo_promised_eq same_data_def can_accept_def WAL_init_def
      demo_file_def)
  moreover have "in_cluster_count demo_leader (req_txn demo_cross) = (if True then 1 else 2)"
    by (simp add: in_cluster_count_def demo_cross_def isClientInCluster_def demo_leader_def
      demo_cross_members)
  ultimately show ?thesis
    using replica_follows_leader [of demo_leader demo_promised demo_cross True]
    by (simp add: same_data_def demo_leader_def)
qed

text \<open>
  The replicas give up the locks of a cross-shard transaction when its Paxos round
  commits, while the transaction is still waiting for the coordinator's decision: two-phase
  locking holds at the leader only.
\<close>

theorem replica_unlocks_before_decision:
  assumes "can_accept b s" and "wal_ok (wal s)" and "req_ok r" and "bal_ok b"
    and "in_cluster_count s (req_txn r) = 1"
  shows "pending (wal (replica_round b r s)) (req_tid r) = Some (req_entry r b CROSS PREPARED)
    \<and> (\<forall>c \<in> {sender (req_txn r), receiver (req_txn r)}. isClientInCluster s c \<longrightarrow>
          c \<notin> locks (replica_round b r s))"
proof -
  have "writable (walFile (wal s))" using assms(2) by (simp add: wal_ok_def)
  note eff = replica_round_effect [OF assms(1) this, of r]
  have "wal (replica_round b r s) = snd (wal_prepareTransaction (wal s) r b)"
    using eff(1) assms(5) by (simp add: same_data_def)
  then show ?thesis
    using eff(2) assms(5) wal_prepare_pending(1) [OF assms(2) entry_ok_req_entry [OF assms(3,4)]]
    by auto
qed

theorem replica_unlocks_before_decision_witness:
  "1 \<notin> locks (replica_round demo_ballot demo_cross demo_promised)
   \<and> pending (wal (replica_round demo_ballot demo_cross demo_promised)) 42 \<noteq> None"
proof -
  have "can_accept demo_ballot demo_promised" "wal_ok (wal demo_promised)"
    "in_cluster_count demo_promised (req_txn demo_cross) = 1"
    by (simp_all add: demo_promised_eq can_accept_def wal_ok_def WAL_init_def demo_file_def
      in_cluster_count_def demo_cross_def isClientInCluster_def demo_cross_members)
  moreover have "isClientInCluster demo_promised 1" "sender (req_txn demo_cross) = 1" "req_tid demo_cross = 42"
    by (simp_all add: demo_promised_eq isClientInCluster_def demo_cross_members demo_cross_def)
  ultimately show ?thesis
    using replica_unlocks_before_decision [of demo_ballot demo_promised demo_cross] by auto
qed

end
