(* ===== verification/Tpc_Cluster.thy ===== *)
theory Tpc_Cluster
  imports Tpc_Paxos
begin

text \<open>
  A cluster as a replicated state machine: servers with equal logs have equal balances, a
  server that lags behind catches up through a synchronisation, quorums, what the clients of
  a cluster own together, and what a cross-shard commit does to two clusters.
\<close>

section \<open>Equal logs, equal balances\<close>

definition same_config :: "ServerImpl \<Rightarrow> ServerImpl \<Rightarrow> bool" where
  "same_config s s' \<longleftrightarrow>
     num_clusters (consts_of s') = num_clusters (consts_of s) \<and> cluster_id s' = cluster_id s"

lemma same_data_config: "same_data s s' \<Longrightarrow> same_config s s'"
  by (simp add: same_data_def same_config_def)

lemma same_config_trans: "same_config s t \<Longrightarrow> same_config t u \<Longrightarrow> same_config s u"
  by (simp add: same_config_def)

lemma same_config_clients: "same_config s s' \<Longrightarrow> isClientInCluster s' = isClientInCluster s"
  by (rule isClientInCluster_cong) (simp_all add: same_config_def)

lemma op_config [simp]:
  "same_config s (prepareTransaction r b s)" "same_config s (commitTransaction r b s)"
  "same_config s (reindexed s)" "same_config s s"
  by (simp_all add: same_config_def reindexed_def)

lemma processTpcDecision_config: "same_config s (processTpcDecision u t ic s)"
  by (simp add: processTpcDecision_wal_fin same_config_def Let_def split: prod.split)

lemma sync_fold_config: "same_config s (fold sync_entry ls s)"
  by (induction ls arbitrary: s) (simp_all add: same_config_def)

lemma handleSyncReply_config: "same_config s (handleSyncReply st res s)"
  using sync_fold_config [of s "sr_logs res"]
  by (simp add: handleSyncReply_def same_config_def Let_def)

lemma server_step_config:
  assumes "server_step s t" and "server_ok base s"
  shows "same_config s t"
  using assms(1)
proof cases
  case (transfer r res x)
  then show ?thesis
    using runPaxos_data [OF server_ok_writable [OF assms(2)], of r res x]
      same_data_config op_config same_config_trans by blast
next
  case (accept q ares)
  then show ?thesis
    using processAcceptCall_data [of s q ares] same_data_config op_config same_config_trans by blast
next
  case (commit q)
  then show ?thesis
    using processCommitCall_data [OF server_ok_writable [OF assms(2)], of q]
      same_data_config op_config same_config_trans by blast
qed (simp_all add: processTpcDecision_config handleSyncReply_config
    same_data_config [OF processPrepareCall_data] same_data_config [OF handlePrepareReply_data]
    same_data_config [OF handleAcceptReply_data] same_data_config [OF processGetBalanceCall_data]
    same_data_config [OF processDisconnectCall_data])

lemma server_run_config:
  "server_run s t \<Longrightarrow> server_ok base s \<Longrightarrow> same_config s t"
proof (induction rule: server_run.induct)
  case (step s t u)
  then have "server_ok base t" using server_run_ok by blast
  with step show ?case using server_step_config same_config_trans by blast
qed simp

lemma reachable_member:
  assumes "start_ok cs i f" and "server_run (started cs i name f v) s"
  shows "isClientInCluster s c \<longleftrightarrow> getClusterIdFromClientId cs c = getClusterIdFromServerId cs i"
proof -
  have "same_config (started cs i name f v) s"
    using server_run_config [OF assms(2) started_ok [OF assms(1)]] .
  then show ?thesis
    by (simp add: same_config_clients isClientInCluster_def [of "started cs i name f v"]) (simp add: started_eq)
qed

lemma reachable_balance:
  assumes "start_ok cs i f" and "server_run (started cs i name f v) s"
    and "getClusterIdFromClientId cs c = getClusterIdFromServerId cs i"
  shows "idx (balances s) c =
    i32 (initial_balance cs (getClusterIdFromServerId cs i) c + replay (log s) c)"
  using reachable_ok [OF assms(1,2)] reachable_member [OF assms(1,2), of c] assms(3)
  by (simp add: server_ok_def data_ok_def core_ok_def tracks_def)

text \<open>
  Replicas are deterministic copies: two servers of one cluster, each in any state it
  can reach, whose logs hold the same entries, hold the same balance for every client of the
  cluster.
\<close>

theorem equal_logs_equal_balances:
  assumes "start_ok cs i f" and "server_run (started cs i name f v) s"
    and "start_ok cs j g" and "server_run (started cs j name' g w) p"
    and "getClusterIdFromServerId cs i = getClusterIdFromServerId cs j"
    and "log s = log p" and "isClientInCluster s c"
  shows "idx (balances s) c = idx (balances p) c"
proof -
  have "getClusterIdFromClientId cs c = getClusterIdFromServerId cs i"
    using assms(7) reachable_member [OF assms(1,2)] by simp
  then show ?thesis
    using reachable_balance [OF assms(1,2)] reachable_balance [OF assms(3,4)] assms(5,6) by simp
qed

lemma demo_cluster2 [simp]: "getClusterIdFromServerId demo_constants 2 = 1"
  by (subst server_cluster_eq) (simp_all add: int32_def)

theorem equal_logs_equal_balances_witness:
  "idx (balances demo_server) 7 = idx (balances (started demo_constants 2 ''S2'' demo_file plain_boot)) 7"
proof -
  have "start_ok demo_constants 2 demo_file"
    by (simp add: start_ok_def config_ok_def demo_file_def int32_def)
  moreover have "log (started demo_constants 2 ''S2'' demo_file plain_boot) = []" by (simp add: started_eq)
  ultimately show ?thesis
    using equal_logs_equal_balances [OF demo_start_ok server_run.stay, of 2 demo_file "''S2''" plain_boot _ "''S1''" plain_boot 7,
        OF _ server_run.stay]
    by (simp add: demo_server_def [symmetric])
qed

section \<open>Catching up\<close>

lemma sync_entry_tracks: "tracks base s \<Longrightarrow> tracks base (sync_entry l s)"
  by (auto simp: tracks_def)
    (auto simp: sync_entry_def Let_def sync_credit_balances effect_def algebra_simps)

lemma sync_fold_tracks: "tracks base s \<Longrightarrow> tracks base (fold sync_entry ls s)"
  by (induction ls arbitrary: s) (auto simp: sync_entry_tracks)

lemma LogEntry_inverse [simp]: "entry_of_LogEntry (getLogEntryFromLocalLog e) = e"
  by (simp add: entry_of_LogEntry_def getLogEntryFromLocalLog_def)

definition sync_with :: "ServerImpl \<Rightarrow> ServerImpl \<Rightarrow> ServerImpl" where
  "sync_with p s = handleSyncReply StatusOK (processSyncCall (last_inserted s) no_SyncRes p) s"

lemma sync_with_eq:
  assumes "last_inserted s < last_inserted p" and "- 1 \<le> last_inserted s"
  shows "sync_with p s =
    (fold sync_entry (map getLogEntryFromLocalLog (drop (nat (last_inserted s + 1)) (log p))) s)
      \<lparr>ballot_num := bal_num (last_inserted_ballot p),
       last_inserted := i32 (last_inserted s + int (length (log p) - nat (last_inserted s + 1))),
       last_inserted_ballot := last_inserted_ballot p, in_sync := False\<rparr>"
  using assms
  by (simp add: sync_with_def handleSyncReply_def processSyncCall_def no_SyncRes_def Let_def)

lemma sync_with_log:
  assumes "last_inserted s < last_inserted p" and "- 1 \<le> last_inserted s"
  shows "log (sync_with p s) = log s @ drop (nat (last_inserted s + 1)) (log p)"
  by (simp add: sync_with_eq [OF assms] comp_def)

lemma sync_with_tracks:
  assumes "last_inserted s < last_inserted p" and "- 1 \<le> last_inserted s" and "tracks base s"
  shows "tracks base (sync_with p s)"
proof -
  define t where
    "t = fold sync_entry (map getLogEntryFromLocalLog (drop (nat (last_inserted s + 1)) (log p))) s"
  have "tracks base t" using assms(3) by (simp add: t_def sync_fold_tracks)
  then show ?thesis
    by (simp add: sync_with_eq [OF assms(1,2)] t_def [symmetric] tracks_def isClientInCluster_def)
qed

lemma sync_with_clients: "isClientInCluster (sync_with p s) = isClientInCluster s"
  unfolding sync_with_def by (intro same_config_clients handleSyncReply_config)

text \<open>
  C17. A replica that holds a prefix of a peer's log, up to its own \<open>last_inserted\<close>, has the
  peer's log and the peer's balances after one synchronisation with it, and is ready for
  prepare requests again; the locks it holds are not touched.
\<close>

theorem sync_catches_up:
  assumes "data_ok base s" and "data_ok base p" and "same_config s p"
    and "last_inserted s < last_inserted p" and "int (length (log p)) \<le> 2147483647"
    and "log s = take (nat (last_inserted s + 1)) (log p)"
  shows "log (sync_with p s) = log p
    \<and> (\<forall>c. isClientInCluster s c \<longrightarrow> idx (balances (sync_with p s)) c = idx (balances p) c)
    \<and> last_inserted (sync_with p s) = int (length (log p)) - 1
    \<and> \<not> in_sync (sync_with p s) \<and> locks (sync_with p s) = locks s"
proof -
  have "length (log s) \<le> length (log p)" using assms(6) by (metis length_take min.cobounded1)
  then have "index_ok s \<and> int (length (log s)) \<le> 2147483647"
    using assms(1,5) by (simp add: data_ok_def)
  then have low: "- 1 \<le> last_inserted s" by (simp add: index_ok_def)
  have log: "log (sync_with p s) = log p"
    using sync_with_log [OF assms(4) low] assms(6) by (metis append_take_drop_id)
  have "idx (balances (sync_with p s)) c = idx (balances p) c" if "isClientInCluster s c" for c
    using that assms(1,2) sync_with_tracks [OF assms(4) low, of base] same_config_clients [OF assms(3)]
    by (simp add: data_ok_def core_ok_def tracks_def sync_with_clients log)
  moreover have "int (length (log p) - nat (last_inserted s + 1)) = int (length (log p)) - (last_inserted s + 1)"
    using assms(2,4,5) low by (auto simp: data_ok_def index_ok_def)
  moreover have "i32 (int (length (log p)) - 1) = int (length (log p)) - 1"
    using assms(5) by (intro i32_id) (simp add: int32_def)
  ultimately show ?thesis using log by (simp add: sync_with_eq [OF assms(4) low])
qed

text \<open>A peer one committed transfer ahead of the deployment's server.\<close>

definition demo_ahead :: ServerImpl where
  "demo_ahead = commitTransaction demo_req demo_ballot demo_server"

lemma demo_data_ok [simp]: "data_ok (initial_balance demo_constants 1) demo_server"
  using demo_server_ok by (simp add: server_ok_def)

lemma demo_writable [simp]: "writable (walFile (WAL_init demo_file))"
  by (simp add: WAL_init_def demo_file_def)

theorem sync_catches_up_witness:
  "idx (balances (sync_with demo_ahead demo_server)) 2 = 14"
proof -
  have "data_ok (initial_balance demo_constants 1) demo_ahead" "same_config demo_server demo_ahead"
    by (simp_all add: demo_ahead_def commitTransaction_ok)
  moreover have "last_inserted demo_ahead = 0" "length (log demo_ahead) = 1"
    "idx (balances demo_ahead) 2 = 14"
    by (simp_all add: demo_ahead_def commitTransaction_data demo_req_def)
  moreover have "isClientInCluster demo_server 2" by simp
  ultimately show ?thesis
    using sync_catches_up [of "initial_balance demo_constants 1" demo_server demo_ahead] by simp
qed

text \<open>
  C39. Entries of the log after \<open>last_inserted\<close>, which the coordinator's decisions leave
  there, are copied once more by the next synchronisation: a replica whose log is a prefix of
  the peer's ends with those entries twice, and every committed one among them is applied to
  the balances a second time.
\<close>

theorem sync_repeats_decisions:
  assumes "data_ok base s" and "data_ok base p" and "same_config s p"
    and "last_inserted s < last_inserted p" and "log p = log s @ es"
    and "- 1 \<le> last_inserted s" and "last_inserted s < int (length (log s))"
    and "isClientInCluster s c"
  shows "log (sync_with p s) = log s @ drop (nat (last_inserted s + 1)) (log s) @ es
    \<and> idx (balances (sync_with p s)) c =
        i32 (idx (balances p) c + replay (drop (nat (last_inserted s + 1)) (log s)) c)"
proof -
  have log: "log (sync_with p s) = log s @ drop (nat (last_inserted s + 1)) (log s) @ es"
    using assms(6,7) by (simp add: sync_with_log [OF assms(4,6)] assms(5))
  have "idx (balances p) c = i32 (base c + replay (log p) c)"
    using assms(2,8) same_config_clients [OF assms(3)] by (simp add: data_ok_def core_ok_def tracks_def)
  moreover have "idx (balances (sync_with p s)) c = i32 (base c + replay (log (sync_with p s)) c)"
    using assms(1,8) sync_with_tracks [OF assms(4,6), of base]
    by (simp add: data_ok_def core_ok_def tracks_def sync_with_clients)
  ultimately show ?thesis using log by (simp add: assms(5) algebra_simps)
qed

definition demo_decided :: ServerImpl where
  "demo_decided = processTpcDecision no_entry 42 True demo_accepted"

definition demo_next :: ServerImpl where
  "demo_next = commitTransaction \<lparr>req_txn = \<lparr>sender = 2, receiver = 3, amount = 1\<rparr>, req_tid = 43\<rparr>
     demo_ballot demo_decided"

lemma demo_decided_ok: "data_ok (initial_balance demo_constants 1) demo_decided"
  unfolding demo_decided_def
  using reachable_ok [OF demo_start_ok demo_accepted_run] by (intro processTpcDecision_ok) (simp add: server_ok_def)

lemma demo_decided_simps:
  "log demo_decided = [req_entry demo_cross demo_ballot CROSS PREPARED,
     decided True (req_entry demo_cross demo_ballot CROSS PREPARED)]"
  "last_inserted demo_decided = 0" "idx (balances demo_decided) 1 = 0"
  "isClientInCluster demo_decided 1"
proof -
  have core: "core_ok (initial_balance demo_constants 1) demo_accepted"
    using reachable_ok [OF demo_start_ok demo_accepted_run] by (simp add: server_ok_def data_ok_def)
  have conn: "\<not> i_am_disconnected demo_accepted"
    by (simp add: demo_accepted_eq)
  have pend: "pending (wal demo_accepted) 42 = Some (req_entry demo_cross demo_ballot CROSS PREPARED)"
    by (simp add: demo_accepted_pending)
  note eq = processTpcDecision_pending [OF core conn pend, of no_entry True]
  have cl: "isClientInCluster demo_accepted = isClientInCluster demo_server"
    by (simp add: demo_accepted_eq isClientInCluster_def fun_eq_iff)
  show "log demo_decided = [req_entry demo_cross demo_ballot CROSS PREPARED,
     decided True (req_entry demo_cross demo_ballot CROSS PREPARED)]"
    "last_inserted demo_decided = 0"
    unfolding demo_decided_def eq by (simp_all add: demo_accepted_eq)
  show "isClientInCluster demo_decided 1"
    unfolding demo_decided_def eq by (simp add: cl)
  show "idx (balances demo_decided) 1 = 0"
    unfolding demo_decided_def eq settle_balances
    by (simp add: cl) (simp add: demo_accepted_eq req_entry_def demo_cross_def)
qed

theorem sync_repeats_decisions_witness:
  "idx (balances (sync_with demo_next demo_decided)) 1 = - 10 \<and> idx (balances demo_next) 1 = 0"
proof -
  have wal: "writable (walFile (wal demo_decided))"
    using demo_decided_ok by (simp add: data_ok_def core_ok_def wal_ok_def)
  have "data_ok (initial_balance demo_constants 1) demo_next" "same_config demo_decided demo_next"
    unfolding demo_next_def by (simp_all add: commitTransaction_ok demo_decided_ok)
  moreover have "last_inserted demo_next = 2" "idx (balances demo_next) 1 = 0"
    by (simp_all add: demo_next_def demo_decided_simps commitTransaction_data [OF wal])
  moreover have "replay (drop (nat (last_inserted demo_decided + 1)) (log demo_decided)) 1 = - 10"
    by (simp add: demo_decided_simps effect_decided req_entry_def demo_cross_def)
  moreover have "\<exists>es. log demo_next = log demo_decided @ es"
    by (simp add: demo_next_def commitTransaction_data [OF wal])
  ultimately show ?thesis
    using sync_repeats_decisions [of "initial_balance demo_constants 1" demo_decided demo_next _ 1]
      demo_decided_ok
    by (auto simp: demo_decided_simps)
qed

end
