(* ===== verification/Tpc_Store.thy ===== *)
theory Tpc_Store
  imports Tpc_Cluster
begin

text \<open>
  The key-value store behind the balances. A write that LevelDB does not carry out is mentioned
  in the debug log and never repeated, so the store follows memory exactly as far as its answers
  allow: every handler appends its writes to the list of calls, and the store is what the
  answered ones among them leave.
\<close>

section \<open>Writes and their answers\<close>

text \<open>The store after the writes of a list, the first of which is write number \<open>n\<close>.\<close>

fun write_puts :: "(nat \<Rightarrow> bool) \<Rightarrow> nat \<Rightarrow> (string \<times> string) list \<Rightarrow> (string \<rightharpoonup> string) \<Rightarrow> string \<rightharpoonup> string" where
  "write_puts ok n [] m = m"
| "write_puts ok n ((k, x) # ps) m = write_puts ok (Suc n) ps (if ok n then m(k \<mapsto> x) else m)"

text \<open>Whether the last write to a key was carried out; \<open>b\<close> answers for the writes before.\<close>

fun last_ok :: "(nat \<Rightarrow> bool) \<Rightarrow> nat \<Rightarrow> (string \<times> string) list \<Rightarrow> string \<Rightarrow> bool \<Rightarrow> bool" where
  "last_ok ok n [] k b = b"
| "last_ok ok n ((k', x) # ps) k b = last_ok ok (Suc n) ps k (if k' = k then ok n else b)"

lemma write_puts_append:
  "write_puts ok n (ps @ qs) m = write_puts ok (n + length ps) qs (write_puts ok n ps m)"
  by (induction ok n ps m rule: write_puts.induct) simp_all

lemma no_write:
  "map_of (rev ps) k = None \<Longrightarrow> write_puts ok n ps m k = m k \<and> last_ok ok n ps k b = b"
proof (induction ps arbitrary: n m b)
  case (Cons p ps)
  obtain k' x where p: "p = (k', x)" by (cases p)
  then have "map_of (rev ps) k = None" "k' \<noteq> k" using Cons.prems by (auto simp: map_add_def split: option.splits if_splits)
  then show ?case using Cons.IH by (simp add: p)
qed simp

lemma last_write:
  "map_of (rev ps) k = Some x \<Longrightarrow> last_ok ok n ps k b \<Longrightarrow> write_puts ok n ps m k = Some x"
proof (induction ps arbitrary: n m b)
  case (Cons p ps)
  obtain k' y where p: "p = (k', y)" by (cases p)
  show ?case
  proof (cases "map_of (rev ps) k")
    case None
    then have "k' = k" "y = x" using Cons.prems(1) by (auto simp: p map_add_def split: if_splits)
    then show ?thesis using no_write [OF None] Cons.prems(2) by (simp add: p)
  next
    case (Some z)
    then have "z = x" using Cons.prems(1) by (simp add: p map_add_def)
    then show ?thesis using Cons.IH Some Cons.prems(2) by (simp add: p)
  qed
qed simp

lemma last_ok_all: "(\<And>n. ok n) \<Longrightarrow> last_ok ok n ps k True"
  by (induction ps arbitrary: n) auto

lemma write_batch_puts: "write_batch ps m = write_puts (\<lambda>_. True) n ps m"
  by (induction ps arbitrary: n m) (auto simp: write_batch_def)

section \<open>Handlers\<close>

definition puts_follow :: "ServerImpl \<Rightarrow> ServerImpl \<Rightarrow> bool" where
  "puts_follow s t \<longleftrightarrow> put_answer t = put_answer s
     \<and> (\<exists>ps. db t = db s @ ps \<and> kv t = write_puts (put_answer s) (length (db s)) ps (kv s))"

lemma puts_same: "db t = db s \<Longrightarrow> kv t = kv s \<Longrightarrow> put_answer t = put_answer s \<Longrightarrow> puts_follow s t"
  by (simp add: puts_follow_def)

lemma puts_refl [simp]: "puts_follow s s"
  by (simp add: puts_same)

lemma puts_trans: "puts_follow s t \<Longrightarrow> puts_follow t u \<Longrightarrow> puts_follow s u"
  by (fastforce simp: puts_follow_def write_puts_append)

lemma puts_updateBalance: "puts_follow s (updateBalance c b s)"
  unfolding puts_follow_def by (auto simp: updateBalance_def)

lemma puts_add_update: "puts_follow s (updateBalance c b (s\<lparr>balances := m\<rparr>))"
  using puts_trans [OF puts_same puts_updateBalance] by simp

text \<open>A state that differs from \<open>t\<close> outside the store only.\<close>

definition same_store :: "ServerImpl \<Rightarrow> ServerImpl \<Rightarrow> bool" where
  "same_store s t \<longleftrightarrow> db t = db s \<and> kv t = kv s \<and> put_answer t = put_answer s"

lemma same_store_puts: "same_store s t \<Longrightarrow> puts_follow s t"
  by (simp add: same_store_def puts_same)

lemma store_prepareTransaction: "same_store s (prepareTransaction r b s)"
  by (simp add: same_store_def prepareTransaction_def push_log_def Let_def split: prod.split)

lemma store_push_wal: "same_store s (push_log e (s\<lparr>wal := w\<rparr>))" "same_store s (s\<lparr>wal := w\<rparr>)"
  by (simp_all add: same_store_def push_log_def)

lemma store_settle: "puts_follow s (settle ic c d s)"
proof -
  have "puts_follow s (updateBalance c b (balance_add c d (s\<lparr>locks := L\<rparr>)))" for b L
    by (rule puts_trans [OF puts_same puts_updateBalance]) (simp_all add: balance_add_def)
  then show ?thesis by (simp add: settle_def Let_def puts_same)
qed

lemma store_sync_credit: "puts_follow s (sync_credit e c d s)"
  by (auto simp: sync_credit_def Let_def balance_add_def puts_add_update)

lemma store_commitTransaction: "puts_follow s (commitTransaction r b s)"
proof -
  obtain e w where ew: "wal_commitTransaction (wal s) r b = (e, w)" by fastforce
  define t where "t = balance_add (receiver (e_txn e)) (amount (e_txn e))
    (balance_add (sender (e_txn e)) (- amount (e_txn e)) (push_log e (s\<lparr>wal := w\<rparr>)))"
  define u where "u = updateBalance (sender (e_txn e)) (idx (balances t) (sender (e_txn e))) t"
  have "puts_follow s t" by (rule puts_same) (simp_all add: t_def balance_add_def push_log_def)
  moreover have "puts_follow t u" unfolding u_def by (rule puts_updateBalance)
  moreover have "puts_follow u (updateBalance (receiver (e_txn e)) (idx (balances u) (receiver (e_txn e))) u)"
    by (rule puts_updateBalance)
  moreover have "puts_follow v (v\<lparr>last_inserted := i, last_inserted_ballot := b\<rparr>)" for v i by (rule puts_same) simp_all
  ultimately show ?thesis
    unfolding commitTransaction_def Let_def ew prod.case t_def [symmetric] u_def [symmetric] using puts_trans by blast
qed

lemma store_sync_entry: "puts_follow s (sync_entry l s)"
  unfolding sync_entry_def Let_def
  by (intro puts_trans [OF _ store_sync_credit] puts_same) (simp_all add: push_log_def)

lemma store_sync_fold: "puts_follow s (fold sync_entry ls s)"
  by (induction ls arbitrary: s) (auto intro: puts_trans store_sync_entry)

lemma store_propose: "same_store s (fst (propose r x s))"
  using store_prepareTransaction by (simp add: propose_def take_locks_def same_store_def Let_def)

lemma store_conclude: "puts_follow s (fst (conclude r x s))"
proof -
  have "puts_follow s (commitTransaction r b (s\<lparr>await_accept_decision := p, locks := L\<rparr>))" for b p L
    by (rule puts_trans [OF puts_same store_commitTransaction]) simp_all
  moreover have "puts_follow s (v\<lparr>promised := False, accepted := False, await_prepare_decision := False,
      await_accept_decision := False, is_paxos_running := False, paxos_tid := - 1\<rparr>)" if "puts_follow s v" for v
    by (rule puts_trans [OF that puts_same]) simp_all
  ultimately show ?thesis by (simp add: conclude_def puts_same Let_def)
qed

lemma store_runPaxos: "puts_follow s (runPaxos_state r res x s)"
proof -
  obtain fin s' res' msgs where eq: "runPaxos r res x s = (fin, s', res', msgs)" by (metis prod_cases4)
  have checked: "puts_follow s (checked r s)" by (rule puts_same) (simp_all add: checked_def read_sender_def)
  have stopped: "puts_follow s (stopped u)" if "puts_follow s u" for u
    by (rule puts_trans [OF that puts_same]) (simp_all add: stopped_def)
  have "puts_follow s s'"
    using eq
  proof (cases rule: runPaxos_cases)
    case start
    then have "s' = fst (start_round (req_tid r) s)" by simp
    then show ?thesis by (simp add: start_round_def puts_same Let_def)
  next
    case reject
    then show ?thesis using stopped checked by simp
  next
    case proposed
    then have "s' = fst (propose r x (checked r s))" by simp
    then show ?thesis using puts_trans checked same_store_puts [OF store_propose] by metis
  next
    case concluded
    then have "s' = fst (conclude r x s)" by simp
    then show ?thesis using store_conclude by simp
  qed (auto simp: stopped_def released_def puts_same)
  then show ?thesis using eq by simp
qed

lemma store_decision: "puts_follow s (processTpcDecision u t ic s)"
proof -
  have "puts_follow s (settle ic c' d' (settle ic c d v))" if "same_store s v" for v c d c' d'
    using that store_settle puts_trans same_store_puts by metis
  then show ?thesis
    using store_push_wal by (simp add: processTpcDecision_wal_fin Let_def split: prod.split)
qed

lemma store_accept: "puts_follow s (fst (processAcceptCall q res s))"
proof -
  have "puts_follow s (prepareTransaction r b v)" if "same_store s v" for r b v
    using that store_prepareTransaction [of v r b] by (intro same_store_puts) (simp add: same_store_def)
  then show ?thesis
    by (auto simp: processAcceptCall_def lock_own_def same_store_def puts_same Let_def)
qed

lemma store_commit: "puts_follow s (processCommitCall q s)"
proof -
  have "puts_follow s (v\<lparr>promised := False, accepted := False\<rparr>)" if "puts_follow s v" for v
    by (rule puts_trans [OF that puts_same]) simp_all
  moreover have "puts_follow s (commitTransaction r b (s\<lparr>last_inserted := n, last_inserted_ballot := b', locks := L\<rparr>))"
    for r b n b' L by (rule puts_trans [OF puts_same store_commitTransaction]) simp_all
  ultimately show ?thesis
    by (simp add: processCommitCall_def unlock_own_def puts_same Let_def)
qed

lemma store_sync: "puts_follow s (handleSyncReply st res s)"
  using puts_trans [OF store_sync_fold [of s "sr_logs res"] puts_same]
  by (simp add: handleSyncReply_def puts_same Let_def)

lemma store_mark: "same_store s (mark_disconnected name s)"
  by (simp add: mark_disconnected_def lookup_server_def same_store_def Let_def split: option.split)

lemma store_fold_mark: "same_store s (fold mark_disconnected names s)"
proof (induction names arbitrary: s)
  case (Cons n ns)
  then show ?case using store_mark [of s n] by (simp add: same_store_def)
qed (simp add: same_store_def)

lemma store_disconnect: "puts_follow s (processDisconnectCall names s)"
  using store_fold_mark [of "resetDisconnectedState s" names]
  by (intro same_store_puts) (simp add: processDisconnectCall_def same_store_def resetDisconnectedState_def)

lemma server_step_puts: "server_step s t \<Longrightarrow> puts_follow s t"
proof (induction rule: server_step.induct)
  case (prepare q s pres)
  show ?case by (rule puts_same) (simp_all add: processPrepareCall_def Let_def)
next
  case (prepare_reply s st q pres)
  show ?case by (rule puts_same) (simp_all add: handlePrepareReply_def Let_def split: option.split)
next
  case (accept_reply s st q ares)
  show ?case by (rule puts_same) (simp_all add: handleAcceptReply_def)
next
  case (balance s c)
  show ?case by (rule puts_same) (simp_all add: processGetBalanceCall_def)
qed (rule store_runPaxos store_decision store_accept store_commit store_sync store_disconnect)+

lemma server_run_puts: "server_run s t \<Longrightarrow> puts_follow s t"
  by (induction rule: server_run.induct) (auto intro: puts_trans server_step_puts)

section \<open>The store and the balances\<close>

lemma started_store:
  "put_answer (started cs i name f v) = store_answers v"
  "kv (started cs i name f v) = write_batch (db (started cs i name f v)) (left_store v)"
proof -
  have "kv (fold init_balance is s) = kv s" "put_answer (fold init_balance is s) = put_answer s" for "is" s
    using init_fold_shape [of "is" s] by auto
  then show "put_answer (started cs i name f v) = store_answers v"
    "kv (started cs i name f v) = write_batch (db (started cs i name f v)) (left_store v)"
    by (simp_all add: started_eq ServerImpl_new_def resetDisconnectedState_def)
qed

text \<open>
  C21. The key-value store follows memory as far as LevelDB lets it. In every reachable state the
  last value that the server asked to be written under the name of a client of its cluster is the
  balance in memory; the store holds what the answered writes since the initial batch leave; so it
  holds the balance of every client whose last write was carried out. A failed write is not
  repeated: until the next change of that balance the store keeps an older one.
\<close>

theorem store_mirrors_balances:
  assumes "start_ok cs i f" and "server_run (started cs i name f v) s"
    and "isClientInCluster s c" and "1 \<le> c" and "c \<le> total_clients"
  defines "s0 \<equiv> started cs i name f v"
  defines "n \<equiv> length (db s0)"
  shows "map_of (rev (db s)) (to_string c) = Some (to_string (idx (balances s) c))
    \<and> kv s = write_puts (store_answers v) n (drop n (db s)) (kv s0)
    \<and> (last_ok (store_answers v) n (drop n (db s)) (to_string c) True \<longrightarrow>
        kv s (to_string c) = Some (to_string (idx (balances s) c)))"
proof -
  let ?k = "to_string c"
  have now: "map_of (rev (db s)) ?k = Some (to_string (idx (balances s) c))"
    using reachable_ok [OF assms(1,2)] assms(3-5)
    by (simp add: server_ok_def data_ok_def core_ok_def persisted_def)
  obtain ps where ps: "db s = db s0 @ ps" and kv: "kv s = write_puts (store_answers v) n ps (kv s0)"
    using server_run_puts [OF assms(2)] by (auto simp: puts_follow_def started_store s0_def n_def)
  have "kv s ?k = Some (to_string (idx (balances s) c))" if ok: "last_ok (store_answers v) n ps ?k True"
  proof (cases "map_of (rev ps) ?k")
    case None
    then have "map_of (rev (db s0)) ?k = Some (to_string (idx (balances s) c))"
      using now by (simp add: ps map_add_def)
    from last_write [OF this last_ok_all, of "\<lambda>_. True" 0 "left_store v"]
    have "kv s0 ?k = Some (to_string (idx (balances s) c))"
      by (simp add: s0_def started_store write_batch_puts [where n = 0])
    then show ?thesis using no_write [OF None] by (simp add: kv)
  next
    case (Some x)
    then show ?thesis using now last_write [OF Some ok] by (simp add: ps kv)
  qed
  then show ?thesis using now kv by (simp add: ps n_def)
qed

lemma demo_decided_run: "server_run (started demo_constants 1 ''S1'' demo_file plain_boot) demo_decided"
  unfolding demo_decided_def by (rule server_run.step [OF demo_accepted_run server_step.decision])

text \<open>A store that takes the initial batch and nothing after it, and a server that copies one transfer.\<close>

definition full_disk :: Boot where
  "full_disk = plain_boot\<lparr>store_answers := (\<lambda>_. False)\<rparr>"

definition demo_copied :: ServerImpl where
  "demo_copied = handleSyncReply StatusOK
     (no_SyncRes\<lparr>sr_ack := True, sr_logs := [getLogEntryFromLocalLog (req_entry demo_req demo_ballot INTRA COMMITTED)]\<rparr>)
     (started demo_constants 1 ''S1'' demo_file full_disk)"

lemma demo_copied_run: "server_run (started demo_constants 1 ''S1'' demo_file full_disk) demo_copied"
  unfolding demo_copied_def
  by (rule server_run.step [OF server_run.stay server_step.sync_reply])
    (simp add: log_entry_ok_def bal_ok_def demo_ballot_def int32_def,
      simp add: getLogEntryFromLocalLog_def req_entry_def demo_req_def)

lemma demo_copied_balance: "idx (balances demo_copied) 1 = 6"
proof -
  have "log demo_copied = [req_entry demo_req demo_ballot INTRA COMMITTED]"
    by (simp add: demo_copied_def handleSyncReply_def started_eq Let_def)
  moreover have "getClusterIdFromClientId demo_constants 1 = getClusterIdFromServerId demo_constants 1"
    by (simp add: client_cluster_eq i32_id int32_def)
  ultimately show ?thesis
    using reachable_balance [OF demo_start_ok demo_copied_run, of 1]
    by (simp add: initial_balance_def effect_committed demo_req_def total_clients_def i32_id int32_def)
qed

lemma no_answers: "write_puts (\<lambda>_. False) n ps m = m"
  by (induction ps arbitrary: n) auto

theorem store_mirrors_balances_witness:
  "kv demo_decided (to_string 1) = Some (to_string 0) \<and> idx (balances demo_decided) 1 = 0
   \<and> kv demo_copied (to_string 1) = Some (to_string 10) \<and> idx (balances demo_copied) 1 = 6"
proof -
  have c: "(1::int) \<le> total_clients" by (simp add: total_clients_def)
  have "store_answers plain_boot n" for n by (simp add: plain_boot_def)
  note ok = last_ok_all [of "store_answers plain_boot", OF this]
  have "kv demo_decided (to_string 1) = Some (to_string 0)"
    using store_mirrors_balances [OF demo_start_ok demo_decided_run demo_decided_simps(4) order_refl c,
        THEN conjunct2, THEN conjunct2, THEN mp, OF ok] demo_decided_simps(3) by simp
  moreover have "isClientInCluster demo_copied 1"
    using reachable_member [OF demo_start_ok demo_copied_run] by (simp add: client_cluster_eq i32_id int32_def)
  then have "kv demo_copied = kv (started demo_constants 1 ''S1'' demo_file full_disk)"
    using store_mirrors_balances [OF demo_start_ok demo_copied_run _ _ c] by (simp add: full_disk_def no_answers)
  moreover have "kv (started demo_constants 1 ''S1'' demo_file full_disk) (to_string 1) = Some (to_string 10)"
  proof -
    let ?s = "started demo_constants 1 ''S1'' demo_file full_disk"
    have "isClientInCluster ?s 1"
      using reachable_member [OF demo_start_ok server_run.stay] by (simp add: client_cluster_eq i32_id int32_def)
    then have "map_of (rev (db ?s)) (to_string 1) = Some (to_string (idx (balances ?s) 1))"
      using started_ok [OF demo_start_ok, of "''S1''" full_disk] c
      by (simp add: server_ok_def data_ok_def core_ok_def persisted_def)
    moreover have "idx (balances ?s) 1 = 10"
      using reachable_balance [OF demo_start_ok server_run.stay, of 1] c
      by (simp add: client_cluster_eq i32_id int32_def initial_balance_def)
        (simp add: started_eq)
    ultimately show ?thesis
      using last_write [OF _ last_ok_all, of _ _ _ "\<lambda>_. True" 0 "left_store full_disk"]
      by (simp add: started_store write_batch_puts [where n = 0])
  qed
  ultimately show ?thesis using demo_decided_simps(3) demo_copied_balance by simp
qed

end
