(* ===== verification/Tpc_WAL_Props.thy ===== *)
theory Tpc_WAL_Props
  imports Tpc_WAL
begin

text \<open>
  The properties of the write-ahead log, read off its contract: a prepared transaction is
  handed back unchanged when it is decided, once, whatever happened in between.
\<close>

definition sample_file :: disk_file where
  "sample_file = \<lparr>contents = Some ''CS_PREPARE 9 1 1 5 2500 3\<newline>'', readable = True, writable = True\<rparr>"

definition sample_req :: "int \<Rightarrow> TransferReq" where
  "sample_req t = \<lparr>req_txn = \<lparr>sender = 5, receiver = 1200, amount = - 3\<rparr>, req_tid = t\<rparr>"

definition sample_ballot :: Ballot where
  "sample_ballot = \<lparr>bal_num = 4, bal_server_id = 2\<rparr>"

lemma sample_ok [simp]:
  "wal_ok (WAL_init sample_file)" "int64 t \<Longrightarrow> wal_req_ok (sample_req t, sample_ballot)"
  "req_tid (sample_req t) = t"
  by (simp_all add: sample_file_def wal_ok_def WAL_init_def wal_req_ok_def entry_ok_def req_entry_def
    sample_req_def sample_ballot_def txn_ok_def int32_def)

text \<open>
  C22. A transaction that was prepared is handed back field by field when its decision
  arrives, with the status of the decision, after any number of other transactions have been
  prepared and decided on the same log.
\<close>

theorem wal_returns_prepared:
  assumes "wal_ok w" and "wal_req_ok (r, b)"
    and "list_all (log_op_valid wal_req_ok) ps"
    and "req_tid r \<notin> log_op_key (\<lambda>rb. req_tid (fst rb)) ` set ps"
  shows "fst (wal_fin u is_commit (req_tid r)
            (fold (log_step wal_prep (wal_fin u)) ps (snd (wal_prepareTransaction w r b))))
    = decided is_commit (req_entry r b CROSS PREPARED)"
  using wal_log.finish_prepared [OF assms(1,2,3)] assms(4) by (simp add: wal_prep_def)

theorem wal_returns_prepared_witness:
  "fst (wal_commitTransaction_tid
      (snd (wal_prepareTransaction (snd (wal_prepareTransaction (WAL_init sample_file)
         (sample_req 70) sample_ballot)) (sample_req 71) sample_ballot)) no_entry 70)
   = req_entry (sample_req 70) sample_ballot CROSS COMMITTED"
  using wal_returns_prepared [of "WAL_init sample_file" "sample_req 70" sample_ballot
      "[Prep (sample_req 71, sample_ballot)]" no_entry True]
  by (simp add: wal_prep_def wal_fin_def int64_def decided_def req_entry_def)

text \<open>
  A transaction is decided at most once: a second decision, the same or the opposite
  one, finds nothing and returns the empty entry, unless the transaction was prepared again.
\<close>

theorem wal_decides_once:
  assumes "wal_ok w" and "list_all (log_op_valid wal_req_ok) ps"
    and "t \<notin> log_op_key (\<lambda>rb. req_tid (fst rb)) ` set ps"
  shows "fst (wal_fin u second t
            (fold (log_step wal_prep (wal_fin u)) ps (snd (wal_fin u first t w)))) = no_entry"
  by (rule wal_log.finish_twice [OF assms])

theorem wal_decides_once_witness:
  "fst (wal_abortTransaction (snd (wal_commitTransaction_tid (snd (wal_prepareTransaction
      (WAL_init sample_file) (sample_req 70) sample_ballot)) no_entry 70)) no_entry 70) = no_entry"
proof -
  have "wal_ok (snd (wal_prepareTransaction (WAL_init sample_file) (sample_req 70) sample_ballot))"
    using wal_log.prep_ok [of "WAL_init sample_file" "(sample_req 70, sample_ballot)"]
    by (simp add: wal_prep_def int64_def)
  then show ?thesis
    using wal_decides_once [of _ "[]" 70 no_entry False True] by (simp add: wal_fin_def)
qed

text \<open>
  C23. Reading a line back: whatever surrounds it in the file, the line written for an entry
  parses to the identifier, ballot, clients and amount it was written from (negative numbers
  included), and the result does not depend on what the uninitialised locals of
  \<open>getTransactionFromFile\<close> hold.
\<close>

theorem wal_line_roundtrip:
  assumes "entry_ok e" and "command_ok cmd" and "readable (walFile w)"
    and "contents (walFile w) =
      Some (before @ wal_line cmd (e_tid e) (e_ballot_num e) (e_ballot_server_id e) (e_txn e) @ behind)"
  shows "getTransactionFromFile w u (int (length before)) = e\<lparr>e_type := CROSS, e_status := PREPARED\<rparr>"
proof -
  have "prepared_at w (int (length before)) (e\<lparr>e_type := CROSS, e_status := PREPARED\<rparr>)"
    unfolding prepared_at_def using assms(1,2,4) by (auto simp: entry_ok_def)
  then show ?thesis using assms(3) by (rule prepared_at_read)
qed

theorem wal_line_roundtrip_witness:
  "getTransactionFromFile (snd (wal_prepareTransaction (WAL_init sample_file) (sample_req 70) sample_ballot))
     no_entry 26 = req_entry (sample_req 70) sample_ballot CROSS PREPARED"
proof -
  let ?e = "req_entry (sample_req 70) sample_ballot CROSS PREPARED"
  have "entry_ok ?e" using sample_ok(2) [of 70] by (simp add: wal_req_ok_def int64_def)
  moreover have "contents (walFile (snd (wal_prepareTransaction (WAL_init sample_file) (sample_req 70) sample_ballot)))
      = Some (''CS_PREPARE 9 1 1 5 2500 3\<newline>'' @ wal_line ''CS_PREPARE'' (e_tid ?e) (e_ballot_num ?e)
          (e_ballot_server_id ?e) (e_txn ?e) @ [])"
    by (simp add: wal_prepareTransaction_def write_app_def file_text_def WAL_init_def sample_file_def
      req_entry_def Let_def)
  moreover have "readable (walFile (snd (wal_prepareTransaction (WAL_init sample_file) (sample_req 70) sample_ballot)))"
    by (simp add: wal_prepareTransaction_def WAL_init_def sample_file_def Let_def)
  ultimately show ?thesis
    using wal_line_roundtrip [of ?e "''CS_PREPARE''" _ "''CS_PREPARE 9 1 1 5 2500 3\<newline>''" "[]" no_entry]
    by (simp add: req_entry_def)
qed

text \<open>
  Copying a log entry by synchronisation keeps file and index in step with what the
  peer did: a prepared entry becomes pending, a committed or aborted one is no longer
  pending, and every other pending transaction stays as it is.
\<close>

theorem insertEntry_refines:
  assumes "wal_ok w" and "entry_ok e"
  shows "wal_ok (insertEntry w e) \<and> pending (insertEntry w e) =
     (case e_status e of
        PREPARED \<Rightarrow> (pending w)(e_tid e \<mapsto> e\<lparr>e_type := CROSS\<rparr>)
      | NO_STATUS \<Rightarrow> pending w
      | _ \<Rightarrow> (pending w)(e_tid e := None))"
  using insertEntry_pending [OF assms] by simp

theorem insertEntry_refines_witness:
  "pending (insertEntry (WAL_init sample_file) (req_entry (sample_req 70) sample_ballot CROSS PREPARED)) 70 =
     Some (req_entry (sample_req 70) sample_ballot CROSS PREPARED)"
  using insertEntry_refines [of "WAL_init sample_file" "req_entry (sample_req 70) sample_ballot CROSS PREPARED"]
    sample_ok(2) [of 70]
  by (simp add: wal_req_ok_def int64_def) (simp add: req_entry_def)

text \<open>
  If the file cannot be read while it can still be written, a decision loses the
  transaction: the caller gets an entry without identifier, clients or amount, the index
  entry is gone, and no later decision can find it.
\<close>

theorem wal_unreadable_loses:
  assumes "transferIndex w t = Some pos" and "\<not> readable (walFile w)" and "writable (walFile w)"
  shows "e_tid (fst (wal_fin u ic t w)) = - 1 \<and> e_txn (fst (wal_fin u ic t w)) = e_txn no_entry
    \<and> wal_fin v ic' t (snd (wal_fin u ic t w)) = (no_entry, snd (wal_fin u ic t w))"
proof -
  have "getTransactionFromFile w u pos = no_entry"
    using assms(2) by (simp add: getTransactionFromFile_def split: option.split)
  then show ?thesis
    using assms
    by (simp add: wal_fin_def wal_commitTransaction_tid_def wal_abortTransaction_def wal_finish_def
      no_entry_def Let_def)
qed

theorem wal_unreadable_loses_witness:
  "e_tid (fst (wal_commitTransaction_tid \<lparr>walFile = sample_file\<lparr>readable := False\<rparr>, transferIndex = [9 \<mapsto> 0]\<rparr> no_entry 9)) = - 1"
  using wal_unreadable_loses [of "\<lparr>walFile = sample_file\<lparr>readable := False\<rparr>, transferIndex = [9 \<mapsto> 0]\<rparr>" 9 0 no_entry True no_entry True]
  by (simp add: sample_file_def wal_fin_def)

end
