(* ===== verification/Tpc_Money.thy ===== *)
theory Tpc_Money
  imports Tpc_Cluster
begin

text \<open>
  What the protocol does to the money: the wealth of a cluster, a cross-shard commit seen at
  both clusters, and the overdraft that the early release of locks at the replicas allows.
\<close>

section \<open>The wealth of a cluster\<close>

definition clients_of :: "constants \<Rightarrow> int \<Rightarrow> int set" where
  "clients_of cs k = {c \<in> {1..total_clients}. getClusterIdFromClientId cs c = k}"

text \<open>Committed transfers that enter a set of clients, less those that leave it.\<close>

definition flow :: "int set \<Rightarrow> WALEntry \<Rightarrow> int" where
  "flow C e =
     (if e_status e \<noteq> COMMITTED then 0
      else if receiver (e_txn e) \<in> C \<and> sender (e_txn e) \<notin> C then amount (e_txn e)
      else if sender (e_txn e) \<in> C \<and> receiver (e_txn e) \<notin> C then - amount (e_txn e)
      else 0)"

definition net_flow :: "int set \<Rightarrow> WALEntry list \<Rightarrow> int" where
  "net_flow C es = (\<Sum>e\<leftarrow>es. flow C e)"

lemma sum_effect: "finite C \<Longrightarrow> (\<Sum>c\<in>C. effect e c) = flow C e"
  by (simp add: effect_def flow_def sum_subtractf)

lemma sum_replay: "finite C \<Longrightarrow> (\<Sum>c\<in>C. replay es c) = net_flow C es"
  by (induction es) (simp_all add: replay_def net_flow_def sum.distrib sum_effect)

lemma i32_sum: "finite C \<Longrightarrow> i32 (\<Sum>c\<in>C. i32 (f c)) = i32 (\<Sum>c\<in>C. f c)"
proof (induction C rule: finite_induct)
  case (insert c C)
  have "i32 (i32 (f c) + (\<Sum>c\<in>C. i32 (f c))) = i32 (f c + i32 (\<Sum>c\<in>C. i32 (f c)))" by simp
  with insert show ?case by simp
qed simp

lemma sum_initial: "(\<Sum>c\<in>clients_of cs k. initial_balance cs k c) = 10 * int (card (clients_of cs k))"
  by (simp add: clients_of_def initial_balance_def)

lemma finite_clients: "finite (clients_of cs k)"
  by (rule finite_subset [of _ "{1..total_clients}"]) (auto simp: clients_of_def)

lemma wealth_replays:
  assumes "\<And>c. c \<in> clients_of cs k \<Longrightarrow> idx b c = i32 (initial_balance cs k c + replay es c)"
  shows "i32 (\<Sum>c\<in>clients_of cs k. idx b c) = i32 (10 * int (card (clients_of cs k)) + net_flow (clients_of cs k) es)"
proof -
  let ?C = "clients_of cs k"
  have "(\<Sum>c\<in>?C. idx b c) = (\<Sum>c\<in>?C. i32 (initial_balance cs k c + replay es c))"
    using assms by (intro sum.cong) simp_all
  also have "i32 \<dots> = i32 (\<Sum>c\<in>?C. initial_balance cs k c + replay es c)"
    by (rule i32_sum [OF finite_clients])
  also have "(\<Sum>c\<in>?C. initial_balance cs k c + replay es c) = 10 * int (card ?C) + net_flow ?C es"
    by (simp add: sum.distrib sum_initial sum_replay [OF finite_clients])
  finally show ?thesis .
qed

text \<open>
  No money is made or lost inside a cluster: in every reachable state the balances of
  its clients add up to ten units each, plus what committed cross-shard transfers brought in,
  less what they took out (modulo \<open>2^32\<close>, the arithmetic of the code). Transfers between
  clients of the cluster do not appear in the sum.
\<close>

theorem cluster_wealth:
  assumes "start_ok cs i f" and "server_run (started cs i name f v) s"
    and "getClusterIdFromServerId cs i = k"
  shows "i32 (\<Sum>c\<in>clients_of cs k. idx (balances s) c) =
    i32 (10 * int (card (clients_of cs k)) + net_flow (clients_of cs k) (log s))"
proof (rule wealth_replays)
  fix c assume "c \<in> clients_of cs k"
  then show "idx (balances s) c = i32 (initial_balance cs k c + replay (log s) c)"
    using reachable_balance [OF assms(1,2), of c] assms(3) by (simp add: clients_of_def)
qed

lemma demo_clients: "clients_of demo_constants 1 = {1..1000}"
  by (auto simp: clients_of_def total_clients_def client_cluster_iff int32_def)

theorem cluster_wealth_witness:
  "i32 (\<Sum>c\<in>{1..1000}. idx (balances demo_server) c) = 10000"
  using cluster_wealth [OF demo_start_ok server_run.stay demo_cluster, of "''S1''" plain_boot]
  by (simp add: demo_server_def [symmetric] demo_clients net_flow_def)

section \<open>A cross-shard commit at both clusters\<close>

lemma i32_transfer: "i32 (i32 (a - x) + i32 (b + x)) = i32 (a + b)"
proof -
  have "i32 (i32 (a - x) + i32 (b + x)) = i32 ((a - x) + (b + x))" by (simp only: i32_add)
  then show ?thesis by simp
qed

text \<open>
  C6. Atomicity across shards: take a server of the sender's cluster and one of the receiver's
  cluster, both connected and both with the same transaction prepared and undecided in a log
  file that can be written. When the same decision reaches both, either the amount leaves the
  sender at the one and reaches the receiver at the other (commit), or neither balance changes
  (abort); no other balance changes at either server, and the sum of the two balances is
  preserved, all in the \<open>int\<close> arithmetic of the code, that is modulo \<open>2^32\<close>. (A server that
  is disconnected or does not hold the transaction ignores the decision.)
\<close>

theorem cross_shard_atomic:
  assumes "data_ok base s" and "data_ok base' p"
    and "\<not> i_am_disconnected s" and "\<not> i_am_disconnected p"
    and "pending (wal s) t = Some e" and "pending (wal p) t = Some e'" and "e_txn e' = e_txn e"
    and "isClientInCluster s (sender (e_txn e))" and "\<not> isClientInCluster s (receiver (e_txn e))"
    and "isClientInCluster p (receiver (e_txn e))" and "\<not> isClientInCluster p (sender (e_txn e))"
  shows "idx (balances (processTpcDecision u t ic s)) =
        (idx (balances s))(sender (e_txn e) :=
           (if ic then i32 (idx (balances s) (sender (e_txn e)) - amount (e_txn e))
            else idx (balances s) (sender (e_txn e))))
    \<and> idx (balances (processTpcDecision u' t ic p)) =
        (idx (balances p))(receiver (e_txn e) :=
           (if ic then i32 (idx (balances p) (receiver (e_txn e)) + amount (e_txn e))
            else idx (balances p) (receiver (e_txn e))))
    \<and> i32 (idx (balances (processTpcDecision u t ic s)) (sender (e_txn e))
           + idx (balances (processTpcDecision u' t ic p)) (receiver (e_txn e)))
      = i32 (idx (balances s) (sender (e_txn e)) + idx (balances p) (receiver (e_txn e)))"
proof -
  have core: "core_ok base s" "core_ok base' p" using assms(1,2) by (simp_all add: data_ok_def)
  have "sender (e_txn e) \<noteq> receiver (e_txn e)" using assms(8,9) by metis
  then have eff: "idx (balances (processTpcDecision u t ic s)) c =
      (if ic \<and> isClientInCluster s c then moved (e_txn e) c (idx (balances s) c) else idx (balances s) c)"
    "idx (balances (processTpcDecision u' t ic p)) c =
      (if ic \<and> isClientInCluster p c then moved (e_txn e) c (idx (balances p) c) else idx (balances p) c)" for c
    using decision_effect(4) [OF core(1) assms(3,5), of u ic]
      decision_effect(4) [OF core(2) assms(4,6), of u' ic] assms(7) by simp_all
  then show ?thesis
    using assms(8-11) by (auto simp: moved_def fun_eq_iff i32_transfer)
qed

text \<open>A server of cluster 2 that has prepared the same transfer.\<close>

definition demo_far :: ServerImpl where
  "demo_far = prepareTransaction demo_cross demo_ballot (started demo_constants 4 ''S4'' demo_file plain_boot)"

lemma demo_far_simps:
  "data_ok (initial_balance demo_constants 2) demo_far"
  "pending (wal demo_far) 42 = Some (req_entry demo_cross demo_ballot CROSS PREPARED)"
  "\<not> i_am_disconnected demo_far" "idx (balances demo_far) 1500 = 10"
  "isClientInCluster demo_far 1500" "\<not> isClientInCluster demo_far 1"
proof -
  let ?s = "started demo_constants 4 ''S4'' demo_file plain_boot"
  have k: "getClusterIdFromServerId demo_constants 4 = 2"
    by (subst server_cluster_eq) (simp_all add: int32_def)
  then have "start_ok demo_constants 4 demo_file"
    by (simp add: start_ok_def config_ok_def demo_file_def int32_def)
  then have ok: "data_ok (initial_balance demo_constants 2) ?s"
    using started_ok [of demo_constants 4 demo_file "''S4''" plain_boot] k by (simp add: server_ok_def)
  then show "data_ok (initial_balance demo_constants 2) demo_far"
    by (simp add: demo_far_def prepareTransaction_ok)
  have "wal_ok (wal ?s)" "req_tid demo_cross = 42" using ok
    by (simp_all add: data_ok_def core_ok_def demo_cross_def)
  then show "pending (wal demo_far) 42 = Some (req_entry demo_cross demo_ballot CROSS PREPARED)"
    using wal_prepare_pending(1) [of "wal ?s" demo_cross demo_ballot] by (simp add: demo_far_def)
  have "isClientInCluster ?s c \<longleftrightarrow> getClusterIdFromClientId demo_constants c = 2" for c
    by (simp add: isClientInCluster_def k started_eq)
  then show "isClientInCluster demo_far 1500" "\<not> isClientInCluster demo_far 1"
    by (simp_all add: demo_far_def demo_cross_members)
  show "\<not> i_am_disconnected demo_far" by (simp add: demo_far_def started_eq)
  show "idx (balances demo_far) 1500 = 10"
    by (simp add: demo_far_def started_eq init_fold_balances isClientInCluster_def k
      demo_cross_members total_clients_def)
qed

theorem cross_shard_atomic_witness:
  "idx (balances (processTpcDecision no_entry 42 True demo_accepted)) 1 = 0
   \<and> idx (balances (processTpcDecision no_entry 42 True demo_far)) 1500 = 20"
proof -
  have "data_ok (initial_balance demo_constants 1) demo_accepted"
    using reachable_ok [OF demo_start_ok demo_accepted_run] by (simp add: server_ok_def)
  moreover have "\<not> i_am_disconnected demo_accepted" "balances demo_accepted = balances demo_server"
    "isClientInCluster demo_accepted 1" "\<not> isClientInCluster demo_accepted 1500"
    by (simp_all add: demo_accepted_eq isClientInCluster_def demo_cross_members)
  moreover have "e_txn (req_entry demo_cross demo_ballot CROSS PREPARED) =
      \<lparr>sender = 1, receiver = 1500, amount = 10\<rparr>" by (simp add: req_entry_def demo_cross_def)
  ultimately show ?thesis
    using cross_shard_atomic [of "initial_balance demo_constants 1" demo_accepted
        "initial_balance demo_constants 2" demo_far 42 "req_entry demo_cross demo_ballot CROSS PREPARED"
        "req_entry demo_cross demo_ballot CROSS PREPARED" no_entry True no_entry]
      demo_far_simps by (simp add: demo_accepted_pending)
qed

section \<open>Overdraft\<close>

lemma leader_round_frame [simp]:
  "i_am_disconnected (leader_round r x s) = i_am_disconnected s"
proof -
  have [simp]: "i_am_disconnected (commitTransaction r b s) = i_am_disconnected s" for r b s
    by (simp add: commitTransaction_def Let_def split: prod.split)
  have [simp]: "i_am_disconnected (take_locks y s) = i_am_disconnected s" for y s
    by (simp add: take_locks_def Let_def)
  show ?thesis
    by (simp add: leader_round_def conclude_def propose_def checked_def read_sender_def Let_def)
qed

lemma replica_round_connected:
  "can_accept b s \<Longrightarrow> in_cluster_count s (req_txn r) = 1 \<Longrightarrow> \<not> i_am_disconnected (replica_round b r s)"
  by (simp add: replica_round_def accepted_state processCommitCall_def can_accept_def unlock_own_def
    commitTransaction_def Let_def split: prod.split)

text \<open>
  C38. Because the replicas unlock the clients of a cross-shard transaction before its
  decision, a replica that becomes leader accepts another transfer from the same sender, one
  the balance covers; when the decision to commit arrives both amounts are taken from the
  balance, which is below zero when the two amounts together exceed it.
\<close>

theorem early_unlock_overdraws:
  assumes "data_ok base s" and "can_accept b s" and "req_ok r" and "bal_ok b"
    and "isClientInCluster s (sender (req_txn r))" and "\<not> isClientInCluster s (receiver (req_txn r))"
    and "sender (req_txn r2) = sender (req_txn r)" and "isClientInCluster s (receiver (req_txn r2))"
    and "receiver (req_txn r2) \<noteq> sender (req_txn r)" and "receiver (req_txn r2) \<notin> locks s"
    and "amount (req_txn r2) \<le> idx (balances s) (sender (req_txn r))"
  shows "\<not> conditions_fail (replica_round b r s) (req_txn r2)
    \<and> idx (balances (processTpcDecision u (req_tid r) True
          (leader_round r2 False (replica_round b r s)))) (sender (req_txn r))
      = i32 (idx (balances s) (sender (req_txn r)) - amount (req_txn r2) - amount (req_txn r))"
proof -
  let ?c = "sender (req_txn r)" let ?p = "replica_round b r s" let ?l = "leader_round r2 False ?p"
  have wal: "wal_ok (wal s)" and wr: "writable (walFile (wal s))"
    using assms(1) by (simp_all add: data_ok_def core_ok_def wal_ok_def)
  have n: "in_cluster_count s (req_txn r) = 1" using assms(5,6) by (simp add: in_cluster_count_def)
  note eff = replica_round_effect [OF assms(2) wr, of r]
  have p: "same_data (prepareTransaction r b s) ?p" using eff(1) n by simp
  then have ok_p: "data_ok base ?p"
    using same_data_data_ok prepareTransaction_ok [OF assms(1,3,4)] by blast
  then have wp: "wal_ok (wal ?p)" "writable (walFile (wal ?p))"
    by (simp_all add: data_ok_def core_ok_def wal_ok_def)
  have cl: "isClientInCluster ?p = isClientInCluster s"
    using same_config_trans [OF op_config(1) same_data_config [OF p]] by (rule same_config_clients)
  have bal: "idx (balances ?p) = idx (balances s)" using p by (simp add: same_data_def)
  have l: "same_data (commitTransaction r2 (promised_num ?p) ?p) ?l"
    using leader_round_data [OF wp(2), of False r2] by simp
  then have ok_l: "core_ok base ?l"
    using same_data_data_ok commitTransaction_ok [OF ok_p] by (auto simp: data_ok_def)
  have "isClientInCluster ?l = isClientInCluster s"
    using same_config_trans [OF op_config(2) same_data_config [OF l]] cl same_config_clients by metis
  moreover have "idx (balances ?l) ?c = i32 (idx (balances s) ?c - amount (req_txn r2))"
    using l commitTransaction_data(2) [OF wp(2)] assms(7,9) bal by (simp add: same_data_def)
  moreover have "pending (wal ?p) (req_tid r) = Some (req_entry r b CROSS PREPARED)"
    using p wal_prepare_pending(1) [OF wal entry_ok_req_entry [OF assms(3,4)]] by (simp add: same_data_def)
  then have "pending (wal ?l) (req_tid r) = Some (req_entry r b CROSS PREPARED)"
    using l wal_commit_pending(1) [OF wp(1)] by (simp add: same_data_def)
  moreover have "?c \<noteq> receiver (req_txn r)" using assms(5,6) by metis
  moreover have "\<not> i_am_disconnected ?l" using replica_round_connected [OF assms(2) n] by simp
  ultimately have "idx (balances (processTpcDecision u (req_tid r) True ?l)) ?c
      = i32 (idx (balances s) ?c - amount (req_txn r2) - amount (req_txn r))"
    using decision_effect(4) [OF ok_l, of "req_tid r" "req_entry r b CROSS PREPARED" u True ?c] assms(5)
    by (simp add: moved_def req_entry_def)
  moreover have "\<not> conditions_fail ?p (req_txn r2)"
    using assms(5,7-11) eff(2) n by (auto simp: conditions_fail_def locked_def cl bal)
  ultimately show ?thesis by blast
qed

theorem early_unlock_overdraws_witness:
  "\<not> conditions_fail (replica_round demo_ballot demo_cross demo_promised) (req_txn demo_req)
   \<and> idx (balances (processTpcDecision no_entry 42 True
        (leader_round demo_req False (replica_round demo_ballot demo_cross demo_promised)))) 1 = - 4"
proof -
  have "same_data demo_server demo_promised" "can_accept demo_ballot demo_promised"
    by (simp_all add: demo_promised_eq same_data_def can_accept_def)
  then have "data_ok (initial_balance demo_constants 1) demo_promised" "can_accept demo_ballot demo_promised"
    using same_data_data_ok demo_data_ok by blast+
  moreover have "isClientInCluster demo_promised c \<longleftrightarrow> getClusterIdFromClientId demo_constants c = 1"
    "balances demo_promised = balances demo_server" "locks demo_promised = {}" for c
    by (simp_all add: demo_promised_eq isClientInCluster_def)
  moreover have "req_txn demo_cross = \<lparr>sender = 1, receiver = 1500, amount = 10\<rparr>"
    "req_txn demo_req = \<lparr>sender = 1, receiver = 2, amount = 4\<rparr>" "req_tid demo_cross = 42"
    by (simp_all add: demo_cross_def demo_req_def)
  ultimately show ?thesis
    using early_unlock_overdraws [of "initial_balance demo_constants 1" demo_promised demo_ballot demo_cross
      demo_req no_entry] by (simp add: demo_cross_members)
qed

end
