(* ===== verification/Tpc_Server_Effects.thy ===== *)
theory Tpc_Server_Effects
  imports Tpc_Server_Steps
begin

text \<open>
  What each handler adds to the log and to the pending transactions of a server, and what it
  leaves of the proposer's state: the interface through which the model of the whole system
  uses the server.
\<close>

section \<open>Growth of the log\<close>

text \<open>
  The log is extended by \<open>es\<close>, and a transaction that is pending afterwards was pending before
  or is a prepared entry among them.
\<close>

definition grows :: "ServerImpl \<Rightarrow> WALEntry list \<Rightarrow> ServerImpl \<Rightarrow> bool" where
  "grows s es s' \<longleftrightarrow> log s' = log s @ es
     \<and> (\<forall>t e. pending (wal s') t = Some e \<longrightarrow>
          pending (wal s) t = Some e \<or> (\<exists>d \<in> set es. e_status d = PREPARED \<and> e = d\<lparr>e_type := CROSS\<rparr>))"

lemma same_data_grows: "same_data s s' \<Longrightarrow> grows s [] s'"
  by (simp add: same_data_def grows_def)

lemma grows_same: "grows s es t \<Longrightarrow> same_data t u \<Longrightarrow> grows s es u"
  by (simp add: same_data_def grows_def)

lemma prepareTransaction_grows:
  assumes "wal_ok (wal s)" and "req_ok r" and "bal_ok b"
  shows "grows s [req_entry r b CROSS PREPARED] (prepareTransaction r b s)"
  using wal_prepare_pending [OF assms(1) entry_ok_req_entry [OF assms(2,3)]]
  by (auto simp: grows_def req_entry_def)

lemma commitTransaction_grows:
  assumes "wal_ok (wal s)"
  shows "grows s [req_entry r b INTRA COMMITTED] (commitTransaction r b s)"
proof -
  have "writable (walFile (wal s))" using assms by (simp add: wal_ok_def)
  then show ?thesis
    using wal_commit_pending(1) [OF assms] commitTransaction_data(1) by (simp add: grows_def)
qed

lemma server_ok_parts:
  assumes "server_ok base s"
  shows "wal_ok (wal s)" and "bal_ok (promised_num s)" and "bal_ok (accept_num s)"
    and "req_ok (accept_val s)" and "core_ok base s" and "phase_ok s" and "index_ok s"
  using assms
  by (simp_all add: server_ok_def data_ok_def core_ok_def control_ok_def kept_ok_def)

lemma runPaxos_grows:
  assumes "server_ok base s" and "req_ok r"
  shows "\<exists>es. grows s es (runPaxos_state r res x s)
    \<and> set es \<subseteq> (if x then {req_entry r (promised_num s) CROSS PREPARED}
                else {req_entry r (accept_num s) INTRA COMMITTED})"
proof -
  note parts = server_ok_parts [OF assms(1)]
  from runPaxos_kind [OF server_ok_writable [OF assms(1)], of r res x]
  consider "same_data s (runPaxos_state r res x s)"
    | "x" "same_data (prepareTransaction r (promised_num s) s) (runPaxos_state r res x s)"
    | "\<not> x" "same_data (commitTransaction r (accept_num s) s) (runPaxos_state r res x s)" by blast
  then show ?thesis
  proof cases
    case 1
    then show ?thesis by (intro exI [of _ "[]"]) (simp add: same_data_grows)
  next
    case 2
    then show ?thesis
      using grows_same [OF prepareTransaction_grows [OF parts(1) assms(2) parts(2)]]
      by (intro exI [of _ "[req_entry r (promised_num s) CROSS PREPARED]"]) simp
  next
    case 3
    then show ?thesis
      using grows_same [OF commitTransaction_grows [OF parts(1)]]
      by (intro exI [of _ "[req_entry r (accept_num s) INTRA COMMITTED]"]) simp
  qed
qed

lemma processAcceptCall_grows:
  assumes "server_ok base s" and "req_ok (aq_r q)" and "bal_ok (aq_ballot q)"
  shows "\<exists>es. grows s es (fst (processAcceptCall q res s))
    \<and> (es = [] \<or> es = [req_entry (aq_r q) (aq_ballot q) CROSS PREPARED]
         \<and> in_cluster_count s (req_txn (aq_r q)) = 1)"
  using processAcceptCall_kind [of s q res] same_data_grows
    grows_same [OF prepareTransaction_grows [OF server_ok_parts(1) [OF assms(1)] assms(2,3)]]
  by blast

lemma processCommitCall_grows:
  assumes "server_ok base s"
  shows "\<exists>es. grows s es (processCommitCall q s)
    \<and> (es = [] \<or> es = [req_entry (accept_val s) (accept_num s) INTRA COMMITTED]
         \<and> in_cluster_count s (req_txn (accept_val s)) = 2)"
proof -
  have "grows s [] (reindexed s)" by (simp add: grows_def reindexed_def)
  then show ?thesis
    using processCommitCall_kind [OF server_ok_writable [OF assms], of q] same_data_grows grows_same
      commitTransaction_grows [OF server_ok_parts(1) [OF assms]] by blast
qed

lemma processTpcDecision_grows:
  assumes "server_ok base s"
  shows "\<exists>es. grows s es (processTpcDecision u t ic s)
    \<and> (\<forall>d \<in> set es. \<exists>e. pending (wal s) t = Some e \<and> d = decided ic e)"
proof (cases "i_am_disconnected s \<or> pending (wal s) t = None")
  case True
  then have "processTpcDecision u t ic s = s"
    using processTpcDecision_unknown [OF server_ok_parts(5) [OF assms], of t u ic]
    by (cases "i_am_disconnected s") (simp add: processTpcDecision_def, simp)
  then show ?thesis by (intro exI [of _ "[]"]) (simp add: same_data_grows)
next
  case False
  then obtain e where e: "pending (wal s) t = Some e" and d: "\<not> i_am_disconnected s" by auto
  note eq = processTpcDecision_pending [OF server_ok_parts(5) [OF assms] d e, of u ic]
  have "grows s [decided ic e] (processTpcDecision u t ic s)"
    using wal_log.pend_fin [OF server_ok_parts(1) [OF assms], of u ic t]
    by (simp add: eq grows_def)
  then show ?thesis using e by (intro exI [of _ "[decided ic e]"]) simp
qed

lemma sync_entry_grows:
  assumes "wal_ok (wal s)" and "log_entry_ok l"
  shows "grows s [entry_of_LogEntry l] (sync_entry l s)" and "wal_ok (wal (sync_entry l s))"
proof -
  have e: "entry_ok (entry_of_LogEntry l)" using assms(2) by (simp add: log_entry_ok_def)
  note ins = insertEntry_pending [OF assms(1) e]
  show "wal_ok (wal (sync_entry l s))" by (simp add: ins(2))
  show "grows s [entry_of_LogEntry l] (sync_entry l s)"
    by (auto simp: grows_def ins(1) split: TransactionStatus.splits if_splits)
qed

lemma sync_fold_grows:
  assumes "wal_ok (wal s)" and "list_all log_entry_ok ls"
  shows "grows s (map entry_of_LogEntry ls) (fold sync_entry ls s)"
  using assms
proof (induction ls arbitrary: s)
  case Nil
  then show ?case by (simp add: grows_def)
next
  case (Cons l ls)
  then have "grows (sync_entry l s) (map entry_of_LogEntry ls) (fold sync_entry ls (sync_entry l s))"
    using sync_entry_grows(2) by simp
  moreover have "grows s [entry_of_LogEntry l] (sync_entry l s)"
    using Cons.prems sync_entry_grows(1) by simp
  ultimately show ?case by (fastforce simp: grows_def)
qed

lemma handleSyncReply_grows:
  assumes "server_ok base s" and "list_all log_entry_ok (sr_logs res)"
  shows "\<exists>es. grows s es (handleSyncReply st res s) \<and> set es \<subseteq> entry_of_LogEntry ` set (sr_logs res)"
proof (cases "st = StatusOK \<and> sr_ack res")
  case True
  then show ?thesis
    using sync_fold_grows [OF server_ok_parts(1) [OF assms(1)] assms(2)]
    by (intro exI [of _ "map entry_of_LogEntry (sr_logs res)"])
      (simp add: handleSyncReply_def grows_def Let_def)
next
  case False
  then show ?thesis
    by (intro exI [of _ "[]"]) (auto simp: handleSyncReply_def grows_def Let_def)
qed

section \<open>The state of the proposer\<close>

text \<open>
  Every handler but \<open>runPaxos\<close> leaves the transaction being proposed alone and starts no accept
  phase; the value kept for the commit is the old one or \<open>v\<close>.
\<close>

definition keeps_round :: "TransferReq \<Rightarrow> ServerImpl \<Rightarrow> ServerImpl \<Rightarrow> bool" where
  "keeps_round v s s' \<longleftrightarrow> server_id s' = server_id s \<and> stubs s' = stubs s \<and> paxos_tid s' = paxos_tid s
     \<and> (await_accept_decision s' \<longrightarrow> await_accept_decision s)
     \<and> (accept_val s' = accept_val s \<or> accept_val s' = v)"

named_theorems keeps

lemma keeps_refl [simp]: "keeps_round v s s"
  by (simp add: keeps_round_def)

lemma keeps_trans: "keeps_round v s t \<Longrightarrow> keeps_round v t u \<Longrightarrow> keeps_round v s u"
  by (auto simp: keeps_round_def)

lemma keeps_prepare [keeps]: "keeps_round v s (fst (processPrepareCall q res s))"
  by (auto simp: processPrepareCall_def keeps_round_def Let_def)

lemma keeps_accept [keeps]: "keeps_round (aq_r q) s (fst (processAcceptCall q res s))"
  by (auto simp: processAcceptCall_def keeps_round_def lock_own_def Let_def)

lemma keeps_commit [keeps]: "keeps_round v s (processCommitCall q s)"
  by (auto simp: processCommitCall_def keeps_round_def unlock_own_def Let_def)

lemma keeps_ops:
  "keeps_round v s (push_log e s)" "keeps_round v s (s\<lparr>wal := w\<rparr>)" "keeps_round v s (settle ic c d s)"
  "keeps_round v s (sync_credit e c d s)"
  by (simp_all add: keeps_round_def push_log_def settle_def sync_credit_def balance_add_def
    updateBalance_def Let_def)

lemma keeps_decision [keeps]: "keeps_round v s (processTpcDecision u t ic s)"
proof -
  have "keeps_round v s (push_log e (s\<lparr>wal := w\<rparr>))" "keeps_round v s (s\<lparr>wal := w\<rparr>)" for e w
    using keeps_ops(2) keeps_trans [OF keeps_ops(2) keeps_ops(1)] by simp_all
  then show ?thesis
    by (auto simp: processTpcDecision_wal_fin Let_def split: prod.split
      intro!: keeps_trans [OF _ keeps_ops(3)])
qed

lemma keeps_sync_entry: "keeps_round v s (sync_entry l s)"
  unfolding sync_entry_def Let_def
  by (intro keeps_trans [OF _ keeps_ops(4)] keeps_trans [OF keeps_ops(1) keeps_ops(2)])

lemma keeps_sync_fold: "keeps_round v s (fold sync_entry ls s)"
  by (induction ls arbitrary: s) (auto intro: keeps_trans keeps_sync_entry)

lemma keeps_sync [keeps]: "keeps_round v s (handleSyncReply st res s)"
  using keeps_sync_fold [of v s "sr_logs res"] by (auto simp: handleSyncReply_def keeps_round_def Let_def)

lemma keeps_prepare_reply [keeps]: "keeps_round v s (fst (handlePrepareReply st q res s))"
  by (auto simp: handlePrepareReply_def keeps_round_def Let_def split: option.split)

lemma keeps_accept_reply [keeps]: "keeps_round v s (handleAcceptReply st q res s)"
  by (auto simp: handleAcceptReply_def keeps_round_def)

lemma keeps_balance [keeps]: "keeps_round v s (fst (processGetBalanceCall c s))"
  by (simp add: processGetBalanceCall_def keeps_round_def)

lemma keeps_mark: "keeps_round v s (mark_disconnected name s)"
  by (auto simp: mark_disconnected_def lookup_server_def keeps_round_def Let_def split: option.split)

lemma keeps_fold_mark: "keeps_round v s (fold mark_disconnected names s)"
  by (induction names arbitrary: s) (auto intro: keeps_trans keeps_mark)

lemma keeps_disconnect [keeps]: "keeps_round v s (processDisconnectCall names s)"
  using keeps_fold_mark [of v "resetDisconnectedState s" names]
  by (simp add: processDisconnectCall_def keeps_round_def resetDisconnectedState_def)

section \<open>Calls of runPaxos\<close>

lemma runPaxos_frame:
  "server_id (runPaxos_state r res x s) = server_id s" "stubs (runPaxos_state r res x s) = stubs s"
  "accept_val (runPaxos_state r res x s) \<in> {accept_val s, r}"
proof -
  obtain fin s' res' msgs where eq: "runPaxos r res x s = (fin, s', res', msgs)"
    by (metis prod_cases4)
  then have "server_id s' = server_id s \<and> stubs s' = stubs s \<and> accept_val s' \<in> {accept_val s, r}"
    by (cases rule: runPaxos_cases)
      (auto simp: start_round_def propose_def conclude_def stopped_def released_def Let_def split: if_splits)
  with eq show "server_id (runPaxos_state r res x s) = server_id s"
    "stubs (runPaxos_state r res x s) = stubs s" "accept_val (runPaxos_state r res x s) \<in> {accept_val s, r}"
    by simp_all
qed

text \<open>
  An accept phase is that of the transaction being served, and was begun with an entry in the
  log when that transaction is cross-shard.
\<close>

lemma runPaxos_accept_phase:
  assumes "runPaxos r res x s = (fin, s', res', msgs)" and "phase_ok s" and "await_accept_decision s'"
  shows "s' = s \<and> await_accept_decision s \<or> paxos_tid s' = req_tid r
    \<and> (x \<longrightarrow> req_entry r (promised_num s) CROSS PREPARED \<in> set (log s'))"
  using assms(1)
proof (cases rule: runPaxos_cases)
  case proposed
  then have "\<not> await_prepare_decision s'"
    by (auto simp: propose_def Let_def split: if_splits)
  with proposed(2) have "s' \<noteq> s" by blast
  then have "free_for r s" using assms(1) runPaxos_blocked [of r s res x] by (cases "free_for r s") auto
  then have "paxos_tid s = req_tid r"
    using assms(2) proposed by (auto simp: free_for_def phase_ok_def)
  moreover have "paxos_tid s' = paxos_tid s"
    using proposed by (auto simp: propose_def Let_def split: if_splits)
  moreover have "req_entry r (promised_num s) CROSS PREPARED \<in> set (log s')" if x
    using proposed that by (auto simp: propose_def Let_def)
  ultimately show ?thesis by simp
next
  case idle
  with assms(3) show ?thesis by simp
next
  case start
  then have "\<not> await_accept_decision s'" by (auto simp: start_round_def Let_def)
  with assms(3) show ?thesis by simp
next
  case reject
  then have "\<not> await_accept_decision s'" using assms(2) by (auto simp: stopped_def phase_ok_def)
  with assms(3) show ?thesis by simp
next
  case no_quorum
  then have "\<not> await_accept_decision s'" using assms(2) by (auto simp: stopped_def phase_ok_def)
  with assms(3) show ?thesis by simp
next
  case concluded
  then have "\<not> await_accept_decision s'" by (auto simp: conclude_def Let_def)
  with assms(3) show ?thesis by simp
next
  case refused
  then have "\<not> await_accept_decision s'" by (auto simp: stopped_def released_def)
  with assms(3) show ?thesis by simp
qed

lemma runPaxos_finished:
  assumes "runPaxos r res x s = (True, s', res', msgs)" and "phase_ok s"
  shows "res_tid res' = req_tid r"
    and "res_ack res' \<Longrightarrow> await_accept_decision s \<and> paxos_tid s = req_tid r"
proof -
  have free: "free_for r s" using assms(1) runPaxos_blocked [of r s res x] by force
  show "res_tid res' = req_tid r"
    using assms(1) by (auto simp: runPaxos_def Let_def split: if_splits prod.splits)
  show "await_accept_decision s \<and> paxos_tid s = req_tid r" if "res_ack res'"
    using assms(1)
  proof (cases rule: runPaxos_cases)
    case concluded
    then show ?thesis using free assms(2) by (auto simp: free_for_def phase_ok_def)
  qed (use that in simp_all)
qed

lemma runPaxos_acked:
  assumes "runPaxos r res False s = (True, s', res', msgs)" and "res_ack res'" and "writable (walFile (wal s))"
  shows "req_entry r (accept_num s) INTRA COMMITTED \<in> set (log s')"
  using assms(1)
proof (cases rule: runPaxos_cases)
  case concluded
  then have "same_data (commitTransaction r (accept_num s) s) s'"
    using conclude_data [OF assms(3), of False r] by simp
  then show ?thesis using commitTransaction_data(1) [OF assms(3)] by (simp add: same_data_def)
qed (use assms(2) in simp_all)

lemma runPaxos_messages:
  assumes "runPaxos r res x s = (fin, s', res', msgs)" and "m \<in> set msgs"
  obtains
    (prepare) i q where "m = SendPrepare i q" "i \<in> set (stubs s)" "int32 (bal_num (pq_ballot q))"
      "bal_server_id (pq_ballot q) = server_id s"
  | (accept) i where "m = SendAccept i \<lparr>aq_ballot = promised_num s, aq_r = r\<rparr>" "i \<in> set (stubs s)"
  | (commit) i where "m = SendCommit i \<lparr>cq_ballot = accept_num s\<rparr>" "i \<in> set (stubs s)"
  using assms(1)
proof (cases rule: runPaxos_cases)
  case start
  then show thesis using assms(2) prepare by (auto simp: start_round_def Let_def)
next
  case proposed
  then show thesis using assms(2) accept propose_effect(3) [of r x "checked r s"] by auto
next
  case concluded
  then show thesis using assms(2) commit conclude_effect(2) [of r x s] by auto
qed (use assms(2) in auto)

end
