(* ===== verification/Tpc_Rounds.thy ===== *)
theory Tpc_Rounds
  imports Tpc_Paxos Tpc_Server_Effects
begin

text \<open>
  One exchange of a prepare request and its answer, and the end of a round. With two peers that are heard of, every round ends; with fewer it can wait
  for ever. And what happens to a proposer that promises the ballot of another one in the
  middle of its own round.
\<close>

section \<open>A prepare request and its answer\<close>

text \<open>
  The proposer \<open>s\<close> asks the replica \<open>p\<close> and hears its answer: both states afterwards, and what
  each of the two sends.
\<close>

definition prepare_exchange ::
  "ServerImpl \<Rightarrow> ServerImpl \<Rightarrow> ServerImpl \<times> ServerImpl \<times> OutMsg list \<times> OutMsg list" where
  "prepare_exchange s p =
     (let q = \<lparr>pq_ballot = promised_num s, pq_last_inserted = last_inserted s\<rparr>;
          (p', res, from_p) = processPrepareCall q no_PrepareRes p;
          (s', from_s) = handlePrepareReply StatusOK q res s
      in (s', p', from_s, from_p))"

definition in_own_round :: "ServerImpl \<Rightarrow> bool" where
  "in_own_round s \<longleftrightarrow> await_prepare_decision s
     \<and> promised_num s = \<lparr>bal_num = ballot_num s, bal_server_id = server_id s\<rparr>"

text \<open>
  C18. What a proposer that awaits promises for its own ballot and a connected replica of its
  cluster make of the prepare request and its answer depends on their log positions and ballot
  numbers only. Equal positions and a ballot higher than any the replica knows: the replica promises
  and the proposer counts it. A replica behind, for which the ballot is higher, asks the proposer
  for the entries after its own position, and the proposer counts a refusal. A replica ahead
  changes nothing; the proposer counts a refusal, gives up its round, takes over the replica's
  ballot number if it is higher, and asks that replica for the entries after its position.
  Otherwise the replica changes nothing, and the proposer counts a refusal and gives up its round
  with the replica's ballot number. If the positions are equal in that case, the proposer serves no
  other request, awaits nothing else and the number is not the greatest \<open>int\<close>, then its next attempt
  sends a prepare request that the same replica promises.
\<close>

theorem prepare_exchange_cases:
  assumes "in_own_round s" and "\<not> i_am_disconnected p"
    and "server_id s \<in> set (stubs p)" and "server_id p \<in> set (stubs s)"
  defines "refused \<equiv> s\<lparr>prepare_failures := i32 (prepare_failures s + 1)\<rparr>"
  shows "prepare_exchange s p =
     (if last_inserted s < last_inserted p
      then (refused\<lparr>ballot_num := max (ballot_num s) (ballot_num p), await_prepare_decision := False, in_sync := True\<rparr>,
            p, [SendSync (server_id p) (last_inserted s)], [])
      else if ballot_num s \<le> ballot_num p
      then (refused\<lparr>ballot_num := ballot_num p, await_prepare_decision := False\<rparr>, p, [], [])
      else if last_inserted p < last_inserted s
      then (refused, p\<lparr>in_sync := True\<rparr>, [], [SendSync (server_id s) (last_inserted p)])
      else (s\<lparr>prepare_successes := i32 (prepare_successes s + 1)\<rparr>,
            p\<lparr>promised := True, promised_num := promised_num s, ballot_num := ballot_num s\<rparr>, [], []))
   \<and> (last_inserted s = last_inserted p \<and> ballot_num s \<le> ballot_num p \<and> int32 (ballot_num p + 1)
        \<and> free_for r s \<and> \<not> await_accept_decision s \<longrightarrow>
      (\<exists>q. snd (snd (snd (runPaxos r res x (fst (prepare_exchange s p))))) = map (\<lambda>i. SendPrepare i q) (stubs s)
         \<and> pr_ack (fst (snd (processPrepareCall q no_PrepareRes p)))))"
proof -
  have own: "await_prepare_decision s" "bal_num (promised_num s) = ballot_num s" "bal_server_id (promised_num s) = server_id s"
    using assms(1) by (simp_all add: in_own_round_def)
  have eq: "prepare_exchange s p =
     (if last_inserted s < last_inserted p
      then (refused\<lparr>ballot_num := max (ballot_num s) (ballot_num p), await_prepare_decision := False, in_sync := True\<rparr>,
            p, [SendSync (server_id p) (last_inserted s)], [])
      else if ballot_num s \<le> ballot_num p
      then (refused\<lparr>ballot_num := ballot_num p, await_prepare_decision := False\<rparr>, p, [], [])
      else if last_inserted p < last_inserted s
      then (refused, p\<lparr>in_sync := True\<rparr>, [], [SendSync (server_id s) (last_inserted p)])
      else (s\<lparr>prepare_successes := i32 (prepare_successes s + 1)\<rparr>,
            p\<lparr>promised := True, promised_num := promised_num s, ballot_num := ballot_num s\<rparr>, [], []))"
  proof -
    consider (ahead) "last_inserted s < last_inserted p" | (lower) "last_inserted p \<le> last_inserted s" "ballot_num s \<le> ballot_num p"
      | (behind) "last_inserted p < last_inserted s" "ballot_num p < ballot_num s"
      | (promise) "last_inserted p = last_inserted s" "ballot_num p < ballot_num s" by linarith
    then show ?thesis
      by cases (use own assms(2-4) in \<open>simp_all add: prepare_exchange_def processPrepareCall_def
        handlePrepareReply_def send_sync_def refused_def no_PrepareRes_def Let_def\<close>)
  qed
  have "\<exists>q. snd (snd (snd (runPaxos r res x (fst (prepare_exchange s p))))) = map (\<lambda>i. SendPrepare i q) (stubs s)
      \<and> pr_ack (fst (snd (processPrepareCall q no_PrepareRes p)))"
    if low: "last_inserted s = last_inserted p" "ballot_num s \<le> ballot_num p" "int32 (ballot_num p + 1)"
      and free: "free_for r s" "\<not> await_accept_decision s"
  proof -
    let ?s = "refused\<lparr>ballot_num := ballot_num p, await_prepare_decision := False\<rparr>"
    let ?q = "\<lparr>pq_ballot = \<lparr>bal_num = ballot_num p + 1, bal_server_id = server_id s\<rparr>, pq_last_inserted = last_inserted s\<rparr>"
    have "runPaxos r res x ?s = (False, fst (start_round (req_tid r) ?s), res\<lparr>res_tid := req_tid r\<rparr>, snd (start_round (req_tid r) ?s))"
      using free by (intro runPaxos_starting) (simp_all add: free_for_def refused_def)
    moreover have "snd (start_round (req_tid r) ?s) = map (\<lambda>i. SendPrepare i ?q) (stubs s)"
      by (simp add: start_round_def refused_def i32_id [OF low(3)] Let_def)
    moreover have "pr_ack (fst (snd (processPrepareCall ?q no_PrepareRes p)))"
      using low(1) assms(2) by (simp add: prepare_response)
    ultimately show ?thesis using low(1,2) by (intro exI [of _ ?q]) (simp add: eq)
  qed
  then show ?thesis using eq by blast
qed

text \<open>The deployment's server asks a peer that has seen a higher ballot, and one that lags behind.\<close>

definition demo_asking :: ServerImpl where
  "demo_asking = demo_ready\<lparr>prepare_successes := 1, promised_num := \<lparr>bal_num = 0, bal_server_id = 1\<rparr>\<rparr>"

theorem prepare_exchange_cases_witness:
  "(\<exists>q. snd (snd (snd (runPaxos demo_req no_TransferRes False
          (fst (prepare_exchange demo_asking (demo_ready\<lparr>server_id := 2, stubs := [1, 3], ballot_num := 5\<rparr>))))))
        = map (\<lambda>i. SendPrepare i q) [2, 3]
      \<and> pr_ack (fst (snd (processPrepareCall q no_PrepareRes (demo_ready\<lparr>server_id := 2, stubs := [1, 3], ballot_num := 5\<rparr>)))))
   \<and> snd (snd (snd (prepare_exchange demo_asking (demo_ready\<lparr>server_id := 2, stubs := [1, 3], ballot_num := - 1, last_inserted := - 2\<rparr>))))
     = [SendSync 1 (- 2)]"
proof -
  let ?p = "demo_ready\<lparr>server_id := 2, stubs := [1, 3], ballot_num := 5\<rparr>"
  let ?b = "demo_ready\<lparr>server_id := 2, stubs := [1, 3], ballot_num := - 1, last_inserted := - 2\<rparr>"
  have d: "\<not> i_am_disconnected demo_ready" "ballot_num demo_ready = 0" "server_id demo_ready = 1" "last_inserted demo_ready = - 1"
    "\<not> await_accept_decision demo_ready"
    by (simp_all add: demo_ready_def)
  have own: "in_own_round demo_asking" "free_for demo_req demo_asking" "stubs demo_asking = [2, 3]"
    "last_inserted demo_asking = - 1" "ballot_num demo_asking = 0" "server_id demo_asking = 1" "\<not> await_accept_decision demo_asking"
    using d demo_ready_free(1,2) by (simp_all add: demo_asking_def in_own_round_def free_for_def)
  have p: "\<not> i_am_disconnected ?p" "server_id demo_asking \<in> set (stubs ?p)" "server_id ?p \<in> set (stubs demo_asking)"
    and b: "\<not> i_am_disconnected ?b" "server_id demo_asking \<in> set (stubs ?b)" "server_id ?b \<in> set (stubs demo_asking)"
    using own d by simp_all
  have "last_inserted demo_asking = last_inserted ?p \<and> ballot_num demo_asking \<le> ballot_num ?p
      \<and> int32 (ballot_num ?p + 1) \<and> free_for demo_req demo_asking \<and> \<not> await_accept_decision demo_asking"
    using own d by (simp add: int32_def)
  note retry = prepare_exchange_cases [OF own(1) p, THEN conjunct2, THEN mp, OF this, of no_TransferRes False]
  have "snd (snd (snd (prepare_exchange demo_asking ?b))) = [SendSync 1 (- 2)]"
    using prepare_exchange_cases [OF own(1) b, THEN conjunct1] own(4-6) by simp
  then show ?thesis using retry unfolding own(3) by blast
qed

section \<open>Counting replies\<close>

definition own_ballot :: "Ballot \<Rightarrow> Ballot \<Rightarrow> ServerImpl \<Rightarrow> bool" where
  "own_ballot b c s \<longleftrightarrow> bal_num b = bal_num c \<and> bal_server_id b = server_id s"

text \<open>
  A reply that is counted: a refusal or a promise for the ballot of the round that brings no
  news about ballots or positions, or a call of the round that timed out.
\<close>

definition prepare_counts :: "ServerImpl \<Rightarrow> Status \<times> PrepareReq \<times> PrepareRes \<Rightarrow> bool" where
  "prepare_counts s = (\<lambda>(st, q, res).
     st = DEADLINE_EXCEEDED \<and> own_ballot (pq_ballot q) (promised_num s) s
     \<or> st = StatusOK \<and> own_ballot (pr_ballot res) (promised_num s) s
        \<and> pr_latest_ballot_num res = None \<and> pr_last_inserted res = None)"

definition accept_counts :: "ServerImpl \<Rightarrow> Status \<times> AcceptReq \<times> AcceptRes \<Rightarrow> bool" where
  "accept_counts s = (\<lambda>(st, q, res).
     st = DEADLINE_EXCEEDED \<and> own_ballot (aq_ballot q) (accept_num s) s
     \<or> st = StatusOK \<and> own_ballot (ar_ballot res) (accept_num s) s)"

definition prepare_replies :: "(Status \<times> PrepareReq \<times> PrepareRes) list \<Rightarrow> ServerImpl \<Rightarrow> ServerImpl" where
  "prepare_replies rs s = fold (\<lambda>(st, q, res) s. fst (handlePrepareReply st q res s)) rs s"

definition accept_replies :: "(Status \<times> AcceptReq \<times> AcceptRes) list \<Rightarrow> ServerImpl \<Rightarrow> ServerImpl" where
  "accept_replies rs s = fold (\<lambda>(st, q, res) s. handleAcceptReply st q res s) rs s"

abbreviation prepare_tally :: "int \<Rightarrow> int \<Rightarrow> ServerImpl \<Rightarrow> ServerImpl" where
  "prepare_tally m k s \<equiv> s\<lparr>prepare_successes := m, prepare_failures := k\<rparr>"

abbreviation accept_tally :: "int \<Rightarrow> int \<Rightarrow> ServerImpl \<Rightarrow> ServerImpl" where
  "accept_tally m k s \<equiv> s\<lparr>accept_successes := m, accept_failures := k\<rparr>"

text \<open>The yes votes among counted replies.\<close>

definition prepare_yes :: "Status \<times> PrepareReq \<times> PrepareRes \<Rightarrow> bool" where
  "prepare_yes = (\<lambda>(st, q, res). st = StatusOK \<and> pr_ack res)"

definition accept_yes :: "Status \<times> AcceptReq \<times> AcceptRes \<Rightarrow> bool" where
  "accept_yes = (\<lambda>(st, q, res). st = StatusOK \<and> ar_ack res)"

lemma prepare_replies_tally:
  assumes "await_prepare_decision s" and "list_all (prepare_counts s) rs"
    and "0 \<le> m" and "0 \<le> k" and "m + k + int (length rs) \<le> 2147483647"
  shows "prepare_replies rs (prepare_tally m k s) =
    prepare_tally (m + int (length (filter prepare_yes rs))) (k + int (length (filter (\<lambda>x. \<not> prepare_yes x) rs))) s"
  using assms(2-5)
proof (induction rs arbitrary: m k)
  case (Cons x rs)
  obtain st q res where x: "x = (st, q, res)" by (cases x)
  have i: "i32 (m + 1) = m + 1" "i32 (k + 1) = k + 1" using Cons.prems by (simp_all add: i32_id int32_def)
  have "fst (handlePrepareReply st q res (prepare_tally m k s)) =
      (if prepare_yes x then prepare_tally (m + 1) k s else prepare_tally m (k + 1) s)"
    using Cons.prems(1) assms(1) i unfolding x
    by (cases "st = StatusOK"; cases "pr_ack res")
      (simp_all add: handlePrepareReply_def prepare_counts_def own_ballot_def prepare_yes_def Let_def)
  then show ?case
    using Cons.IH [of "m + 1" k] Cons.IH [of m "k + 1"] Cons.prems
    by (simp add: prepare_replies_def x algebra_simps)
qed (simp add: prepare_replies_def)

lemma accept_replies_tally:
  assumes "await_accept_decision s" and "list_all (accept_counts s) rs"
    and "0 \<le> m" and "0 \<le> k" and "m + k + int (length rs) \<le> 2147483647"
  shows "accept_replies rs (accept_tally m k s) =
    accept_tally (m + int (length (filter accept_yes rs))) (k + int (length (filter (\<lambda>x. \<not> accept_yes x) rs))) s"
  using assms(2-5)
proof (induction rs arbitrary: m k)
  case (Cons x rs)
  obtain st q res where x: "x = (st, q, res)" by (cases x)
  have i: "i32 (m + 1) = m + 1" "i32 (k + 1) = k + 1" using Cons.prems by (simp_all add: i32_id int32_def)
  have "handleAcceptReply st q res (accept_tally m k s) =
      (if accept_yes x then accept_tally (m + 1) k s else accept_tally m (k + 1) s)"
    using Cons.prems(1) assms(1) i unfolding x
    by (cases "st = StatusOK"; cases "ar_ack res")
      (simp_all add: handleAcceptReply_def accept_counts_def own_ballot_def accept_yes_def)
  then show ?case
    using Cons.IH [of "m + 1" k] Cons.IH [of m "k + 1"] Cons.prems
    by (simp add: accept_replies_def x algebra_simps)
qed (simp add: accept_replies_def)

text \<open>One vote of its own and two replies decide.\<close>

lemma two_decide:
  assumes "2 \<le> length rs"
  shows "MAJORITY \<le> 1 + int (length (filter P rs)) \<or> MAJORITY \<le> int (length (filter (\<lambda>x. \<not> P x) rs))"
  using sum_length_filter_compl [of P rs] assms by (simp add: MAJORITY_def) linarith

section \<open>Rounds end\<close>

definition round_open :: "TransferReq \<Rightarrow> ServerImpl \<Rightarrow> bool" where
  "round_open r s \<longleftrightarrow> free_for r s \<and> await_prepare_decision s \<and> prepare_successes s = 1 \<and> prepare_failures s = 0"

lemma prepares_of_round:
  assumes "round_open r s" and "list_all (prepare_counts s) rs" and "length rs < 2147483647"
  shows "prepare_replies rs s = prepare_tally (1 + int (length (filter prepare_yes rs)))
    (int (length (filter (\<lambda>x. \<not> prepare_yes x) rs))) s"
proof -
  have s: "prepare_tally 1 0 s = s" using assms(1) by (cases s) (simp add: round_open_def)
  show ?thesis
    using prepare_replies_tally [of s rs 1 0] assms unfolding s by (simp add: round_open_def)
qed

lemma free_for_tally [simp]:
  "free_for r (prepare_tally m k s) = free_for r s" "free_for r (accept_tally m k s) = free_for r s"
  by (simp_all add: free_for_def)

lemma proposed_state:
  assumes "free_for r s"
  shows "free_for r (fst (propose r x (checked r s)))" "await_accept_decision (fst (propose r x (checked r s)))"
    "\<not> await_prepare_decision (fst (propose r x (checked r s)))"
    "accept_successes (fst (propose r x (checked r s))) = 1" "accept_failures (fst (propose r x (checked r s))) = 0"
    "accept_num (fst (propose r x (checked r s))) = promised_num s"
    "server_id (fst (propose r x (checked r s))) = server_id s"
  using assms
  by (simp_all add: propose_def free_for_def checked_def read_sender_def take_locks_def prepareTransaction_def
    push_log_def Let_def split: prod.split)

text \<open>
  C12. A round ends: once a proposer has heard of two peers after each of its two rounds of
  requests, by a promise, a refusal without news or a timeout, the next attempt of \<open>runPaxos\<close>
  gives the answer, in the prepare phase or in the accept phase.
\<close>

theorem round_terminates:
  assumes "round_open r s" and "list_all (prepare_counts s) ps" and "2 \<le> length ps" and "length ps < 2147483647"
  shows "fst (runPaxos r res x (prepare_replies ps s))
    \<or> (let s' = runPaxos_state r res x (prepare_replies ps s)
       in await_accept_decision s' \<and> (\<forall>as res'. list_all (accept_counts s') as \<longrightarrow> 2 \<le> length as \<longrightarrow>
            length as < 2147483647 \<longrightarrow> fst (runPaxos r res' x (accept_replies as s'))))"
proof -
  define t where "t = prepare_replies ps s"
  have t: "t = prepare_tally (1 + int (length (filter prepare_yes ps))) (int (length (filter (\<lambda>x. \<not> prepare_yes x) ps))) s"
    unfolding t_def by (rule prepares_of_round [OF assms(1,2,4)])
  have free: "free_for r t" "await_prepare_decision t" using assms(1) by (simp_all add: t round_open_def)
  have counted: "MAJORITY \<le> prepare_successes t \<or> MAJORITY \<le> prepare_failures t"
    using two_decide [OF assms(3), of prepare_yes] by (simp add: t)
  define u where "u = fst (propose r x (checked r t))"
  note u = proposed_state [OF free(1), of x, folded u_def]
  have "fst (runPaxos r res' x (accept_replies as u))"
    if "list_all (accept_counts u) as" "2 \<le> length as" "length as < 2147483647" for as res'
  proof -
    have eq: "accept_tally 1 0 u = u" using u(4,5) by (cases u) simp
    have "accept_replies as u = accept_tally (1 + int (length (filter accept_yes as)))
        (int (length (filter (\<lambda>x. \<not> accept_yes x) as))) u"
      using accept_replies_tally [OF u(2) that(1), of 1 0] that(3) unfolding eq by simp
    then show ?thesis
      using two_decide [OF that(2), of accept_yes] u(1-3) by (auto simp: runPaxos_awaiting_accept)
  qed
  then have "fst (runPaxos r res x t) \<or> (let s' = runPaxos_state r res x t in await_accept_decision s'
      \<and> (\<forall>as res'. list_all (accept_counts s') as \<longrightarrow> 2 \<le> length as \<longrightarrow> length as < 2147483647 \<longrightarrow>
            fst (runPaxos r res' x (accept_replies as s'))))"
    using counted u(2) unfolding runPaxos_awaiting_prepare [OF free] Let_def
    by (cases "MAJORITY \<le> prepare_successes t") (simp_all add: u_def)
  then show ?thesis by (simp only: t_def)
qed

text \<open>The round of a leader whose two prepare requests are out.\<close>

definition demo_open :: ServerImpl where
  "demo_open = demo_ready\<lparr>prepare_successes := 1, prepare_failures := 0, promised_num := \<lparr>bal_num = 1, bal_server_id = 1\<rparr>\<rparr>"

definition demo_timeout :: "Status \<times> PrepareReq \<times> PrepareRes" where
  "demo_timeout = (DEADLINE_EXCEEDED, \<lparr>pq_ballot = \<lparr>bal_num = 1, bal_server_id = 1\<rparr>, pq_last_inserted = - 1\<rparr>, no_PrepareRes)"

lemma demo_open_round: "round_open demo_req demo_open" "prepare_counts demo_open demo_timeout"
  by (simp_all add: round_open_def demo_open_def free_for_def demo_ready_def demo_req_def prepare_counts_def
    demo_timeout_def own_ballot_def)

theorem round_terminates_witness:
  "fst (runPaxos demo_req no_TransferRes False (prepare_replies [demo_timeout, demo_timeout] demo_open))"
proof -
  let ?t = "prepare_replies [demo_timeout, demo_timeout] demo_open"
  have t: "?t = prepare_tally 1 2 demo_open"
    using prepares_of_round [OF demo_open_round(1), of "[demo_timeout, demo_timeout]"] demo_open_round(2)
    by (simp add: prepare_yes_def demo_timeout_def)
  have "free_for demo_req ?t" "await_prepare_decision ?t"
    using demo_open_round(1) by (simp_all add: t round_open_def)
  then have "\<not> await_accept_decision (runPaxos_state demo_req no_TransferRes False ?t)"
    by (simp add: runPaxos_awaiting_prepare MAJORITY_def t stopped_def)
      (simp add: demo_open_def demo_ready_def)
  then show ?thesis
    using round_terminates [OF demo_open_round(1), of "[demo_timeout, demo_timeout]" no_TransferRes False]
      demo_open_round(2) by (auto simp: Let_def)
qed

text \<open>
  Fewer than two peers are not enough: a leader that is alone, or whose only peer refuses or
  does not answer in time, waits for ever. No number of further attempts changes its state or
  answers the request.
\<close>

theorem lonely_leader_waits:
  assumes "round_open r s" and "list_all (prepare_counts s) ps" and "length ps \<le> 1" and "list_all (\<lambda>p. \<not> prepare_yes p) ps"
  shows "((\<lambda>s. runPaxos_state r res x s) ^^ n) (prepare_replies ps s) = prepare_replies ps s
    \<and> \<not> fst (runPaxos r res x (prepare_replies ps s))"
proof -
  define t where "t = prepare_replies ps s"
  have "filter prepare_yes ps = []" "filter (\<lambda>p. \<not> prepare_yes p) ps = ps"
    using assms(4) by (simp_all add: list_all_iff filter_empty_conv)
  then have t: "t = prepare_tally 1 (int (length ps)) s"
    unfolding t_def using prepares_of_round [OF assms(1,2)] assms(3) by simp
  then have free: "free_for r t" "await_prepare_decision t" using assms(1) by (simp_all add: round_open_def)
  have "runPaxos r res x t = (False, t, res\<lparr>res_tid := req_tid r\<rparr>, [])"
    using assms(3) unfolding runPaxos_awaiting_prepare [OF free] by (simp add: t MAJORITY_def)
  then have "runPaxos_state r res x t = t" "\<not> fst (runPaxos r res x t)" by simp_all
  then show ?thesis by (induction n) (simp_all add: t_def)
qed

theorem lonely_leader_waits_witness:
  "\<not> fst (runPaxos demo_req no_TransferRes False (prepare_replies [demo_timeout] demo_open))"
proof -
  have "list_all (\<lambda>p. \<not> prepare_yes p) [demo_timeout]" by (simp add: prepare_yes_def demo_timeout_def)
  then show ?thesis
    using lonely_leader_waits [OF demo_open_round(1), of "[demo_timeout]" 5 no_TransferRes False] demo_open_round(2)
    by simp
qed

section \<open>One ballot, two proposers\<close>

text \<open>A proposer that waits for accept replies and has counted none but its own.\<close>

definition unanswered :: "TransferReq \<Rightarrow> ServerImpl \<Rightarrow> bool" where
  "unanswered r s \<longleftrightarrow> is_paxos_running s \<and> paxos_tid s = req_tid r \<and> \<not> await_prepare_decision s
     \<and> await_accept_decision s \<and> accept_successes s = 1 \<and> accept_failures s = 0"

text \<open>
  Every event but an accept reply that a server counts as its own: one that carries the number of
  the ballot accepted last and the server's own identifier.
\<close>

fun foreign_reply :: "handler_event \<Rightarrow> ServerImpl \<Rightarrow> bool" where
  "foreign_reply (AcceptBack st q res) s =
     (\<not> own_ballot (aq_ballot q) (accept_num s) s \<and> \<not> own_ballot (ar_ballot res) (accept_num s) s)"
| "foreign_reply _ s = True"

lemma unanswered_attempt:
  assumes "unanswered r s"
  shows "runPaxos r' res x s = (False, s, if free_for r' s then res\<lparr>res_tid := req_tid r'\<rparr> else res, [])"
proof (cases "free_for r' s")
  case True
  then show ?thesis
    using assms by (simp add: unanswered_def runPaxos_awaiting_accept MAJORITY_def)
qed (simp add: runPaxos_blocked)

lemma event_server_id: "server_id (handle e s) = server_id s"
proof (cases "\<exists>r res x. e = Attempt r res x")
  case True
  then show ?thesis by (auto simp: runPaxos_frame(1))
next
  case False
  then have "\<exists>v. keeps_round v s (handle e s)" by (cases e) (auto intro: keeps)
  then show ?thesis by (auto simp: keeps_round_def)
qed

lemma commitTransaction_counters [simp]:
  "accept_successes (commitTransaction r b s) = accept_successes s"
  "accept_failures (commitTransaction r b s) = accept_failures s"
  by (simp_all add: commitTransaction_def push_log_def balance_add_def updateBalance_def Let_def split: prod.split)

lemma event_unanswered:
  assumes "foreign_reply e s" and "unanswered r s"
  shows "unanswered r (handle e s)"
proof (cases e)
  case (Attempt r' res x)
  then show ?thesis using assms(2) unanswered_attempt [OF assms(2), of r' res x] by simp
next
  case (Decide u t ic)
  then show ?thesis
    using assms(2) processTpcDecision_same [of s u t ic] by (simp add: unanswered_def same_control_def)
next
  case (GetPrepare q res)
  then show ?thesis using assms(2) by (auto simp: unanswered_def processPrepareCall_def Let_def)
next
  case (GetAccept q res)
  then show ?thesis
    using assms(2) by (auto simp: unanswered_def processAcceptCall_def lock_own_def prepareTransaction_def
      push_log_def Let_def split: prod.split)
next
  case (GetCommit q)
  then show ?thesis
    using assms(2) by (simp add: unanswered_def processCommitCall_def unlock_own_def Let_def)
next
  case (PrepareBack st q res)
  then show ?thesis using assms(2) by (simp add: unanswered_def handlePrepareReply_def)
next
  case (AcceptBack st q res)
  then show ?thesis using assms by (auto simp: unanswered_def handleAcceptReply_def own_ballot_def)
next
  case (SyncBack st res)
  then show ?thesis
    using assms(2) handleSyncReply_same [of s st res] by (simp add: unanswered_def same_control_def)
next
  case (GetBalance c)
  then show ?thesis using assms(2) by (simp add: unanswered_def processGetBalanceCall_def)
next
  case (GetDisconnect names)
  then show ?thesis
    using assms(2) processDisconnectCall_control [of s names] by (simp add: unanswered_def same_control_def)
qed

text \<open>
  C33. A promise takes over the round of a proposer. A connected leader that awaits the decision on
  its prepare requests, has a majority of promises and could pay, and whose clients are not
  locked, promises a higher ballot of another server at its own log position before its next
  attempt: that attempt sends its own value under the other server's ballot. From then on, whatever
  else happens to it in whatever order (further attempts at any request, requests and decisions,
  synchronisations, replies to prepare requests, disconnection), no reply to these accept requests
  is ever counted and no attempt answers the request or sends anything. The events leave out
  accept replies that name the leader itself and the number of the ballot it accepted last, which
  no accept request of this attempt leads to.
\<close>

theorem promise_takes_over_round:
  fixes res :: TransferRes and x :: bool
  assumes "free_for r s" and "await_prepare_decision s" and "MAJORITY \<le> prepare_successes s"
    and "is_paxos_running s" and "\<not> conditions_fail s (req_txn r)" and "\<not> i_am_disconnected s"
    and "ballot_num s < bal_num b" and "bal_server_id b \<noteq> server_id s"
  defines "s1 \<equiv> fst (processPrepareCall \<lparr>pq_ballot = b, pq_last_inserted = last_inserted s\<rparr> no_PrepareRes s)"
  defines "s2 \<equiv> runPaxos_state r res x s1"
  shows "snd (snd (snd (runPaxos r res x s1))) = map (\<lambda>i. SendAccept i (accept_of b r)) (stubs s)
    \<and> (\<forall>t. events foreign_reply s2 t \<longrightarrow>
        (\<forall>st q ares. aq_ballot q = b \<and> ar_ballot ares = b \<longrightarrow>
           foreign_reply (AcceptBack st q ares) t \<and> handleAcceptReply st q ares t = t)
        \<and> (\<forall>r' res' x'. \<not> fst (runPaxos r' res' x' t) \<and> runPaxos_state r' res' x' t = t
             \<and> snd (snd (snd (runPaxos r' res' x' t))) = []))"
proof -
  have s1: "s1 = s\<lparr>promised := True, promised_num := b, ballot_num := bal_num b\<rparr>"
    using assms(6,7) by (simp add: s1_def processPrepareCall_def Let_def)
  have "isClientInCluster s1 = isClientInCluster s" by (simp add: s1 isClientInCluster_def fun_eq_iff)
  then have ok: "\<not> conditions_fail s1 (req_txn r)" using assms(5) by (simp add: conditions_fail_def locked_def s1)
  have free: "free_for r s1" "await_prepare_decision s1" using assms(1,2) by (simp_all add: s1 free_for_def)
  have maj: "MAJORITY \<le> prepare_successes s1" using assms(3) by (simp add: s1)
  have run: "runPaxos r res x s1 = (False, fst (propose r x (checked r s1)), res\<lparr>res_tid := req_tid r\<rparr>,
      snd (propose r x (checked r s1)))"
    unfolding runPaxos_awaiting_prepare [OF free] using ok maj by simp
  then have s2: "s2 = fst (propose r x (checked r s1))" by (simp add: s2_def)
  note p = proposed_state [OF free(1), of x, folded s2]
  have "is_paxos_running s2" "paxos_tid s2 = req_tid r" using assms(1,4)
    by (auto simp: s2 s1 propose_def checked_def free_for_def Let_def)
  then have start: "unanswered r s2 \<and> server_id s2 = server_id s" using p by (simp add: unanswered_def s1)
  have later: "unanswered r t \<and> server_id t = server_id s" if "events foreign_reply s2 t" for t
    using events_invariant [OF that, of "\<lambda>t. unanswered r t \<and> server_id t = server_id s", OF start]
      event_unanswered event_server_id by simp
  have "snd (propose r x (checked r s1)) = map (\<lambda>i. SendAccept i (accept_of b r)) (stubs s)"
    unfolding propose_effect(3) by (simp add: accept_of_def s1)
  then have sends: "snd (snd (snd (runPaxos r res x s1))) = map (\<lambda>i. SendAccept i (accept_of b r)) (stubs s)"
    by (simp add: run)
  have foreign: "foreign_reply (AcceptBack st q ares) t \<and> handleAcceptReply st q ares t = t"
    if "events foreign_reply s2 t" "aq_ballot q = b" "ar_ballot ares = b" for t st q ares
    using later [OF that(1)] that(2,3) assms(8) by (simp add: handleAcceptReply_def own_ballot_def)
  have silent: "\<not> fst (runPaxos r' res' x' t) \<and> runPaxos_state r' res' x' t = t \<and> snd (snd (snd (runPaxos r' res' x' t))) = []"
    if "events foreign_reply s2 t" for t r' res' x'
    using unanswered_attempt [of r t r' res' x'] later [OF that] by simp
  show ?thesis using sends foreign silent by blast
qed

theorem promise_takes_over_round_witness:
  "\<exists>s2. s2 = runPaxos_state demo_req no_TransferRes False
     (fst (processPrepareCall \<lparr>pq_ballot = \<lparr>bal_num = 9, bal_server_id = 3\<rparr>, pq_last_inserted = - 1\<rparr> no_PrepareRes demo_ready))
   \<and> \<not> fst (runPaxos demo_req no_TransferRes False
        (handleAcceptReply StatusOK (accept_of \<lparr>bal_num = 9, bal_server_id = 3\<rparr> demo_req)
          \<lparr>ar_ack = True, ar_ballot = \<lparr>bal_num = 9, bal_server_id = 3\<rparr>\<rparr> (processDisconnectCall [] s2)))"
proof -
  have d: "\<not> i_am_disconnected demo_ready" "ballot_num demo_ready = 0" "server_id demo_ready = 1" "last_inserted demo_ready = - 1"
    "is_paxos_running demo_ready" "paxos_tid demo_ready = req_tid demo_req"
    by (simp_all add: demo_ready_def demo_req_def)
  let ?b = "\<lparr>bal_num = 9, bal_server_id = 3\<rparr>"
  define s2 where "s2 = runPaxos_state demo_req no_TransferRes False
     (fst (processPrepareCall \<lparr>pq_ballot = ?b, pq_last_inserted = - 1\<rparr> no_PrepareRes demo_ready))"
  have "MAJORITY \<le> prepare_successes demo_ready" "ballot_num demo_ready < bal_num ?b" "bal_server_id ?b \<noteq> server_id demo_ready"
    using d by (simp_all add: MAJORITY_def)
  note take_over = promise_takes_over_round [OF demo_ready_free(1,2) this(1) d(5) demo_ready_conditions d(1) this(2,3),
      of no_TransferRes False, unfolded d(4), folded s2_def, THEN conjunct2, rule_format]
  have "events foreign_reply s2 (handle (GetDisconnect []) s2)" by (intro events.happens events.none) simp
  note after = take_over [OF this]
  show ?thesis
    using after by (intro exI [of _ s2]) (simp add: s2_def [symmetric] accept_of_def)
qed

text \<open>
  Two proposers under one ballot make a cluster diverge: a replica that accepts the value of
  the ballot's owner and then that of the proposer which took the ballot over commits the
  second one when the owner's commit arrives. At the same place of their logs, under the same
  ballot, owner and replica hold different committed transfers, although they held the same data
  before.
\<close>

theorem shared_ballot_diverges:
  assumes "same_data s t" and "can_accept (promised_num s) t" and "writable (walFile (wal s))"
    and "in_cluster_count s (req_txn r) = 2" and "in_cluster_count s (req_txn r') = 2"
  defines "t1 \<equiv> fst (processAcceptCall (accept_of (promised_num s) r) no_AcceptRes t)"
  shows "log (leader_round r False s) = log s @ [req_entry r (promised_num s) INTRA COMMITTED]
    \<and> log (replica_round (promised_num s) r' t1) = log s @ [req_entry r' (promised_num s) INTRA COMMITTED]"
proof -
  let ?b = "promised_num s"
  have "isClientInCluster t = isClientInCluster s"
    using assms(1) by (intro isClientInCluster_cong) (auto simp: same_data_def)
  then have n: "in_cluster_count t x = in_cluster_count s x" for x by (simp add: in_cluster_count_def)
  then have t1: "t1 = accept_state ?b r t" using assms(4) accepted_state [OF assms(2), of r] by (simp add: t1_def)
  have acc: "can_accept ?b t1"
    using assms(2) by (simp add: t1 can_accept_def accept_state_def lock_own_def Let_def)
  have wr: "writable (walFile (wal t1))" using assms(1,3) by (simp add: t1 same_data_def)
  have "in_cluster_count t1 (req_txn r') = 2"
    using assms(5) n in_cluster_count_cong [of t1 t] by (simp add: t1)
  then have "log (replica_round ?b r' t1) = log (commitTransaction r' ?b t1)"
    using replica_round_effect(1) [OF acc wr, of r'] by (simp add: same_data_def)
  then have "log (replica_round ?b r' t1) = log s @ [req_entry r' ?b INTRA COMMITTED]"
    using commitTransaction_data(1) [OF wr] assms(1) by (simp add: t1 same_data_def)
  moreover have "log (leader_round r False s) = log s @ [req_entry r ?b INTRA COMMITTED]"
    using leader_round_data [OF assms(3), of False r] commitTransaction_data(1) [OF assms(3)]
    by (simp add: same_data_def)
  ultimately show ?thesis by simp
qed

definition demo_other :: TransferReq where
  "demo_other = \<lparr>req_txn = \<lparr>sender = 2, receiver = 1, amount = 3\<rparr>, req_tid = 78\<rparr>"

theorem shared_ballot_diverges_witness:
  "log (leader_round demo_req False demo_leader) \<noteq> log (replica_round demo_ballot demo_other
     (fst (processAcceptCall (accept_of demo_ballot demo_req) no_AcceptRes demo_promised)))"
proof -
  have "same_data demo_leader demo_promised" "can_accept (promised_num demo_leader) demo_promised"
    "writable (walFile (wal demo_leader))"
    by (simp_all add: demo_leader_def demo_promised_eq same_data_def can_accept_def WAL_init_def demo_file_def)
  moreover have "isClientInCluster demo_leader = isClientInCluster demo_server"
    by (simp add: demo_leader_def isClientInCluster_def fun_eq_iff)
  then have "in_cluster_count demo_leader (req_txn demo_req) = 2" "in_cluster_count demo_leader (req_txn demo_other) = 2"
    by (simp_all add: in_cluster_count_def demo_req_def demo_other_def i32_id int32_def)
  moreover have "promised_num demo_leader = demo_ballot" by (simp add: demo_leader_def)
  ultimately show ?thesis
    using shared_ballot_diverges [of demo_leader demo_promised demo_req demo_other]
    by (simp add: req_entry_def demo_req_def demo_other_def)
qed

end
