(* ===== verification/Tpc_Calls.thy ===== *)
theory Tpc_Calls
  imports Tpc_Server_Steps
begin

text \<open>
  The call objects and the event loop: \<open>InCall\<close> (\<open>server/in_call.cc\<close>), the state machine that
  serves one request, \<open>OutCall\<close> (\<open>server/out_call.cc\<close>), which carries one request to a peer
  and its reply back, and \<open>HandleRPCs\<close> (\<open>server/server.cc\<close>), which polls the two completion
  queues. The objects live on a heap of numbered cells. gRPC is the environment: every
  operation started with a tag is an entry of \<open>ops\<close> until its completion is taken from the
  queue; a call to a peer is an entry of \<open>inflight\<close>.
\<close>

section \<open>InCall\<close>

datatype CallStatus = CREATE | PROCESS | RETRY | FINISH

record InCall =
  call_status :: CallStatus
  call_type :: RequestTypes
  transferReq :: TransferReq
  transferRes :: TransferRes
  tpcTid :: TpcTid
  balanceReq :: BalanceReq
  balanceRes :: BalanceRes
  logRes :: LogRes
  prepareReq :: PrepareReq
  prepareRes :: PrepareRes
  acceptReq :: AcceptReq
  acceptRes :: AcceptRes
  commitReq :: CommitReq
  syncReq :: SyncReq
  syncRes :: SyncRes
  disconnectReq :: DisconnectReq

datatype Reply =
  EmptyReply | TransferReply TransferRes | BalanceReply BalanceRes | LogReply LogRes
| PrepareReply PrepareRes | AcceptReply AcceptRes | SyncReply SyncRes

text \<open>What a call object asks for: a new object, a gRPC operation with itself as the tag, or its deletion.\<close>

datatype CallAction =
  NewInCall RequestTypes | RequestRpc RequestTypes | SetAlarm | Finish Reply | DeleteThis

definition blank_call :: "RequestTypes \<Rightarrow> InCall" where
  "blank_call ty =
     \<lparr>call_status = CREATE, call_type = ty, transferReq = no_TransferReq, transferRes = no_TransferRes,
      tpcTid = 0, balanceReq = 0, balanceRes = 0, logRes = [],
      prepareReq = \<lparr>pq_ballot = no_ballot, pq_last_inserted = 0\<rparr>, prepareRes = no_PrepareRes,
      acceptReq = \<lparr>aq_ballot = no_ballot, aq_r = no_TransferReq\<rparr>, acceptRes = no_AcceptRes,
      commitReq = \<lparr>cq_ballot = no_ballot\<rparr>, syncReq = 0, syncRes = no_SyncRes, disconnectReq = []\<rparr>"

text \<open>The first branch of \<open>Proceed\<close>, and the constructor, which runs it.\<close>

definition Proceed_create :: "InCall \<Rightarrow> InCall \<times> CallAction list" where
  "Proceed_create c = (c\<lparr>call_status := PROCESS\<rparr>, [RequestRpc (call_type c)])"

definition InCall_new :: "RequestTypes \<Rightarrow> InCall \<times> CallAction list" where
  "InCall_new ty = Proceed_create (blank_call ty)"

definition Retry :: "InCall \<Rightarrow> InCall \<times> CallAction list" where
  "Retry c = (c, [SetAlarm])"

text \<open>
  The switch of the second branch: the handler, then the answer, or another attempt later for
  the two requests that run Paxos.
\<close>

definition finish :: "InCall \<Rightarrow> Reply \<Rightarrow> InCall \<times> CallAction list" where
  "finish c r = (c\<lparr>call_status := FINISH\<rparr>, [Finish r])"

definition paxos_call ::
  "(TransferReq \<Rightarrow> TransferRes \<Rightarrow> ServerImpl \<Rightarrow> bool \<times> ServerImpl \<times> TransferRes \<times> OutMsg list)
     \<Rightarrow> InCall \<Rightarrow> ServerImpl \<Rightarrow> (InCall \<times> CallAction list) \<times> ServerImpl \<times> OutMsg list" where
  "paxos_call run c s =
     (let (fin, s, res, msgs) = run (transferReq c) (transferRes c) s;
          c = c\<lparr>transferRes := res\<rparr>
      in if fin then (finish c (TransferReply res), s, msgs)
         else (Retry (c\<lparr>call_status := RETRY\<rparr>), s, msgs))"

definition Proceed_serve ::
  "WALEntry \<Rightarrow> InCall \<Rightarrow> ServerImpl \<Rightarrow> (InCall \<times> CallAction list) \<times> ServerImpl \<times> OutMsg list" where
  "Proceed_serve u c s =
     (case call_type c of
        TPC_PREPARE \<Rightarrow> paxos_call processTpcPrepare c s
      | TPC_COMMIT \<Rightarrow> (finish c EmptyReply, processTpcDecision u (tpcTid c) True s, [])
      | TPC_ABORT \<Rightarrow> (finish c EmptyReply, processTpcDecision u (tpcTid c) False s, [])
      | TRANSFER \<Rightarrow> paxos_call processTransferCall c s
      | PREPARE \<Rightarrow>
          (let (s, res, msgs) = processPrepareCall (prepareReq c) (prepareRes c) s
           in (finish (c\<lparr>prepareRes := res\<rparr>) (PrepareReply res), s, msgs))
      | ACCEPT \<Rightarrow>
          (let (s, res) = processAcceptCall (acceptReq c) (acceptRes c) s
           in (finish (c\<lparr>acceptRes := res\<rparr>) (AcceptReply res), s, []))
      | COMMIT \<Rightarrow> (finish c EmptyReply, processCommitCall (commitReq c) s, [])
      | SYNC \<Rightarrow>
          (let res = processSyncCall (syncReq c) (syncRes c) s
           in (finish (c\<lparr>syncRes := res\<rparr>) (SyncReply res), s, []))
      | BALANCE \<Rightarrow>
          (let (s, res) = processGetBalanceCall (balanceReq c) s
           in (finish (c\<lparr>balanceRes := res\<rparr>) (BalanceReply res), s, []))
      | LOGS \<Rightarrow>
          (let res = processGetLogsCall (logRes c) s
           in (finish (c\<lparr>logRes := res\<rparr>) (LogReply res), s, []))
      | DISCONNECT \<Rightarrow> (finish c EmptyReply, processDisconnectCall (disconnectReq c) s, []))"

definition Proceed ::
  "WALEntry \<Rightarrow> InCall \<Rightarrow> ServerImpl \<Rightarrow> InCall \<times> ServerImpl \<times> CallAction list \<times> OutMsg list" where
  "Proceed u c s =
     (case call_status c of
        CREATE \<Rightarrow> (let (c, acts) = Proceed_create c in (c, s, acts, []))
      | PROCESS \<Rightarrow>
          (let ((c', acts), s, msgs) = Proceed_serve u c s
           in (c', s, NewInCall (call_type c) # acts, msgs))
      | RETRY \<Rightarrow> (let ((c, acts), s, msgs) = Proceed_serve u c s in (c, s, acts, msgs))
      | FINISH \<Rightarrow> (c, s, [DeleteThis], []))"

section \<open>OutCall\<close>

record OutCall =
  out_type :: RequestTypes
  out_status :: Status
  out_prepareReq :: PrepareReq
  out_prepareReply :: PrepareRes
  out_acceptReq :: AcceptReq
  out_acceptReply :: AcceptRes
  out_syncReply :: SyncRes

definition OutCall_new :: "RequestTypes \<Rightarrow> OutCall" where
  "OutCall_new ty =
     \<lparr>out_type = ty, out_status = StatusOK,
      out_prepareReq = \<lparr>pq_ballot = no_ballot, pq_last_inserted = 0\<rparr>, out_prepareReply = no_PrepareRes,
      out_acceptReq = \<lparr>aq_ballot = no_ballot, aq_r = no_TransferReq\<rparr>, out_acceptReply = no_AcceptRes,
      out_syncReply = no_SyncRes\<rparr>"

definition sendPrepare :: "PrepareReq \<Rightarrow> OutCall \<Rightarrow> OutCall" where
  "sendPrepare q oc = oc\<lparr>out_prepareReq := q\<rparr>"

definition sendAccept :: "AcceptReq \<Rightarrow> OutCall \<Rightarrow> OutCall" where
  "sendAccept q oc = oc\<lparr>out_acceptReq := q\<rparr>"

text \<open>\<open>sendCommit\<close> and \<open>sendSync\<close> keep no copy of the request.\<close>

definition HandleRPCResponse :: "OutCall \<Rightarrow> ServerImpl \<Rightarrow> ServerImpl \<times> OutMsg list" where
  "HandleRPCResponse oc s =
     (case out_type oc of
        PREPARE \<Rightarrow> handlePrepareReply (out_status oc) (out_prepareReq oc) (out_prepareReply oc) s
      | ACCEPT \<Rightarrow> (handleAcceptReply (out_status oc) (out_acceptReq oc) (out_acceptReply oc) s, [])
      | SYNC \<Rightarrow> (handleSyncReply (out_status oc) (out_syncReply oc) s, [])
      | _ \<Rightarrow> (s, []))"

section \<open>HandleRPCs\<close>

datatype CallOp = WaitRequest RequestTypes | WaitAlarm | WaitFinish

text \<open>
  \<open>use_after_free\<close> is raised when a completion names a deleted object, \<open>null_stub\<close> when a
  request is sent through an empty stub.
\<close>

record Loop =
  srv :: ServerImpl
  heap :: "nat \<rightharpoonup> InCall"
  fresh :: nat
  ops :: "(nat \<times> CallOp) list"
  replies :: "(nat \<times> Reply) list"
  inflight :: "OutCall list"
  use_after_free :: bool
  null_stub :: bool

fun apply_action :: "nat \<Rightarrow> CallAction \<Rightarrow> Loop \<Rightarrow> Loop" where
  "apply_action tag (NewInCall ty) l =
     (let c = fst (InCall_new ty)
      in l\<lparr>heap := (heap l)(fresh l \<mapsto> c), ops := ops l @ [(fresh l, WaitRequest ty)], fresh := fresh l + 1\<rparr>)"
| "apply_action tag (RequestRpc ty) l = l\<lparr>ops := ops l @ [(tag, WaitRequest ty)]\<rparr>"
| "apply_action tag SetAlarm l = l\<lparr>ops := ops l @ [(tag, WaitAlarm)]\<rparr>"
| "apply_action tag (Finish r) l = l\<lparr>ops := ops l @ [(tag, WaitFinish)], replies := replies l @ [(tag, r)]\<rparr>"
| "apply_action tag DeleteThis l = l\<lparr>heap := (heap l)(tag := None)\<rparr>"

fun dispatch :: "OutMsg \<Rightarrow> Loop \<Rightarrow> Loop" where
  "dispatch (SendPrepare i q) l = l\<lparr>inflight := inflight l @ [sendPrepare q (OutCall_new PREPARE)]\<rparr>"
| "dispatch (SendAccept i q) l = l\<lparr>inflight := inflight l @ [sendAccept q (OutCall_new ACCEPT)]\<rparr>"
| "dispatch (SendCommit i q) l = l\<lparr>inflight := inflight l @ [OutCall_new COMMIT]\<rparr>"
| "dispatch (SendSync i q) l = l\<lparr>inflight := inflight l @ [OutCall_new SYNC]\<rparr>"
| "dispatch (NullStub i) l = l\<lparr>null_stub := True\<rparr>"

definition call_kinds :: "RequestTypes list" where
  "call_kinds =
     [TPC_PREPARE, TPC_COMMIT, TPC_ABORT, TRANSFER, BALANCE, LOGS, PREPARE, ACCEPT, COMMIT, SYNC, DISCONNECT]"

definition HandleRPCs_start :: "ServerImpl \<Rightarrow> Loop" where
  "HandleRPCs_start s = fold (\<lambda>ty. apply_action 0 (NewInCall ty)) call_kinds
     \<lparr>srv = s, heap = Map.empty, fresh = 0, ops = [], replies = [], inflight = [],
      use_after_free = False, null_stub = False\<rparr>"

text \<open>
  A request that arrives is written into the object that waits for it, in the field of its
  type.
\<close>

datatype Request =
  ReqTransfer TransferReq | ReqTid TpcTid | ReqBalance BalanceReq | ReqEmpty | ReqPrepare PrepareReq
| ReqAccept AcceptReq | ReqCommit CommitReq | ReqSync SyncReq | ReqDisconnect DisconnectReq

fun fill :: "Request \<Rightarrow> InCall \<Rightarrow> InCall" where
  "fill (ReqTransfer r) c = c\<lparr>transferReq := r\<rparr>"
| "fill (ReqTid t) c = c\<lparr>tpcTid := t\<rparr>"
| "fill (ReqBalance b) c = c\<lparr>balanceReq := b\<rparr>"
| "fill ReqEmpty c = c"
| "fill (ReqPrepare q) c = c\<lparr>prepareReq := q\<rparr>"
| "fill (ReqAccept q) c = c\<lparr>acceptReq := q\<rparr>"
| "fill (ReqCommit q) c = c\<lparr>commitReq := q\<rparr>"
| "fill (ReqSync q) c = c\<lparr>syncReq := q\<rparr>"
| "fill (ReqDisconnect q) c = c\<lparr>disconnectReq := q\<rparr>"

fun fill_reply :: "Status \<Rightarrow> Reply \<Rightarrow> OutCall \<Rightarrow> OutCall" where
  "fill_reply st (PrepareReply r) oc = oc\<lparr>out_status := st, out_prepareReply := r\<rparr>"
| "fill_reply st (AcceptReply r) oc = oc\<lparr>out_status := st, out_acceptReply := r\<rparr>"
| "fill_reply st (SyncReply r) oc = oc\<lparr>out_status := st, out_syncReply := r\<rparr>"
| "fill_reply st _ oc = oc\<lparr>out_status := st\<rparr>"

definition on_request :: "WALEntry \<Rightarrow> nat \<times> CallOp \<Rightarrow> Request \<Rightarrow> bool \<Rightarrow> Loop \<Rightarrow> Loop" where
  "on_request u ev rq ok l =
     (let l = l\<lparr>ops := remove1 ev (ops l)\<rparr> in
      if \<not> ok then l
      else case heap l (fst ev) of
             None \<Rightarrow> l\<lparr>use_after_free := True\<rparr>
           | Some c \<Rightarrow>
               (let c = (case snd ev of WaitRequest ty \<Rightarrow> fill rq c | _ \<Rightarrow> c);
                    (c, s, acts, msgs) = Proceed u c (srv l);
                    l = l\<lparr>srv := s, heap := (heap l)(fst ev \<mapsto> c)\<rparr>
                in fold dispatch msgs (fold (apply_action (fst ev)) acts l)))"

definition on_response :: "OutCall \<Rightarrow> Status \<Rightarrow> Reply \<Rightarrow> bool \<Rightarrow> Loop \<Rightarrow> Loop" where
  "on_response oc st rp ok l =
     (let l = l\<lparr>inflight := remove1 oc (inflight l)\<rparr> in
      if \<not> ok then l
      else let (s, msgs) = HandleRPCResponse (fill_reply st rp oc) (srv l)
           in fold dispatch msgs (l\<lparr>srv := s\<rparr>))"

text \<open>One turn of the loop, with what the two queues deliver.\<close>

type_synonym request_event = "(nat \<times> CallOp) \<times> Request \<times> bool"
type_synonym response_event = "OutCall \<times> Status \<times> Reply \<times> bool"

definition HandleRPCs_turn ::
  "WALEntry \<Rightarrow> request_event option \<Rightarrow> response_event option \<Rightarrow> Loop \<Rightarrow> Loop" where
  "HandleRPCs_turn u re pe l =
     (let l = (case re of None \<Rightarrow> l | Some (ev, rq, ok) \<Rightarrow> on_request u ev rq ok l)
      in case pe of None \<Rightarrow> l | Some (oc, st, rp, ok) \<Rightarrow> on_response oc st rp ok l)"

end
