(* ===== verification/Tpc_Calls_Props.thy ===== *)
theory Tpc_Calls_Props
  imports Tpc_Calls
begin

text \<open>
  The event loop: its reachable states, that a completion never names a deleted object, that
  every request is answered exactly once, that a handler always waits for each kind of
  request, and that the loop drives the server through its steps only.
\<close>

section \<open>Events and runs\<close>

fun request_ok :: "Request \<Rightarrow> bool" where
  "request_ok (ReqTransfer r) = req_ok r"
| "request_ok (ReqPrepare q) = bal_ok (pq_ballot q)"
| "request_ok (ReqAccept q) = (bal_ok (aq_ballot q) \<and> req_ok (aq_r q))"
| "request_ok _ = True"

fun reply_ok :: "Reply \<Rightarrow> bool" where
  "reply_ok (SyncReply r) = list_all log_entry_ok (sr_logs r)"
| "reply_ok _ = True"

definition request_event_ok :: "Loop \<Rightarrow> request_event option \<Rightarrow> bool" where
  "request_event_ok l re \<longleftrightarrow>
     (case re of None \<Rightarrow> True | Some (ev, rq, ok) \<Rightarrow> ev \<in> set (ops l) \<and> request_ok rq)"

definition response_event_ok :: "Loop \<Rightarrow> response_event option \<Rightarrow> bool" where
  "response_event_ok l pe \<longleftrightarrow>
     (case pe of None \<Rightarrow> True | Some (oc, st, rp, ok) \<Rightarrow> oc \<in> set (inflight l) \<and> reply_ok rp)"

definition event_succeeds :: "request_event option \<Rightarrow> bool" where
  "event_succeeds re \<longleftrightarrow> (case re of None \<Rightarrow> True | Some (ev, rq, ok) \<Rightarrow> ok)"

text \<open>A run of the loop; the flag says that no operation on the request queue fails.\<close>

inductive loop_run :: "bool \<Rightarrow> Loop \<Rightarrow> Loop \<Rightarrow> bool" for a where
  stay: "loop_run a l l"
| turn: "loop_run a l m \<Longrightarrow> request_event_ok m re \<Longrightarrow> response_event_ok m pe \<Longrightarrow>
     (a \<longrightarrow> event_succeeds re) \<Longrightarrow> loop_run a l (HandleRPCs_turn u re pe m)"

section \<open>One call of Proceed\<close>

definition call_ok :: "InCall \<Rightarrow> bool" where
  "call_ok c \<longleftrightarrow> req_ok (transferReq c) \<and> bal_ok (pq_ballot (prepareReq c))
     \<and> bal_ok (aq_ballot (acceptReq c)) \<and> req_ok (aq_r (acceptReq c))"

lemma blank_call_ok: "call_ok (blank_call ty)"
  by (simp add: call_ok_def blank_call_def req_ok_def bal_ok_def txn_ok_def message_defaults
    int32_def int64_def)

lemma fill_ok: "call_ok c \<Longrightarrow> request_ok rq \<Longrightarrow> call_ok (fill rq c)"
  by (cases rq) (simp_all add: call_ok_def)

lemma fill_simps [simp]:
  "call_status (fill rq c) = call_status c" "call_type (fill rq c) = call_type c"
  by (cases rq; simp)+

text \<open>Serving ends in one of two ways: a reply, or an alarm and another attempt.\<close>

lemma Proceed_serve_shape:
  assumes "Proceed_serve u c s = ((c', acts), s', msgs)"
  shows "call_type c' = call_type c" and "call_ok c \<Longrightarrow> call_ok c'"
    and "(call_status c' = RETRY \<and> acts = [SetAlarm]) \<or> (\<exists>r. call_status c' = FINISH \<and> acts = [Finish r])"
  using assms
  by (auto simp: Proceed_serve_def paxos_call_def finish_def Retry_def call_ok_def Let_def
    split: RequestTypes.splits prod.splits if_splits)

lemma server_run_single: "server_step s t \<Longrightarrow> server_run s t"
  by (rule server_run.step [OF server_run.stay])

lemma runPaxos_step: "req_ok r \<Longrightarrow> runPaxos r res x s = (fin, s', res', msgs) \<Longrightarrow> server_step s s'"
  using server_step.transfer [of r s res x] by simp

lemma Proceed_serve_run:
  assumes "Proceed_serve u c s = ((c', acts), s', msgs)" and "call_ok c"
  shows "server_run s s'"
proof -
  have ok: "req_ok (transferReq c)" "bal_ok (pq_ballot (prepareReq c))"
    "bal_ok (aq_ballot (acceptReq c))" "req_ok (aq_r (acceptReq c))"
    using assms(2) by (simp_all add: call_ok_def)
  have paxos: "server_step s s'" if "runPaxos (transferReq c) (transferRes c) x s = (fin, s', res, ms)" for x fin res ms
    using runPaxos_step [OF ok(1) that] .
  have others: "server_step s (processTpcDecision u t ic s)" "server_step s (processCommitCall q s)"
    "server_step s (fst (processGetBalanceCall b s))" "server_step s (processDisconnectCall ns s)"
    "server_step s (fst (processPrepareCall (prepareReq c) (prepareRes c) s))"
    "server_step s (fst (processAcceptCall (acceptReq c) (acceptRes c) s))" for t ic q b ns
    by (auto intro: server_step.intros ok)
  show ?thesis
    using assms(1) others paxos
    by (auto simp: Proceed_serve_def paxos_call_def processTpcPrepare_def processTransferCall_def Let_def
      split: RequestTypes.splits prod.splits if_splits intro: server_run.stay server_run_single)
      (metis fst_conv server_run_single)+
qed

section \<open>The invariant of the loop\<close>

fun expects :: "InCall \<Rightarrow> CallOp \<Rightarrow> bool" where
  "expects c (WaitRequest ty) = (call_status c = PROCESS \<and> call_type c = ty)"
| "expects c WaitAlarm = (call_status c = RETRY)"
| "expects c WaitFinish = (call_status c = FINISH)"

text \<open>A numbered cell is answered for when its object has replied, deleted or not yet.\<close>

definition answered :: "Loop \<Rightarrow> nat \<Rightarrow> bool" where
  "answered l tag \<longleftrightarrow> tag < fresh l
     \<and> (case heap l tag of None \<Rightarrow> True | Some c \<Rightarrow> call_status c = FINISH)"

definition tags :: "(nat \<times> 'a) list \<Rightarrow> nat set" where
  "tags xs = fst ` set xs"

lemma tagsI: "(t, x) \<in> set xs \<Longrightarrow> t \<in> tags xs"
  by (force simp: tags_def)

lemma tagsE: "t \<in> tags xs \<Longrightarrow> (\<And>x. (t, x) \<in> set xs \<Longrightarrow> P) \<Longrightarrow> P"
  by (auto simp: tags_def)

lemma tags_simps [simp]:
  "tags [] = {}" "tags (xs @ [(t, x)]) = insert t (tags xs)" "fst ` set xs = tags xs"
  unfolding tags_def by simp_all

text \<open>
  Operations belong to live objects in the state that waits for them, one each; objects live
  below the next number; replies have been sent once, by exactly the objects that are
  finished (but for the objects of \<open>T\<close>, which are being served).
\<close>

definition ops_ok :: "Loop \<Rightarrow> bool" where
  "ops_ok l \<longleftrightarrow> distinct (map fst (ops l))
     \<and> (\<forall>t op. (t, op) \<in> set (ops l) \<longrightarrow> (\<exists>c. heap l t = Some c \<and> expects c op))"

definition heap_ok :: "Loop \<Rightarrow> bool" where
  "heap_ok l \<longleftrightarrow> (\<forall>t c. heap l t = Some c \<longrightarrow> t < fresh l \<and> call_ok c)"

definition replied_except :: "nat set \<Rightarrow> Loop \<Rightarrow> bool" where
  "replied_except T l \<longleftrightarrow> distinct (map fst (replies l))
     \<and> (\<forall>t. t \<notin> T \<longrightarrow> (t \<in> tags (replies l)) = answered l t)"

definition loop_ok :: "Loop \<Rightarrow> bool" where
  "loop_ok l \<longleftrightarrow> ops_ok l \<and> heap_ok l \<and> replied_except {} l \<and> \<not> use_after_free l"

definition ready :: "nat \<Rightarrow> Loop \<Rightarrow> bool" where
  "ready tag l \<longleftrightarrow> ops_ok l \<and> tag \<notin> tags (ops l) \<and> heap_ok l \<and> replied_except {tag} l
     \<and> \<not> use_after_free l \<and> tag < fresh l"

lemma remove1_once:
  assumes "distinct (map fst xs)" and "(t, x) \<in> set xs"
  shows "distinct (map fst (remove1 (t, x) xs))" and "t \<notin> tags (remove1 (t, x) xs)"
    and "set (remove1 (t, x) xs) \<subseteq> set xs"
proof -
  have "distinct xs" using assms(1) by (simp add: distinct_map)
  then have eq: "set (remove1 (t, x) xs) = set xs - {(t, x)}" by simp
  have inj: "inj_on fst (set xs)" using assms(1) by (simp add: distinct_map)
  show "t \<notin> tags (remove1 (t, x) xs)"
  proof
    assume "t \<in> tags (remove1 (t, x) xs)"
    then obtain y where "(t, y) \<in> set xs" "y \<noteq> x" using eq by (auto elim!: tagsE)
    then show False using inj_onD [OF inj, of "(t, y)" "(t, x)"] assms(2) by simp
  qed
  show "distinct (map fst (remove1 (t, x) xs))"
    using \<open>distinct xs\<close> inj by (auto simp: distinct_map eq intro: inj_on_subset)
  show "set (remove1 (t, x) xs) \<subseteq> set xs" by (simp add: eq)
qed

lemma take_event:
  assumes "loop_ok l" and "(tag, op) \<in> set (ops l)"
  shows "ready tag (l\<lparr>ops := remove1 (tag, op) (ops l)\<rparr>)" (is "ready tag ?l")
proof -
  have d: "distinct (map fst (ops l))" using assms(1) by (simp add: loop_ok_def ops_ok_def)
  note r = remove1_once [OF d assms(2)]
  have "ops_ok ?l" using assms(1) r(1,3) by (auto simp: loop_ok_def ops_ok_def)
  moreover have "tag < fresh l" using assms unfolding loop_ok_def ops_ok_def heap_ok_def by blast
  ultimately show ?thesis
    using assms(1) r(2) by (simp add: ready_def loop_ok_def heap_ok_def replied_except_def answered_def)
qed

lemma ready_update:
  assumes "ready tag l" and "call_ok c"
  shows "ready tag (l\<lparr>srv := s, heap := (heap l)(tag \<mapsto> c)\<rparr>)" (is "ready tag ?l")
proof -
  have "ops_ok ?l" using assms(1) tagsI [of tag _ "ops l"] by (auto simp: ready_def ops_ok_def)
  then show ?thesis
    using assms by (auto simp: ready_def heap_ok_def replied_except_def answered_def)
qed

lemma InCall_new_ok:
  "call_ok (fst (InCall_new ty))" "expects (fst (InCall_new ty)) (WaitRequest ty)"
  "call_status (fst (InCall_new ty)) = PROCESS"
  using blank_call_ok [of ty] by (simp_all add: InCall_new_def Proceed_create_def call_ok_def)
    (simp add: blank_call_def)

lemma new_parts:
  assumes heap: "heap_ok l" and ops: "ops_ok l"
  shows "heap_ok (apply_action t (NewInCall ty) l)" and "ops_ok (apply_action t (NewInCall ty) l)"
    and "fresh l \<notin> tags (ops l)" and "heap l (fresh l) = None"
proof -
  show free: "heap l (fresh l) = None"
    using heap by (cases "heap l (fresh l)") (auto simp: heap_ok_def)
  show notin: "fresh l \<notin> tags (ops l)"
  proof
    assume "fresh l \<in> tags (ops l)"
    then show False using ops free by (fastforce simp: ops_ok_def elim!: tagsE)
  qed
  show "heap_ok (apply_action t (NewInCall ty) l)"
    using heap InCall_new_ok(1) [of ty] by (auto simp: heap_ok_def Let_def less_SucI)
  show "ops_ok (apply_action t (NewInCall ty) l)"
    using ops notin InCall_new_ok(2) [of ty] tagsI [of "fresh l" _ "ops l"]
    by (auto simp: ops_ok_def Let_def)
qed

lemma ready_new:
  assumes "ready tag l"
  shows "ready tag (apply_action t (NewInCall ty) l)" (is "ready tag ?l")
proof -
  have heap: "heap_ok l" and ops: "ops_ok l" using assms by (simp_all add: ready_def)
  note new = new_parts(1,2) [OF heap ops, of t ty] new_parts(3,4) [OF heap ops]
  have "replied_except {tag} ?l"
    using assms new(4) InCall_new_ok(3) [of ty]
    by (auto simp: ready_def replied_except_def answered_def Let_def less_Suc_eq)
  then show ?thesis using assms new by (auto simp: ready_def Let_def)
qed

lemma loop_new:
  assumes "loop_ok l"
  shows "loop_ok (apply_action t (NewInCall ty) l)" (is "loop_ok ?l")
proof -
  have heap: "heap_ok l" and ops: "ops_ok l" using assms by (simp_all add: loop_ok_def)
  note new = new_parts(1,2) [OF heap ops, of t ty] new_parts(3,4) [OF heap ops]
  have "replied_except {} ?l"
    using assms new(4) InCall_new_ok(3) [of ty]
    by (auto simp: loop_ok_def replied_except_def answered_def Let_def less_Suc_eq)
  then show ?thesis using assms new by (simp add: loop_ok_def Let_def)
qed

lemma ready_done:
  assumes "ready tag l" and "heap l tag = Some c"
  shows "call_status c = RETRY \<Longrightarrow> tag \<notin> tags (replies l) \<Longrightarrow> loop_ok (apply_action tag SetAlarm l)"
    and "call_status c = FINISH \<Longrightarrow> tag \<notin> tags (replies l) \<Longrightarrow> loop_ok (apply_action tag (Finish r) l)"
    and "tag \<in> tags (replies l) \<Longrightarrow> loop_ok (apply_action tag DeleteThis l)"
proof -
  have r: "ops_ok l" "tag \<notin> tags (ops l)" "heap_ok l" "\<not> use_after_free l" "tag < fresh l"
    and d: "distinct (map fst (replies l))"
    and a: "t \<noteq> tag \<Longrightarrow> (t \<in> tags (replies l)) = answered l t" for t
    using assms(1) by (auto simp: ready_def replied_except_def)
  show "loop_ok (apply_action tag SetAlarm l)"
    if "call_status c = RETRY" "tag \<notin> tags (replies l)"
  proof -
    have "(t \<in> tags (replies l)) = answered l t" for t
      using a [of t] that assms(2) by (cases "t = tag") (simp_all add: answered_def)
    then show ?thesis
      using r d that(1) assms(2)
      by (auto simp: loop_ok_def ops_ok_def heap_ok_def replied_except_def answered_def)
  qed
  show "loop_ok (apply_action tag (Finish r) l)"
    if "call_status c = FINISH" "tag \<notin> tags (replies l)"
  proof -
    have "(t \<in> insert tag (tags (replies l))) = answered l t" for t
      using a [of t] that assms(2) r(5) by (cases "t = tag") (simp_all add: answered_def)
    then show ?thesis
      using r d that assms(2)
      by (auto simp: loop_ok_def ops_ok_def heap_ok_def replied_except_def answered_def)
  qed
  show "loop_ok (apply_action tag DeleteThis l)" if "tag \<in> tags (replies l)"
  proof -
    have "(t \<in> tags (replies l)) = answered (apply_action tag DeleteThis l) t" for t
      using a [of t] that r(5) by (cases "t = tag") (simp_all add: answered_def)
    moreover have "ops_ok (apply_action tag DeleteThis l)"
      using r(1,2) tagsI [of tag _ "ops l"] by (auto simp: ops_ok_def)
    ultimately show ?thesis
      using r d by (auto simp: loop_ok_def heap_ok_def replied_except_def)
  qed
qed

lemma dispatch_frame [simp]:
  "heap (fold dispatch ms l) = heap l" "ops (fold dispatch ms l) = ops l"
  "replies (fold dispatch ms l) = replies l" "fresh (fold dispatch ms l) = fresh l"
  "use_after_free (fold dispatch ms l) = use_after_free l" "srv (fold dispatch ms l) = srv l"
  "set (inflight l) \<subseteq> set (inflight (fold dispatch ms l))"
proof -
  have step: "heap (dispatch m l) = heap l \<and> ops (dispatch m l) = ops l \<and> replies (dispatch m l) = replies l
    \<and> fresh (dispatch m l) = fresh l \<and> use_after_free (dispatch m l) = use_after_free l
    \<and> srv (dispatch m l) = srv l \<and> set (inflight l) \<subseteq> set (inflight (dispatch m l))" for m l
    by (cases m) auto
  then show "heap (fold dispatch ms l) = heap l" "ops (fold dispatch ms l) = ops l"
    "replies (fold dispatch ms l) = replies l" "fresh (fold dispatch ms l) = fresh l"
    "use_after_free (fold dispatch ms l) = use_after_free l" "srv (fold dispatch ms l) = srv l"
    "set (inflight l) \<subseteq> set (inflight (fold dispatch ms l))"
    by (induction ms arbitrary: l) (simp_all, blast)
qed

lemma dispatch_ok [simp]: "loop_ok (fold dispatch ms l) = loop_ok l"
  by (simp add: loop_ok_def ops_ok_def heap_ok_def replied_except_def answered_def)

text \<open>One completion on the request queue.\<close>

lemma on_request_live:
  assumes "loop_ok l" and "(tag, op) \<in> set (ops l)"
  obtains c where "heap l tag = Some c" and "expects c op" and "call_ok c"
  using assms unfolding loop_ok_def ops_ok_def heap_ok_def by blast

lemma replied_iff:
  "loop_ok l \<Longrightarrow> heap l tag = Some c \<Longrightarrow> (tag \<in> tags (replies l)) = (call_status c = FINISH)"
  by (auto simp: loop_ok_def replied_except_def answered_def heap_ok_def)

lemma serve_ok:
  assumes "ready tag l" and "heap l tag = Some c'" and "tag \<notin> tags (replies l)"
    and "Proceed_serve u c s = ((c', acts), s', msgs)"
  shows "loop_ok (fold (apply_action tag) acts l)"
proof -
  note shape = Proceed_serve_shape(3) [OF assms(4)]
  then show ?thesis using ready_done(1,2) [OF assms(1,2)] assms(3) by auto
qed

lemma apply_new_frame [simp]:
  "tag < fresh l \<Longrightarrow> heap (apply_action t (NewInCall ty) l) tag = heap l tag"
  "replies (apply_action t (NewInCall ty) l) = replies l"
  by (simp_all add: Let_def)

lemma on_request_ok:
  assumes "loop_ok l" and "(tag, op) \<in> set (ops l)" and "request_ok rq"
  shows "loop_ok (on_request u (tag, op) rq True l)"
proof -
  obtain c where c: "heap l tag = Some c" "expects c op" "call_ok c"
    using on_request_live [OF assms(1,2)] .
  let ?l = "l\<lparr>ops := remove1 (tag, op) (ops l)\<rparr>"
  let ?c = "case op of WaitRequest ty \<Rightarrow> fill rq c | _ \<Rightarrow> c"
  have okc: "call_ok ?c" using c(3) assms(3) by (simp add: fill_ok split: CallOp.split)
  obtain c' acts s' msgs where serve: "Proceed_serve u ?c (srv l) = ((c', acts), s', msgs)"
    by (metis prod.collapse)
  have ready: "ready tag ?l" by (rule take_event [OF assms(1,2)])
  have ready': "ready tag (?l\<lparr>srv := s', heap := (heap ?l)(tag \<mapsto> c')\<rparr>)"
    by (rule ready_update [OF ready Proceed_serve_shape(2) [OF serve okc]])
  have replied: "(tag \<in> tags (replies l)) = (call_status c = FINISH)"
    by (rule replied_iff [OF assms(1) c(1)])
  show ?thesis
  proof (cases op)
    case (WaitRequest ty)
    then have st: "call_status ?c = PROCESS" "call_type ?c = ty" "call_status c = PROCESS"
      using c(2) by simp_all
    let ?m = "apply_action tag (NewInCall ty) (?l\<lparr>srv := s', heap := (heap ?l)(tag \<mapsto> c')\<rparr>)"
    have "on_request u (tag, op) rq True l = fold dispatch msgs (fold (apply_action tag) acts ?m)"
      using c(1) st serve WaitRequest by (simp add: on_request_def Proceed_def Let_def del: apply_action.simps)
    moreover have "loop_ok (fold (apply_action tag) acts ?m)"
    proof (rule serve_ok [OF ready_new [OF ready'] _ _ serve])
      have "tag < fresh l" using ready by (simp add: ready_def)
      then show "heap ?m tag = Some c'" by (simp del: apply_action.simps)
      show "tag \<notin> tags (replies ?m)" using replied st(3) by (simp del: apply_action.simps)
    qed
    ultimately show ?thesis by simp
  next
    case WaitAlarm
    then have st: "call_status c = RETRY" using c(2) by simp
    let ?m = "?l\<lparr>srv := s', heap := (heap ?l)(tag \<mapsto> c')\<rparr>"
    have "on_request u (tag, op) rq True l = fold dispatch msgs (fold (apply_action tag) acts ?m)"
      using c(1) st serve WaitAlarm by (simp add: on_request_def Proceed_def Let_def)
    moreover have "loop_ok (fold (apply_action tag) acts ?m)"
      by (rule serve_ok [OF ready' _ _ serve]) (use replied st in simp_all)
    ultimately show ?thesis by simp
  next
    case WaitFinish
    then have st: "call_status c = FINISH" using c(2) by simp
    have "loop_ok (apply_action tag DeleteThis ?l)"
      using ready_done(3) [OF ready, of c] c(1) replied st by simp
    moreover have "on_request u (tag, op) rq True l = apply_action tag DeleteThis ?l"
      using c(1) st WaitFinish by (simp add: on_request_def Proceed_def Let_def)
    ultimately show ?thesis by simp
  qed
qed

text \<open>After a failed operation an object may stay without one, but nothing else changes.\<close>

lemma on_request_failed:
  assumes "loop_ok l" and "(tag, op) \<in> set (ops l)"
  shows "loop_ok (on_request u (tag, op) rq False l)"
  using take_event [OF assms] assms(1)
  by (simp add: on_request_def Let_def ready_def loop_ok_def replied_except_def answered_def)

lemma on_response_ok [simp]: "loop_ok (on_response oc st rp ok l) = loop_ok l"
  by (simp add: on_response_def Let_def split: prod.split)
    (simp add: loop_ok_def ops_ok_def heap_ok_def replied_except_def answered_def)

lemma turn_ok:
  assumes "loop_ok l" and "request_event_ok l re"
  shows "loop_ok (HandleRPCs_turn u re pe l)"
proof -
  have "loop_ok (case re of None \<Rightarrow> l | Some (ev, rq, ok) \<Rightarrow> on_request u ev rq ok l)"
  proof (cases re)
    case (Some e)
    obtain tag op rq ok where e: "e = ((tag, op), rq, ok)" by (metis prod.collapse)
    then show ?thesis
      using assms Some on_request_ok [of l tag op rq u] on_request_failed [of l tag op u rq]
      by (cases ok) (simp_all add: request_event_ok_def)
  qed (use assms(1) in simp)
  then show ?thesis by (simp add: HandleRPCs_turn_def Let_def split: option.split)
qed

lemma fold_new_ok: "loop_ok l \<Longrightarrow> loop_ok (fold (\<lambda>ty. apply_action 0 (NewInCall ty)) tys l)"
  by (induction tys arbitrary: l) (simp_all add: loop_new del: apply_action.simps)

lemma start_loop_ok: "loop_ok (HandleRPCs_start s)"
  unfolding HandleRPCs_start_def
  by (rule fold_new_ok) (simp add: loop_ok_def ops_ok_def heap_ok_def replied_except_def answered_def)

lemma loop_run_ok: "loop_run a l m \<Longrightarrow> loop_ok l \<Longrightarrow> loop_ok m"
  by (induction rule: loop_run.induct) (simp_all add: turn_ok)

section \<open>Waiting handlers and the server below\<close>

definition waiting :: "RequestTypes \<Rightarrow> Loop \<Rightarrow> nat" where
  "waiting ty l = length (filter (\<lambda>p. snd p = WaitRequest ty) (ops l))"

lemma length_filter_remove1:
  "x \<in> set xs \<Longrightarrow> length (filter P xs) = length (filter P (remove1 x xs)) + (if P x then 1 else 0)"
  by (induction xs) auto

lemma waiting_action:
  "waiting ty (apply_action tag (NewInCall ty') l) = waiting ty l + (if ty' = ty then 1 else 0)"
  "waiting ty (apply_action tag SetAlarm l) = waiting ty l"
  "waiting ty (apply_action tag (Finish r) l) = waiting ty l"
  "waiting ty (apply_action tag DeleteThis l) = waiting ty l"
  by (simp_all add: waiting_def Let_def)

lemma waiting_dispatch [simp]: "waiting ty (fold dispatch ms l) = waiting ty l"
  by (simp add: waiting_def)

lemma waiting_response [simp]: "waiting ty (on_response oc st rp ok l) = waiting ty l"
  by (simp add: on_response_def Let_def split: prod.split) (simp add: waiting_def)

text \<open>What serving does to the loop, seen from outside: how the two results of one call arise.\<close>

lemma on_request_cases:
  assumes "loop_ok l" and "(tag, op) \<in> set (ops l)" and "request_ok rq"
  obtains
    (served) c s' acts msgs where "server_run (srv l) s'"
      "acts = [SetAlarm] \<or> (\<exists>r. acts = [Finish r])" "op \<noteq> WaitFinish"
      "on_request u (tag, op) rq True l = fold dispatch msgs (fold (apply_action tag)
         ((case op of WaitRequest ty \<Rightarrow> [NewInCall ty] | _ \<Rightarrow> []) @ acts)
         (l\<lparr>ops := remove1 (tag, op) (ops l), srv := s', heap := (heap l)(tag \<mapsto> c)\<rparr>))"
  | (deleted) "op = WaitFinish" "on_request u (tag, op) rq True l =
      apply_action tag DeleteThis (l\<lparr>ops := remove1 (tag, op) (ops l)\<rparr>)"
proof -
  obtain c where c: "heap l tag = Some c" "expects c op" "call_ok c"
    using on_request_live [OF assms(1,2)] .
  let ?c = "case op of WaitRequest ty \<Rightarrow> fill rq c | _ \<Rightarrow> c"
  have okc: "call_ok ?c" using c(3) assms(3) by (simp add: fill_ok split: CallOp.split)
  obtain c' acts s' msgs where serve: "Proceed_serve u ?c (srv l) = ((c', acts), s', msgs)"
    by (metis prod.collapse)
  note run = Proceed_serve_run [OF serve okc]
  have shape: "acts = [SetAlarm] \<or> (\<exists>r. acts = [Finish r])" using Proceed_serve_shape(3) [OF serve] by auto
  show ?thesis
  proof (cases "op = WaitFinish")
    case True
    then show ?thesis using deleted c by (simp add: on_request_def Proceed_def Let_def)
  next
    case False
    then show ?thesis
      using served [OF run shape False, of msgs c'] c serve
      by (cases op) (simp_all add: on_request_def Proceed_def Let_def del: apply_action.simps)
  qed
qed

lemma on_request_waiting:
  assumes "loop_ok l" and "(tag, op) \<in> set (ops l)" and "request_ok rq"
  shows "waiting ty (on_request u (tag, op) rq True l) = waiting ty l"
proof -
  have rem: "waiting ty l = waiting ty (l\<lparr>ops := remove1 (tag, op) (ops l), srv := s', heap := h\<rparr>)
      + (if op = WaitRequest ty then 1 else 0)" for s' h
    using length_filter_remove1 [OF assms(2), of "\<lambda>p. snd p = WaitRequest ty"] by (simp add: waiting_def)
  show ?thesis
  proof (cases rule: on_request_cases [OF assms, of u])
    case (1 c s' acts msgs)
    then show ?thesis
      using rem [where s' = s' and h = "(heap l)(tag \<mapsto> c)"]
      by (cases op) (auto simp: waiting_action simp del: apply_action.simps)
  next
    case 2
    then show ?thesis using rem [where s' = "srv l" and h = "heap l"] by (simp add: waiting_def)
  qed
qed

lemma apply_action_srv [simp]: "srv (apply_action tag a l) = srv l"
  by (cases a) (simp_all add: Let_def)

lemma fold_action_srv [simp]: "srv (fold (apply_action tag) acts l) = srv l"
  by (induction acts arbitrary: l) simp_all

lemma on_request_srv:
  assumes "loop_ok l" and "(tag, op) \<in> set (ops l)" and "request_ok rq"
  shows "server_run (srv l) (srv (on_request u (tag, op) rq ok l))"
proof (cases ok)
  case True
  show ?thesis
  proof (cases rule: on_request_cases [OF assms, of u])
    case (1 c s' acts msgs)
    then show ?thesis using True by (simp del: fold_append)
  next
    case 2
    then show ?thesis using True by (simp add: server_run.stay)
  qed
qed (simp add: on_request_def Let_def server_run.stay)

lemma fill_reply_simps [simp]:
  "out_type (fill_reply st rp oc) = out_type oc"
  by (cases rp) simp_all

text \<open>An object in flight has an empty synchronisation reply until its answer arrives.\<close>

definition flight_ok :: "Loop \<Rightarrow> bool" where
  "flight_ok l \<longleftrightarrow> (\<forall>oc \<in> set (inflight l). sr_logs (out_syncReply oc) = [])"

lemma HandleRPCResponse_run:
  assumes "sr_logs (out_syncReply oc) = []" and "reply_ok rp"
  shows "server_run s (fst (HandleRPCResponse (fill_reply st rp oc) s))"
proof -
  have logs: "list_all log_entry_ok (sr_logs (out_syncReply (fill_reply st rp oc)))"
    using assms by (cases rp) simp_all
  show ?thesis
    using server_run_single [OF server_step.prepare_reply] server_run_single [OF server_step.accept_reply]
      server_run_single [OF server_step.sync_reply [OF logs]]
    by (simp add: HandleRPCResponse_def server_run.stay split: RequestTypes.split)
qed

lemma dispatch_flight: "flight_ok l \<Longrightarrow> flight_ok (fold dispatch ms l)"
proof (induction ms arbitrary: l)
  case (Cons m ms)
  have "flight_ok (dispatch m l)"
    using Cons.prems
    by (cases m) (auto simp: flight_ok_def OutCall_new_def sendPrepare_def sendAccept_def no_SyncRes_def)
  then show ?case using Cons.IH by simp
qed simp

lemma action_flight [simp]:
  "inflight (apply_action tag a l) = inflight l" "inflight (fold (apply_action tag) as l) = inflight l"
proof -
  show *: "inflight (apply_action tag a l) = inflight l" for a l by (cases a) (simp_all add: Let_def)
  show "inflight (fold (apply_action tag) as l) = inflight l"
    by (induction as arbitrary: l) (simp_all add: *)
qed

lemma on_request_flight: "flight_ok l \<Longrightarrow> flight_ok (on_request u ev rq ok l)"
  by (auto simp: on_request_def Let_def split: option.split prod.split intro!: dispatch_flight)
    (simp_all add: flight_ok_def)

lemma on_request_inflight: "set (inflight l) \<subseteq> set (inflight (on_request u ev rq ok l))"
proof -
  have "set (inflight l) \<subseteq> set (inflight (fold dispatch ms (fold (apply_action (fst ev)) as
      (l\<lparr>ops := x, srv := s, heap := h\<rparr>))))" for ms as x s h
    using dispatch_frame(7) [of "fold (apply_action (fst ev)) as (l\<lparr>ops := x, srv := s, heap := h\<rparr>)" ms] by simp
  then show ?thesis by (auto simp: on_request_def Let_def split: option.split prod.split)
qed

lemma on_response_flight: "flight_ok l \<Longrightarrow> flight_ok (on_response oc st rp ok l)"
  by (auto simp: on_response_def Let_def split: prod.split intro!: dispatch_flight)
    (auto simp: flight_ok_def dest: notin_set_remove1)

lemma on_response_srv:
  assumes "flight_ok l" and "oc \<in> set (inflight l)" and "reply_ok rp"
  shows "server_run (srv l) (srv (on_response oc st rp ok l))"
proof -
  have "sr_logs (out_syncReply oc) = []" using assms(1,2) by (simp add: flight_ok_def)
  then show ?thesis
    using HandleRPCResponse_run [OF _ assms(3), of oc "srv l" st]
    by (auto simp: on_response_def Let_def server_run.stay split: prod.split)
qed

lemma turn_parts:
  assumes "loop_ok l" and "flight_ok l" and "request_event_ok l re" and "response_event_ok l pe"
  shows "flight_ok (HandleRPCs_turn u re pe l)"
    and "server_run (srv l) (srv (HandleRPCs_turn u re pe l))"
    and "event_succeeds re \<Longrightarrow> waiting ty (HandleRPCs_turn u re pe l) = waiting ty l"
proof -
  define m where "m = (case re of None \<Rightarrow> l | Some (ev, rq, ok) \<Rightarrow> on_request u ev rq ok l)"
  have turn: "HandleRPCs_turn u re pe l =
      (case pe of None \<Rightarrow> m | Some (oc, st, rp, ok) \<Rightarrow> on_response oc st rp ok m)"
    unfolding HandleRPCs_turn_def Let_def m_def [symmetric] ..
  have m: "flight_ok m \<and> server_run (srv l) (srv m) \<and> set (inflight l) \<subseteq> set (inflight m)
      \<and> (event_succeeds re \<longrightarrow> waiting ty m = waiting ty l)"
  proof (cases re)
    case (Some e)
    obtain tag op rq ok where e: "e = ((tag, op), rq, ok)" by (metis prod.collapse)
    then have "(tag, op) \<in> set (ops l)" "request_ok rq" using assms(3) Some by (simp_all add: request_event_ok_def)
    then show ?thesis
      using assms(1,2) Some e on_request_srv [of l tag op rq u ok] on_request_waiting [of l tag op rq ty u]
        on_request_flight [of l u "(tag, op)" rq ok] on_request_inflight [of l u "(tag, op)" rq ok]
      by (auto simp: m_def event_succeeds_def)
  qed (use assms(2) in \<open>simp_all add: m_def server_run.stay\<close>)
  show "flight_ok (HandleRPCs_turn u re pe l)"
    using m by (auto simp: turn on_response_flight split: option.split)
  show "server_run (srv l) (srv (HandleRPCs_turn u re pe l))"
  proof (cases pe)
    case (Some e)
    obtain oc st rp ok where e: "e = (oc, st, rp, ok)" by (metis prod.collapse)
    then have "server_run (srv m) (srv (on_response oc st rp ok m))"
      using m assms(4) Some by (intro on_response_srv) (auto simp: response_event_ok_def)
    then have "server_run (srv l) (srv (on_response oc st rp ok m))" using m server_run_trans by blast
    then show ?thesis using turn Some e by simp
  qed (use m turn in simp)
  show "event_succeeds re \<Longrightarrow> waiting ty (HandleRPCs_turn u re pe l) = waiting ty l"
    using m by (auto simp: turn split: option.split)
qed

lemma fold_new_frame:
  "srv (fold (\<lambda>ty. apply_action 0 (NewInCall ty)) tys l) = srv l"
  "flight_ok (fold (\<lambda>ty. apply_action 0 (NewInCall ty)) tys l) = flight_ok l"
  "waiting ty (fold (\<lambda>ty. apply_action 0 (NewInCall ty)) tys l) = waiting ty l + count_list tys ty"
  by (induction tys arbitrary: l)
    (simp_all add: flight_ok_def waiting_action del: apply_action.simps)

lemma start_frame:
  "srv (HandleRPCs_start s) = s" "flight_ok (HandleRPCs_start s)" "waiting ty (HandleRPCs_start s) = 1"
  unfolding HandleRPCs_start_def fold_new_frame
  by (simp_all add: flight_ok_def) (cases ty; simp add: waiting_def call_kinds_def)

lemma loop_run_parts:
  assumes "loop_run a l m" and "loop_ok l" and "flight_ok l"
  shows "flight_ok m \<and> server_run (srv l) (srv m) \<and> (a \<longrightarrow> waiting ty m = waiting ty l)"
  using assms
proof (induction rule: loop_run.induct)
  case (turn l m re pe u)
  then have "loop_ok m" using loop_run_ok by blast
  then show ?case
    using turn turn_parts(1,2) [of m re pe u] turn_parts(3) [of m re pe ty u] server_run_trans by auto
qed (simp add: server_run.stay)

section \<open>No object is left without an operation\<close>

text \<open>Every live object but those of \<open>T\<close> has an operation outstanding.\<close>

definition live_but :: "nat set \<Rightarrow> Loop \<Rightarrow> bool" where
  "live_but T l \<longleftrightarrow> (\<forall>t. heap l t \<noteq> None \<longrightarrow> t \<in> T \<or> t \<in> tags (ops l))"

lemma live_action:
  "live_but T l \<Longrightarrow> live_but T (apply_action tag a l)"
  "live_but {tag} l \<Longrightarrow> \<forall>ty. a \<noteq> NewInCall ty \<Longrightarrow> live_but {} (apply_action tag a l)"
  by (cases a; force simp: live_but_def Let_def)+

lemma live_actions: "live_but T l \<Longrightarrow> live_but T (fold (apply_action tag) as l)"
  by (induction as arbitrary: l) (simp_all add: live_action(1))

lemma live_served:
  assumes "live_but {tag} l" and "\<exists>a \<in> set as. \<forall>ty. a \<noteq> NewInCall ty"
  shows "live_but {} (fold (apply_action tag) as l)"
  using assms
proof (induction as arbitrary: l)
  case (Cons b as)
  show ?case
  proof (cases "\<forall>ty. b \<noteq> NewInCall ty")
    case True
    then show ?thesis using live_actions live_action(2) [OF Cons.prems(1)] by simp
  next
    case False
    then show ?thesis using Cons.IH [OF live_action(1) [OF Cons.prems(1)]] Cons.prems(2) by auto
  qed
qed simp

lemma Proceed_acts:
  assumes "Proceed u c s = (c', s', acts, msgs)"
  shows "\<exists>a \<in> set acts. \<forall>ty. a \<noteq> NewInCall ty"
proof -
  obtain d as v ms where serve: "Proceed_serve u c s = ((d, as), v, ms)" by (metis prod.collapse)
  have "\<exists>a \<in> set as. \<forall>ty. a \<noteq> NewInCall ty" using Proceed_serve_shape(3) [OF serve] by auto
  then show ?thesis
    using assms serve by (cases "call_status c") (auto simp: Proceed_def Proceed_create_def)
qed

lemma on_request_keeps_live:
  assumes "loop_ok l" and "(tag, op) \<in> set (ops l)" and "live_but {} l"
  shows "live_but {} (on_request u (tag, op) rq True l)"
proof -
  obtain c where c: "heap l tag = Some c" by (rule on_request_live [OF assms(1,2)])
  let ?c = "case op of WaitRequest ty \<Rightarrow> fill rq c | _ \<Rightarrow> c"
  obtain c' s' acts msgs where proceed: "Proceed u ?c (srv l) = (c', s', acts, msgs)" by (metis prod_cases4)
  let ?l = "l\<lparr>ops := remove1 (tag, op) (ops l), srv := s', heap := (heap l)(tag \<mapsto> c')\<rparr>"
  have "t = tag \<or> t \<in> tags (ops ?l)" if t: "heap ?l t \<noteq> None" for t
  proof (cases "t = tag")
    case False
    then obtain op' where "(t, op') \<in> set (ops l)"
      using t assms(3) by (auto simp: live_but_def elim: tagsE)
    then have "(t, op') \<in> set (ops ?l)" using False by (simp add: in_set_remove1)
    then show ?thesis by (auto intro: tagsI)
  qed simp
  then have "live_but {tag} ?l" by (simp add: live_but_def)
  then have "live_but {} (fold (apply_action tag) acts ?l)"
    using live_served Proceed_acts [OF proceed] by blast
  moreover have "on_request u (tag, op) rq True l = fold dispatch msgs (fold (apply_action tag) acts ?l)"
    using c proceed by (simp add: on_request_def Let_def)
  ultimately show ?thesis by (simp add: live_but_def)
qed

lemma turn_keeps_live:
  assumes "loop_ok l" and "request_event_ok l re" and "event_succeeds re" and "live_but {} l"
  shows "live_but {} (HandleRPCs_turn u re pe l)"
proof -
  have "live_but {} (case re of None \<Rightarrow> l | Some (ev, rq, ok) \<Rightarrow> on_request u ev rq ok l)"
  proof (cases re)
    case (Some e)
    obtain tag op rq ok where "e = ((tag, op), rq, ok)" by (metis prod.collapse)
    then show ?thesis
      using assms Some on_request_keeps_live [of l tag op u rq] by (simp add: request_event_ok_def event_succeeds_def)
  qed (use assms(4) in simp)
  moreover have "live_but {} (on_response oc st rp ok m) = live_but {} m" for oc st rp ok m
    by (simp add: on_response_def live_but_def Let_def split: prod.split)
  ultimately show ?thesis by (simp add: HandleRPCs_turn_def Let_def split: option.split)
qed

lemma loop_run_live:
  assumes "loop_run True (HandleRPCs_start s) l"
  shows "live_but {} l"
  using assms
proof (induction "HandleRPCs_start s" l rule: loop_run.induct)
  case stay
  have "live_but {} m \<Longrightarrow> live_but {} (fold (\<lambda>ty. apply_action 0 (NewInCall ty)) tys m)" for m tys
    by (induction tys arbitrary: m) (simp_all add: live_action(1) del: apply_action.simps)
  then show ?case by (simp add: HandleRPCs_start_def live_but_def)
next
  case (turn m re pe u)
  then show ?case using turn_keeps_live loop_run_ok start_loop_ok by blast
qed

section \<open>Properties\<close>

text \<open>A first turn of the loop: a balance request arrives at its object, number 4.\<close>

definition idle_server :: ServerImpl where
  "idle_server = ServerImpl_new initial_constants 1 ''S1'' \<lparr>contents = None, readable = True, writable = True\<rparr> plain_boot"

definition balance_event :: "request_event option" where
  "balance_event = Some ((4, WaitRequest BALANCE), ReqBalance 7, True)"

definition first_turn :: Loop where
  "first_turn = HandleRPCs_turn no_entry balance_event None (HandleRPCs_start idle_server)"

lemma start_ops:
  "ops (HandleRPCs_start s) = zip [0..<11] (map WaitRequest call_kinds)" "fresh (HandleRPCs_start s) = 11"
  "heap (HandleRPCs_start s) 4 = Some (fst (InCall_new BALANCE))" "replies (HandleRPCs_start s) = []"
  by (simp_all add: HandleRPCs_start_def call_kinds_def Let_def numeral_eq_Suc upt_rec)

lemma first_turn_run: "loop_run True (HandleRPCs_start idle_server) first_turn"
  unfolding first_turn_def
  by (rule loop_run.turn [OF loop_run.stay])
    (simp_all add: balance_event_def request_event_ok_def response_event_ok_def event_succeeds_def
      start_ops call_kinds_def upt_rec)

lemma first_turn_simps:
  "replies first_turn = [(4, BalanceReply 0)]" "fresh first_turn = 12"
  "(4, WaitFinish) \<in> set (ops first_turn)" "(11, WaitRequest BALANCE) \<in> set (ops first_turn)"
proof -
  have "balances (srv (HandleRPCs_start idle_server)) = Map.empty"
    by (simp add: start_frame idle_server_def)
  then show "replies first_turn = [(4, BalanceReply 0)]" "fresh first_turn = 12"
    "(4, WaitFinish) \<in> set (ops first_turn)" "(11, WaitRequest BALANCE) \<in> set (ops first_turn)"
    by (simp_all add: first_turn_def HandleRPCs_turn_def balance_event_def on_request_def start_ops
      Proceed_def Proceed_serve_def InCall_new_def Proceed_create_def blank_call_def finish_def
      processGetBalanceCall_def Let_def)
qed

text \<open>
  The event loop never touches a deleted call object: in every state it can reach,
  failed operations included, each outstanding operation belongs to a live object that is in
  the state waiting for it, and no object has two of them.
\<close>

theorem loop_no_use_after_free:
  assumes "loop_run a (HandleRPCs_start s) l"
  shows "\<not> use_after_free l \<and> distinct (map fst (ops l))
    \<and> (\<forall>t op. (t, op) \<in> set (ops l) \<longrightarrow> (\<exists>c. heap l t = Some c \<and> expects c op))"
  using loop_run_ok [OF assms start_loop_ok] by (simp add: loop_ok_def ops_ok_def)

theorem loop_no_use_after_free_witness:
  "\<exists>c. heap first_turn 4 = Some c \<and> call_status c = FINISH"
  using loop_no_use_after_free [OF first_turn_run] first_turn_simps(3) by fastforce

text \<open>
  C25. A call object replies at most once, and it is never dropped unanswered. In every state the
  loop can reach, the objects that have sent a reply are those in state \<open>FINISH\<close> and the deleted
  ones, and none has sent two; and as long as no operation of the request queue fails, every object
  that has not replied has an operation outstanding: it waits for its request, or for the alarm
  of its next attempt. It may wait for ever, as the theorem \<open>lonely_leader_waits\<close> shows.
\<close>

theorem loop_replies_at_most_once:
  assumes "loop_run a (HandleRPCs_start s) l"
  shows "distinct (map fst (replies l))
    \<and> (\<forall>t. t < fresh l \<longrightarrow>
        (t \<in> fst ` set (replies l)) = (\<forall>c. heap l t = Some c \<longrightarrow> call_status c = FINISH))
    \<and> (a \<longrightarrow> (\<forall>t. t < fresh l \<and> t \<notin> fst ` set (replies l) \<longrightarrow>
        (\<exists>op. (t, op) \<in> set (ops l) \<and> op \<noteq> WaitFinish)))"
proof -
  have ok: "loop_ok l" by (rule loop_run_ok [OF assms start_loop_ok])
  then have "replied_except {} l" by (simp add: loop_ok_def)
  then have replied: "distinct (map fst (replies l))"
    "t < fresh l \<Longrightarrow> (t \<in> fst ` set (replies l)) = (\<forall>c. heap l t = Some c \<longrightarrow> call_status c = FINISH)" for t
    by (simp_all add: replied_except_def answered_def split: option.split)
  have "\<exists>op. (t, op) \<in> set (ops l) \<and> op \<noteq> WaitFinish" if "a" "t < fresh l" "t \<notin> fst ` set (replies l)" for t
  proof -
    note open_call = that
    obtain c where c: "heap l t = Some c" "call_status c \<noteq> FINISH" using replied(2) open_call(2,3) by blast
    then obtain op where "(t, op) \<in> set (ops l)"
      using loop_run_live [of s l] assms open_call(1) by (fastforce simp: live_but_def elim!: tagsE)
    moreover from this obtain c' where "heap l t = Some c'" "expects c' op"
      using ok unfolding loop_ok_def ops_ok_def by blast
    then have "expects c op" using c(1) by simp
    ultimately show ?thesis using c(2) by (intro exI [of _ op]) auto
  qed
  then show ?thesis using replied by blast
qed

theorem loop_replies_at_most_once_witness:
  "distinct (map fst (replies first_turn)) \<and> (\<exists>op. (11, op) \<in> set (ops first_turn) \<and> op \<noteq> WaitFinish)"
proof -
  have "11 < fresh first_turn" "11 \<notin> fst ` set (replies first_turn)" by (simp_all add: first_turn_simps)
  then show ?thesis using loop_replies_at_most_once [OF first_turn_run] by blast
qed

text \<open>
  C26. The server keeps listening: as long as no operation of the request queue fails, there
  is in every reachable state exactly one object waiting for a request of each kind, so the
  next request of that kind can be taken.
\<close>

theorem loop_keeps_listening:
  assumes "loop_run True (HandleRPCs_start s) l"
  shows "length (filter (\<lambda>p. snd p = WaitRequest ty) (ops l)) = 1"
  using loop_run_parts [OF assms start_loop_ok start_frame(2), of ty] start_frame(3) [of ty s]
  by (simp add: waiting_def)

theorem loop_keeps_listening_witness:
  "length (filter (\<lambda>p. snd p = WaitRequest BALANCE) (ops first_turn)) = 1"
  by (rule loop_keeps_listening [OF first_turn_run])

text \<open>
  C24. The loop drives the server through its handlers only: the server of every reachable
  state of the loop is one that the handlers, taken one after the other, can reach. All
  invariants of the server hold under the event loop.
\<close>

theorem loop_refines_server:
  assumes "loop_run a (HandleRPCs_start s) l"
  shows "server_run s (srv l)"
  using loop_run_parts [OF assms start_loop_ok start_frame(2)] start_frame(1) [of s] by simp

theorem loop_refines_server_witness:
  "server_run idle_server (srv first_turn)"
  by (rule loop_refines_server [OF first_turn_run])

end
