(* ===== verification/Tpc_Quorum.thy ===== *)
theory Tpc_Quorum
  imports Tpc_Server_Steps
begin

text \<open>
  The deployment: which servers form a cluster, whom a server talks to, and whether any two
  majorities of a cluster meet. \<open>MAJORITY\<close> is the constant \<open>2\<close> of \<open>server.h\<close>, whatever the
  size of a cluster.
\<close>

section \<open>Clusters of servers\<close>

definition setup_ok :: "int \<Rightarrow> int \<Rightarrow> bool" where
  "setup_ok nc sz \<longleftrightarrow> 0 < nc \<and> 0 < sz \<and> nc * sz \<le> 2147483647"

definition block :: "int \<Rightarrow> int \<Rightarrow> int set" where
  "block sz k = {(k - 1) * sz + 1..k * sz}"

lemma card_block: "0 < sz \<Longrightarrow> card (block sz k) = nat sz"
  by (simp add: block_def algebra_simps)

lemma setup_total:
  assumes "setup_ok nc sz"
  shows "i32 (nc * sz) = nc * sz" and "int32 sz" and "1 \<le> i \<Longrightarrow> i \<le> nc * sz \<Longrightarrow> int32 i"
proof -
  have "0 < nc * sz" "1 * sz \<le> nc * sz"
    using assms unfolding setup_ok_def by (simp, intro mult_right_mono) auto
  moreover have "nc * sz \<le> 2147483647" "0 < sz" using assms by (simp_all add: setup_ok_def)
  ultimately have "int32 (nc * sz)" and sz: "int32 sz"
    and i: "1 \<le> i \<Longrightarrow> i \<le> nc * sz \<Longrightarrow> int32 i"
    unfolding int32_def by linarith+
  then show "i32 (nc * sz) = nc * sz" by (intro i32_id)
  show "int32 sz" by (rule sz)
  show "1 \<le> i \<Longrightarrow> i \<le> nc * sz \<Longrightarrow> int32 i" by (rule i)
qed

lemma server_in_block:
  assumes "setup_ok nc sz" and "1 \<le> i" and "i \<le> nc * sz"
  shows "getClusterIdFromServerId (fresh_setup nc sz) i = k \<longleftrightarrow> i \<in> block sz k"
proof -
  have "0 < sz" using assms(1) by (simp add: setup_ok_def)
  then show ?thesis
    using server_cluster_iff [of i "fresh_setup nc sz" k] setup_total(2,3) [OF assms(1)] assms(2,3)
    by (auto simp: block_def)
qed

lemma block_in_range:
  assumes "setup_ok nc sz" and "1 \<le> k" and "k \<le> nc" and "i \<in> block sz k"
  shows "1 \<le> i \<and> i \<le> nc * sz"
proof -
  have "0 < sz" using assms(1) by (simp add: setup_ok_def)
  then have "0 \<le> (k - 1) * sz" "k * sz \<le> nc * sz"
    using assms(2,3) by (simp_all add: mult_right_mono)
  then show ?thesis using assms(4) by (auto simp: block_def)
qed

lemma cluster_members:
  assumes "setup_ok nc sz" and "1 \<le> k" and "k \<le> nc"
  shows "set (getServersInCluster (fresh_setup nc sz) k) = server_name_of ` block sz k"
proof -
  have "set (getServersInCluster (fresh_setup nc sz) k) =
      server_name_of ` {i \<in> {1..nc * sz}. getClusterIdFromServerId (fresh_setup nc sz) i = k}"
    by (force simp: getServersInCluster_eq fresh_setup_ids(3) setup_total(1) [OF assms(1)])
  also have "{i \<in> {1..nc * sz}. getClusterIdFromServerId (fresh_setup nc sz) i = k} = block sz k"
    using server_in_block [OF assms(1)] block_in_range [OF assms] by auto
  finally show ?thesis .
qed

lemma distinct_filter_fst: "distinct (map fst xs) \<Longrightarrow> distinct (map fst (filter P xs))"
  by (induction xs) auto

text \<open>
  \<open>setupApplicationState\<close> and \<open>getServersInCluster\<close> divide the servers into consecutive
  blocks: cluster \<open>k\<close> has exactly the servers \<open>S((k-1)*size+1)\<close> to \<open>S(k*size)\<close>, each named once.
  The divisions in \<open>double\<close> introduce no error.
\<close>

theorem servers_of_cluster:
  assumes "setup_ok nc sz" and "1 \<le> k" and "k \<le> nc"
  shows "set (getServersInCluster (fresh_setup nc sz) k) = server_name_of ` {(k - 1) * sz + 1..k * sz}
    \<and> distinct (getServersInCluster (fresh_setup nc sz) k)
    \<and> length (getServersInCluster (fresh_setup nc sz) k) = nat sz"
proof -
  let ?l = "getServersInCluster (fresh_setup nc sz) k"
  have d: "distinct ?l"
    using smap_ok_distinct [OF fresh_setup_ids(1)] by (simp add: getServersInCluster_eq distinct_filter_fst)
  have "inj_on server_name_of A" for A by (simp add: inj_on_def)
  then have "card (server_name_of ` block sz k) = nat sz"
    using assms(1) by (simp add: card_image card_block setup_ok_def)
  then have "length ?l = nat sz"
    using distinct_card [OF d] cluster_members [OF assms] by simp
  then show ?thesis using d cluster_members [OF assms] by (simp add: block_def)
qed

theorem servers_of_cluster_witness:
  "set (getServersInCluster (fresh_setup 3 3) 2) = server_name_of ` {4..6}"
  using servers_of_cluster [of 3 3 2] by (simp add: setup_ok_def)

text \<open>Integer division rounded up.\<close>

definition rounded_up :: "int \<Rightarrow> int \<Rightarrow> int" where
  "rounded_up a b = (a + b - 1) div b"

lemma rounded_up_eq:
  assumes "0 < b"
  shows "rounded_up a b = - (- a div b)"
proof -
  have "- a = (- a div b) * b + - a mod b" by simp
  then have "a + b - 1 = (b - 1 - - a mod b) + - (- a div b) * b" by (simp add: algebra_simps)
  then have "rounded_up a b = ((b - 1 - - a mod b) + - (- a div b) * b) div b" by (simp only: rounded_up_def)
  also have "\<dots> = - (- a div b) + (b - 1 - - a mod b) div b" using assms by (intro div_mult_self1) simp
  also have "(b - 1 - - a mod b) div b = 0"
    using pos_mod_bound [OF assms, of "- a"] pos_mod_sign [OF assms, of "- a"] by (intro div_pos_pos_trivial) linarith+
  finally show ?thesis by simp
qed

text \<open>
  C37. The arithmetic in \<open>double\<close> computes what it stands for: the rounded quotient of the
  code, rounded up, is integer division rounded up, for every server number and size of a
  cluster that are \<open>int\<close>s, and for every client number, the product with the number of clusters
  wrapping around as \<open>int\<close> does.
\<close>

theorem cluster_ids_exact:
  assumes "int32 i" and "int32 (cluster_size cs)" and "0 < cluster_size cs"
  shows "getClusterIdFromServerId cs i = rounded_up i (cluster_size cs)
    \<and> getClusterIdFromClientId cs c = rounded_up (i32 (c * num_clusters cs)) total_clients"
  using assms server_cluster_eq [of i cs] client_cluster_eq [of cs c]
  by (simp add: rounded_up_eq total_clients_def)

theorem cluster_ids_exact_witness:
  "getClusterIdFromServerId (fresh_setup 3 3) 7 = 3 \<and> getClusterIdFromClientId (fresh_setup 3 3) 1001 = 2"
  using cluster_ids_exact [of 7 "fresh_setup 3 3" 1001] by (simp add: int32_def i32_id rounded_up_def total_clients_def)

text \<open>
  The clients are divided evenly when the number of clusters divides their number:
  cluster \<open>k\<close> has exactly the clients \<open>(k-1)*n+1\<close> to \<open>k*n\<close>, \<open>n\<close> being the clients per
  cluster, and no other number belongs to it as long as the product in the code fits \<open>int\<close>.
\<close>

theorem clients_of_cluster:
  assumes "0 < num_clusters cs" and "num_clusters cs * n = total_clients"
    and "int32 (i * num_clusters cs)"
  shows "getClusterIdFromClientId cs i = k \<longleftrightarrow> (k - 1) * n < i \<and> i \<le> k * n"
proof -
  have "(3000::int) = n * num_clusters cs" using assms(2) by (simp add: total_clients_def algebra_simps)
  then have "(k - 1) * 3000 = (k - 1) * n * num_clusters cs" "k * 3000 = k * n * num_clusters cs"
    by (simp_all add: algebra_simps)
  then show ?thesis
    using client_cluster_iff [OF assms(3), of k] assms(1)
    by (simp only: mult_less_cancel_right_pos mult_le_cancel_right_pos)
qed

theorem clients_of_cluster_witness:
  "getClusterIdFromClientId (fresh_setup 3 3) 1000 = 1 \<and> getClusterIdFromClientId (fresh_setup 3 3) 1001 = 2"
  using clients_of_cluster [of "fresh_setup 3 3" 1000 1000 1] clients_of_cluster [of "fresh_setup 3 3" 1000 1001 2]
  by (simp add: total_clients_def int32_def)

section \<open>Peers\<close>

definition empty_file :: disk_file where
  "empty_file = \<lparr>contents = None, readable = True, writable = True\<rparr>"

lemma fold_insort:
  "set (fold (\<lambda>p acc. if P (snd p) then insort_insert (snd p) acc else acc) ps acc) =
     set acc \<union> {i \<in> snd ` set ps. P i}"
  "sorted acc \<Longrightarrow> distinct acc \<Longrightarrow>
     sorted (fold (\<lambda>p acc. if P (snd p) then insort_insert (snd p) acc else acc) ps acc)
     \<and> distinct (fold (\<lambda>p acc. if P (snd p) then insort_insert (snd p) acc else acc) ps acc)"
  by (induction ps arbitrary: acc)
    (auto simp: set_insort_insert sorted_insort_insert distinct_insort_insert)

lemma ServerImpl_new_stubs [simp]: "stubs (ServerImpl_new cs i name f v) = []"
  by (simp add: ServerImpl_new_def resetDisconnectedState_def)

lemma stubs_of_member:
  assumes "setup_ok nc sz" and "1 \<le> i" and "i \<le> nc * sz"
  shows "set (stubs (started (fresh_setup nc sz) i name f v)) =
      block sz (getClusterIdFromServerId (fresh_setup nc sz) i) - {i}
    \<and> distinct (stubs (started (fresh_setup nc sz) i name f v))"
proof -
  let ?cs = "fresh_setup nc sz" let ?k = "getClusterIdFromServerId ?cs i"
  let ?P = "\<lambda>j. j \<noteq> i \<and> getClusterIdFromServerId ?cs j = ?k"
  have stubs: "stubs (started ?cs i name f v) =
      fold (\<lambda>p acc. if ?P (snd p) then insort_insert (snd p) acc else acc) (server_ids ?cs) []"
    by (simp add: started_eq run_stubs_def)
  have ids: "snd ` set (server_ids ?cs) = {1..nc * sz}"
    by (simp add: fresh_setup_ids(3) setup_total(1) [OF assms(1)] image_image)
  have "i \<in> block sz ?k" using server_in_block [OF assms, of ?k] by simp
  then have "0 < ?k * sz" "(?k - 1) * sz < nc * sz" using assms(2,3) by (auto simp: block_def)
  moreover have "0 < sz" using assms(1) by (simp add: setup_ok_def)
  ultimately have "1 \<le> ?k" "?k \<le> nc" by (simp_all add: zero_less_mult_iff)
  then have range: "1 \<le> j \<and> j \<le> nc * sz" if "j \<in> block sz ?k" for j
    using block_in_range [OF assms(1) _ _ that] by blast
  have "{j \<in> {1..nc * sz}. ?P j} = block sz ?k - {i}"
    using server_in_block [OF assms(1)] range by auto
  then show ?thesis
    unfolding stubs using fold_insort(1) [of ?P "server_ids ?cs" "[]"]
      fold_insort(2) [of "[]" ?P "server_ids ?cs"] by (simp add: ids)
qed

text \<open>
  A server of the deployment has a stub for exactly the other members of its cluster:
  the requests of a round go to each of them once, and to nobody else.
\<close>

theorem stubs_are_peers:
  assumes "setup_ok nc sz" and "1 \<le> i" and "i \<le> nc * sz"
  shows "set (stubs (started (fresh_setup nc sz) i name f v)) =
      block sz (getClusterIdFromServerId (fresh_setup nc sz) i) - {i}
    \<and> distinct (stubs (started (fresh_setup nc sz) i name f v))"
  by (rule stubs_of_member [OF assms])

theorem stubs_are_peers_witness:
  "set (stubs (started (fresh_setup 3 3) 5 ''S5'' empty_file plain_boot)) = {4, 6}"
proof -
  have "getClusterIdFromServerId (fresh_setup 3 3) 5 = 2"
    by (subst server_cluster_eq) (simp_all add: int32_def)
  moreover have "{4..6} = {4, 5, 6::int}" by auto
  ultimately show ?thesis
    using stubs_are_peers [of 3 3 5 "''S5''" empty_file plain_boot] by (simp add: setup_ok_def block_def) auto
qed

text \<open>
  Synchronisation requests always find their stub: a replica that is asked by a peer
  sends its request to that peer, and a proposer that learns that it is behind sends it to the
  replica that told it, whatever the state of both. The empty pointer that \<open>stubs_[id]\<close>
  would create is never used.
\<close>

theorem sync_requests_reach_peers:
  assumes "server_id p \<in> set (stubs s)" and "server_id s \<in> set (stubs p)"
    and "bal_server_id (pq_ballot q) = server_id s"
  shows "set (snd (snd (processPrepareCall q no_PrepareRes p))) \<subseteq> {SendSync (server_id s) (last_inserted p)}
    \<and> set (snd (handlePrepareReply st q (fst (snd (processPrepareCall q no_PrepareRes p))) s))
        \<subseteq> {SendSync (server_id p) (last_inserted s)}"
  using assms
  by (auto simp: processPrepareCall_def handlePrepareReply_def send_sync_def no_PrepareRes_def Let_def
    split: option.splits if_splits)

text \<open>The process of server \<open>S<i>\<close> of a deployment starts in the initial state that the properties speak of.\<close>

lemma addresses_fold:
  "server_addresses (fold setup_server is cs) =
     fold (\<lambda>(k, v). smap_set k v)
       (map (\<lambda>i. (server_name_of i, ''localhost:'' @ to_string (i32 (50000 + i)))) is) (server_addresses cs)"
  by (induction "is" arbitrary: cs) (auto simp: setup_server_def)

lemma fresh_setup_address:
  assumes "1 \<le> i" and "i \<le> i32 (nc * sz)"
  shows "map_of (server_addresses (fresh_setup nc sz)) (server_name_of i) \<noteq> None"
proof -
  let ?kvs = "map (\<lambda>i. (server_name_of i, ''localhost:'' @ to_string (i32 (50000 + i)))) [1..i32 (nc * sz)]"
  have "map_of (server_addresses (fresh_setup nc sz)) = map_of (rev ?kvs)"
    by (simp add: fresh_setup_def setupApplicationState_def addresses_fold initial_constants_def smap.get_fold)
  moreover have "server_name_of i \<in> fst ` set (rev ?kvs)" using assms by (force simp: image_image)
  ultimately show ?thesis by (simp add: map_of_eq_None_iff)
qed

lemma server_main_started:
  assumes "setup_ok nc sz" and "1 \<le> i" and "i \<le> nc * sz" and "int32 nc"
  shows "server_main [prog, server_name_of i, to_string nc, to_string sz] f v True True =
     Inr (Inr (started (fresh_setup nc sz) i (server_name_of i) f v, True))"
proof -
  have "i \<le> i32 (nc * sz)" using assms(3) setup_total(1) [OF assms(1)] by simp
  then obtain x where "map_of (server_ids (fresh_setup nc sz)) (server_name_of i) = Some i"
    "map_of (server_addresses (fresh_setup nc sz)) (server_name_of i) = Some x"
    using fresh_setup_ids(2) [of nc sz i i] fresh_setup_address [OF assms(2)] assms(2) by auto
  then show ?thesis
    using stoi_to_string [OF assms(4)] stoi_to_string [OF setup_total(2) [OF assms(1)]]
    by (simp add: server_main_def fresh_setup_def [symmetric] RunServer_def started_def run_setup_def Let_def)
qed

section \<open>Majorities\<close>

text \<open>What a quorum system needs: more than half of the members in every quorum.\<close>

locale quorum_system =
  fixes members :: "'a set" and quorum :: int
  assumes finite_members: "finite members"
    and majority: "int (card members) < 2 * quorum"
begin

lemma quorums_meet:
  assumes "A \<subseteq> members" and "B \<subseteq> members" and "quorum \<le> int (card A)" and "quorum \<le> int (card B)"
  shows "A \<inter> B \<noteq> {}"
proof
  assume "A \<inter> B = {}"
  moreover have "finite A" "finite B" using assms(1,2) finite_members by (auto intro: finite_subset)
  ultimately have "card A + card B \<le> card members"
    using card_mono [OF finite_members, of "A \<union> B"] assms(1,2) by (simp add: card_Un_disjoint)
  then show False using majority assms(3,4) by linarith
qed

lemma quorum_not_disjoint_sum:
  assumes "A \<subseteq> members" and "quorum \<le> int (card A)"
  shows "int (card (members - A)) < quorum"
proof -
  have "card (members - A) = card members - card A"
    using assms(1) finite_members by (meson card_Diff_subset finite_subset)
  moreover have "card A \<le> card members" using assms(1) finite_members by (simp add: card_mono)
  ultimately show ?thesis using majority assms(2) by linarith
qed

end

lemma small_cluster: "int (card (server_name_of ` block (min sz 3) k)) < 2 * MAJORITY"
proof -
  have "card (server_name_of ` block (min sz 3) k) \<le> card (block (min sz 3) k)"
    by (rule card_image_le) (simp add: block_def)
  also have "\<dots> \<le> 3" by (simp add: block_def algebra_simps)
  finally show ?thesis by (simp add: MAJORITY_def)
qed

interpretation shard: quorum_system "server_name_of ` block (min sz 3) k" MAJORITY for sz k
  by unfold_locales (simp add: block_def, rule small_cluster)

text \<open>
  C30. With clusters of at most three servers any two majorities of a cluster share a server,
  which is what Paxos needs to be safe; with four or more servers \<open>MAJORITY\<close>, which stays
  \<open>2\<close>, admits two disjoint majorities.
\<close>

theorem majorities_meet_iff:
  assumes "setup_ok nc sz" and "1 \<le> k" and "k \<le> nc"
  shows "(\<forall>A B. A \<subseteq> set (getServersInCluster (fresh_setup nc sz) k)
             \<and> B \<subseteq> set (getServersInCluster (fresh_setup nc sz) k)
             \<and> MAJORITY \<le> int (card A) \<and> MAJORITY \<le> int (card B) \<longrightarrow> A \<inter> B \<noteq> {})
    \<longleftrightarrow> sz \<le> 3"
    (is "?meet \<longleftrightarrow> _")
proof
  assume meet: ?meet
  show "sz \<le> 3"
  proof (rule ccontr)
    let ?b = "(k - 1) * sz"
    let ?A = "{server_name_of (?b + 1), server_name_of (?b + 2)}"
    let ?B = "{server_name_of (?b + 3), server_name_of (?b + 4)}"
    assume "\<not> sz \<le> 3"
    then have "?A \<subseteq> server_name_of ` block sz k" "?B \<subseteq> server_name_of ` block sz k"
      by (auto simp: block_def algebra_simps intro!: imageI)
    moreover have "card ?A = 2" "card ?B = 2" "?A \<inter> ?B = {}" by simp_all
    ultimately show False
      using meet [unfolded cluster_members [OF assms], rule_format, of ?A ?B]
      by (simp only: MAJORITY_def) simp
  qed
next
  assume "sz \<le> 3"
  then show ?meet using shard.quorums_meet [of _ sz k] cluster_members [OF assms] by (simp add: min_def)
qed

theorem majorities_meet_iff_witness:
  "\<exists>A B. A \<subseteq> set (getServersInCluster (fresh_setup 1 5) 1) \<and> B \<subseteq> set (getServersInCluster (fresh_setup 1 5) 1)
     \<and> MAJORITY \<le> int (card A) \<and> MAJORITY \<le> int (card B) \<and> A \<inter> B = {}"
  using majorities_meet_iff [of 1 5 1] by (simp add: setup_ok_def)

theorem sync_requests_reach_peers_witness:
  "set (snd (snd (processPrepareCall \<lparr>pq_ballot = \<lparr>bal_num = 5, bal_server_id = 1\<rparr>, pq_last_inserted = 3\<rparr> no_PrepareRes
      (started (fresh_setup 3 3) 2 ''S2'' empty_file plain_boot)))) \<subseteq> {SendSync 1 (- 1)}"
proof -
  have cl: "getClusterIdFromServerId (fresh_setup 3 3) 1 = 1" "getClusterIdFromServerId (fresh_setup 3 3) 2 = 1"
    by (subst server_cluster_eq; simp add: int32_def)+
  have "1 \<in> set (stubs (started (fresh_setup 3 3) 2 ''S2'' empty_file plain_boot))"
    "2 \<in> set (stubs (started (fresh_setup 3 3) 1 ''S1'' empty_file plain_boot))"
    using stubs_of_member [of 3 3 2 "''S2''" empty_file plain_boot] stubs_of_member [of 3 3 1 "''S1''" empty_file plain_boot]
    by (simp_all add: cl setup_ok_def block_def)
  moreover have "server_id (started (fresh_setup 3 3) 2 ''S2'' empty_file plain_boot) = 2"
    "server_id (started (fresh_setup 3 3) 1 ''S1'' empty_file plain_boot) = 1"
    "last_inserted (started (fresh_setup 3 3) 2 ''S2'' empty_file plain_boot) = - 1"
    by (simp_all add: started_eq)
  ultimately show ?thesis
    using sync_requests_reach_peers [of "started (fresh_setup 3 3) 2 ''S2'' empty_file plain_boot"
      "started (fresh_setup 3 3) 1 ''S1'' empty_file plain_boot"
      "\<lparr>pq_ballot = \<lparr>bal_num = 5, bal_server_id = 1\<rparr>, pq_last_inserted = 3\<rparr>"]
    by simp
qed

end
