(* ===== verification/Tpc_Server_Main.thy ===== *)
theory Tpc_Server_Main
  imports Tpc_Calls_Props Tpc_Quorum
begin

text \<open>
  The server process from its arguments to its end: \<open>main\<close>, \<open>HandleRPCs\<close> with the flag
  \<open>shutdown\<close>, and the signals (\<open>server/server.cc\<close>). What the completion queues deliver and when
  a signal arrives is a schedule, an argument of the model.
\<close>

section \<open>The event loop\<close>

datatype ServerEvent =
  Polled WALEntry "request_event option" "response_event option"
| Interrupt

datatype LoopEnd = Polling Loop | Left Loop | Killed

text \<open>
  The signal handler sets the flag. Until it is installed, a signal has its default effect and
  ends the process.
\<close>

definition handler :: "bool \<Rightarrow> bool" where
  "handler shutdown = True"

fun HandleRPCs_loop :: "bool \<Rightarrow> bool \<Rightarrow> ServerEvent list \<Rightarrow> Loop \<Rightarrow> LoopEnd" where
  "HandleRPCs_loop installed shutdown [] l = (if shutdown then Left l else Polling l)"
| "HandleRPCs_loop installed shutdown (Interrupt # evs) l =
     (if installed then HandleRPCs_loop installed (handler shutdown) evs l else Killed)"
| "HandleRPCs_loop installed shutdown (Polled u re pe # evs) l =
     (if shutdown then Left l else HandleRPCs_loop installed shutdown evs (HandleRPCs_turn u re pe l))"

definition HandleRPCs :: "bool \<Rightarrow> bool \<Rightarrow> ServerEvent list \<Rightarrow> ServerImpl \<Rightarrow> LoopEnd" where
  "HandleRPCs installed shutdown evs s = HandleRPCs_loop installed shutdown evs (HandleRPCs_start s)"

section \<open>The process\<close>

datatype ServerEnd = ServerExit int | ServerRuns Loop | ServerKilled

text \<open>
  \<open>main\<close> installs the handlers after \<open>RunServer\<close> has returned, so the loop runs without them.
  Exceptions are caught and logged; reaching the end of \<open>main\<close> is exit status \<open>0\<close>.
\<close>

definition server_process ::
  "string list \<Rightarrow> disk_file \<Rightarrow> Boot \<Rightarrow> bool \<Rightarrow> bool \<Rightarrow> ServerEvent list \<Rightarrow> ServerEnd" where
  "server_process argv f v open_ok write_ok evs =
     (case server_main argv f v open_ok write_ok of
        Inl n \<Rightarrow> ServerExit n
      | Inr (Inl e) \<Rightarrow> ServerExit 0
      | Inr (Inr (s, entered)) \<Rightarrow>
          (if entered
           then case HandleRPCs False False evs s of
                  Polling l \<Rightarrow> ServerRuns l | Left l \<Rightarrow> ServerExit 0 | Killed \<Rightarrow> ServerKilled
           else ServerExit 0))"

section \<open>Schedules\<close>

fun schedule_ok :: "ServerEvent list \<Rightarrow> Loop \<Rightarrow> bool" where
  "schedule_ok [] l \<longleftrightarrow> True"
| "schedule_ok (Interrupt # evs) l \<longleftrightarrow> schedule_ok evs l"
| "schedule_ok (Polled u re pe # evs) l \<longleftrightarrow> request_event_ok l re \<and> response_event_ok l pe
     \<and> schedule_ok evs (HandleRPCs_turn u re pe l)"

lemma loop_killed: "Interrupt \<in> set evs \<Longrightarrow> HandleRPCs_loop False False evs l = Killed"
  by (induction evs l rule: schedule_ok.induct) auto

lemma loop_polls:
  assumes "Interrupt \<notin> set evs" and "schedule_ok evs m" and "loop_run False l m"
  shows "\<exists>k. HandleRPCs_loop i False evs m = Polling k \<and> loop_run False l k"
  using assms
proof (induction evs m rule: schedule_ok.induct)
  case (3 u re pe evs m)
  then show ?case using loop_run.turn [OF 3(4), of re pe u] by simp
qed auto

text \<open>With the handlers in place before the loop, a signal would end it after the turn.\<close>

lemma handled_signal_stops:
  assumes "Interrupt \<in> set evs"
  shows "\<exists>k. HandleRPCs_loop True shutdown evs l = Left k"
proof -
  have "shutdown \<or> Interrupt \<in> set evs \<Longrightarrow> \<exists>k. HandleRPCs_loop True shutdown evs l = Left k"
    by (induction "True" shutdown evs l rule: HandleRPCs_loop.induct) (auto simp: handler_def)
  then show ?thesis using assms by blast
qed

text \<open>
  C34. The server process never stops by itself: once its set-up has succeeded it serves, in a
  state that its handlers can reach and in which no deleted call object has been touched, until a
  signal kills it in the middle of the loop. The flag \<open>shutdown\<close> has no part in this, because
  the handlers are installed only after the loop.
\<close>

theorem server_serves_until_killed:
  assumes "server_main argv f v True True = Inr (Inr (s, True))" and "schedule_ok evs (HandleRPCs_start s)"
  shows "if Interrupt \<in> set evs then server_process argv f v True True evs = ServerKilled
    else \<exists>l. server_process argv f v True True evs = ServerRuns l \<and> server_run s (srv l) \<and> \<not> use_after_free l"
proof (cases "Interrupt \<in> set evs")
  case True
  then show ?thesis using assms(1) by (simp add: server_process_def HandleRPCs_def loop_killed)
next
  case False
  obtain l where l: "HandleRPCs_loop False False evs (HandleRPCs_start s) = Polling l"
    "loop_run False (HandleRPCs_start s) l"
    using loop_polls [OF False assms(2) loop_run.stay] by blast
  have "server_run s (srv l)"
    using loop_run_parts [OF l(2) start_loop_ok start_frame(2)] start_frame(1) [of s] by simp
  moreover have "\<not> use_after_free l" using loop_run_ok [OF l(2) start_loop_ok] by (simp add: loop_ok_def)
  ultimately show ?thesis using False assms(1) l(1) by (simp add: server_process_def HandleRPCs_def)
qed

theorem server_serves_until_killed_witness:
  "server_process [''server'', server_name_of 5, to_string 3, to_string 3] empty_file plain_boot True True
     [Polled no_entry balance_event None, Interrupt] = ServerKilled"
proof -
  have "setup_ok 3 3" "int32 3" by (simp_all add: setup_ok_def int32_def)
  then have main: "server_main [''server'', server_name_of 5, to_string 3, to_string 3] empty_file plain_boot True True =
      Inr (Inr (started (fresh_setup 3 3) 5 (server_name_of 5) empty_file plain_boot, True))"
    using server_main_started [of 3 3 5 "''server''" empty_file plain_boot] by simp
  have "schedule_ok [Polled no_entry balance_event None, Interrupt]
      (HandleRPCs_start (started (fresh_setup 3 3) 5 (server_name_of 5) empty_file plain_boot))"
    by (simp add: balance_event_def request_event_ok_def response_event_ok_def start_ops call_kinds_def upt_rec)
  from server_serves_until_killed [OF main this] show ?thesis by simp
qed

end
