(* ===== verification/Tpc_CSV.thy ===== *)
theory Tpc_CSV
  imports Tpc_Types
begin

text \<open>
  The reader of transaction sets, \<open>utils/csv_reader.h\<close> and \<open>utils/csv_reader.cc\<close>. The file
  is the text not read yet. \<open>std::stoi\<close> and \<open>vector::at\<close> can throw; an exception leaves the
  reader as it was when it was thrown, so \<open>readNextSet\<close> returns the reader in every case.
\<close>

section \<open>Lines\<close>

definition csv_newline :: char where
  "csv_newline = CHR 0x0A"

definition getline :: "string \<Rightarrow> (string \<times> string) option" where
  "getline t =
     (if t = [] then None
      else Some (takeWhile (\<lambda>c. c \<noteq> csv_newline) t, drop 1 (dropWhile (\<lambda>c. c \<noteq> csv_newline) t)))"

definition stripLineEndings :: "string \<Rightarrow> string" where
  "stripLineEndings line = filter (\<lambda>c. \<not> (c = CHR 0x0D \<or> c = CHR 0x0A \<or> c = CHR '' '')) line"

definition vector_at :: "'a list \<Rightarrow> nat \<Rightarrow> std_exception + 'a" where
  "vector_at xs i = (if i < length xs then Inr (xs ! i) else Inl out_of_range)"

text \<open>Errors propagate from left to right.\<close>

definition try_bind :: "'e + 'a \<Rightarrow> ('a \<Rightarrow> 'e + 'b) \<Rightarrow> 'e + 'b" where
  "try_bind x f = (case x of Inl e \<Rightarrow> Inl e | Inr a \<Rightarrow> f a)"

lemma try_bind_simps [simp]: "try_bind (Inl e) f = Inl e" "try_bind (Inr a) f = f a"
  by (simp_all add: try_bind_def)

section \<open>Columns\<close>

text \<open>The loop that \<open>parseTransaction\<close> and \<open>parseServers\<close> share, up to the characters they skip.\<close>

fun fields_loop :: "char set \<Rightarrow> string \<Rightarrow> string \<Rightarrow> string list \<Rightarrow> string list" where
  "fields_loop skip [] field fs = fs @ [field]"
| "fields_loop skip (c # cs) field fs =
     (if c \<in> skip then fields_loop skip cs field fs
      else if c = CHR '','' then fields_loop skip cs [] (fs @ [field])
      else fields_loop skip cs (field @ [c]) fs)"

definition parseTransaction :: "string \<Rightarrow> std_exception + Transaction" where
  "parseTransaction column =
     (let fs = fields_loop {CHR ''('', CHR '')'', CHR '' ''} column [] [] in
      try_bind (vector_at fs 0) (\<lambda>f. try_bind (stoi f) (\<lambda>s.
      try_bind (vector_at fs 1) (\<lambda>f. try_bind (stoi f) (\<lambda>r.
      try_bind (vector_at fs 2) (\<lambda>f. try_bind (stoi f) (\<lambda>a.
        Inr \<lparr>sender = s, receiver = r, amount = a\<rparr>)))))))"

definition parseServers :: "string \<Rightarrow> string list" where
  "parseServers column = fields_loop {CHR ''['', CHR '']'', CHR '' ''} column [] []"

fun columns_loop :: "string \<Rightarrow> bool \<Rightarrow> string \<Rightarrow> string list \<Rightarrow> string list" where
  "columns_loop [] inQuotes column columns = columns @ [column]"
| "columns_loop (c # cs) inQuotes column columns =
     (if c = CHR 0x22 then columns_loop cs (\<not> inQuotes) column columns
      else if c = CHR '','' \<and> \<not> inQuotes then columns_loop cs inQuotes [] (columns @ [column])
      else columns_loop cs inQuotes (column @ [c]) columns)"

definition parseCSVLine :: "string \<Rightarrow> std_exception + CSVLine" where
  "parseCSVLine line =
     (let columns = columns_loop line False [] [] in
      try_bind (vector_at columns 0) (\<lambda>col.
      try_bind (if col \<noteq> [] then stoi col else Inr (- 1)) (\<lambda>setNumber.
      try_bind (vector_at columns 1) (\<lambda>col. try_bind (parseTransaction col) (\<lambda>t.
      try_bind (vector_at columns 2) (\<lambda>col2.
      try_bind (vector_at columns 3) (\<lambda>col3.
        Inr \<lparr>line_set_no = setNumber, line_transaction = t,
             line_servers = (if col2 \<noteq> [] then parseServers col2 else []),
             line_leaders = (if col3 \<noteq> [] then parseServers col3 else [])\<rparr>)))))))"

section \<open>The reader\<close>

record CSVReader =
  csv_file :: string
  currentSetNo :: int
  currentTransactionSet :: TransactionSet
  nextTransactionSet :: TransactionSet

definition empty_set :: TransactionSet where
  "empty_set = \<lparr>set_no = 0, transactions = [], servers = [], leaders = [], disconnected_servers = []\<rparr>"

text \<open>\<open>None\<close> is a file that does not open.\<close>

definition CSVReader_new :: "string \<Rightarrow> string option \<Rightarrow> std_exception + CSVReader" where
  "CSVReader_new filename content =
     (case content of
        None \<Rightarrow> Inl (runtime_error (''Error: Could not open the file: '' @ filename))
      | Some t \<Rightarrow> Inr \<lparr>csv_file = t, currentSetNo = 0,
                       currentTransactionSet = empty_set, nextTransactionSet = empty_set\<rparr>)"

definition swap_sets :: "CSVReader \<Rightarrow> CSVReader" where
  "swap_sets r =
     (let c = currentTransactionSet r; n = nextTransactionSet r in
      r\<lparr>currentSetNo := i32 (currentSetNo r + 1),
        currentTransactionSet := c\<lparr>servers := servers n, leaders := leaders n, transactions := transactions n\<rparr>,
        nextTransactionSet := n\<lparr>servers := [], leaders := leaders c, transactions := []\<rparr>\<rparr>)"

lemma getline_shorter: "getline t = Some (line, file) \<Longrightarrow> length file < length t"
proof -
  assume "getline t = Some (line, file)"
  then have "t \<noteq> []" "file = drop 1 (dropWhile (\<lambda>c. c \<noteq> csv_newline) t)"
    by (auto simp: getline_def split: if_splits)
  moreover have "length (dropWhile (\<lambda>c. c \<noteq> csv_newline) t) \<le> length t" by (rule length_dropWhile_le)
  ultimately show ?thesis by (cases t) auto
qed

function readNextSet_loop :: "CSVReader \<Rightarrow> CSVReader \<times> std_exception option" where
  "readNextSet_loop r =
     (case getline (csv_file r) of
        None \<Rightarrow> (r, None)
      | Some (line, file) \<Rightarrow>
          let r = r\<lparr>csv_file := file\<rparr> in
          case parseCSVLine (stripLineEndings line) of
            Inl e \<Rightarrow> (r, Some e)
          | Inr l \<Rightarrow>
              if line_set_no l = currentSetNo r
              then readNextSet_loop
                     (r\<lparr>currentTransactionSet := (currentTransactionSet r)
                          \<lparr>transactions := transactions (currentTransactionSet r) @ [line_transaction l],
                           servers := line_servers l, leaders := line_leaders l\<rparr>\<rparr>)
              else if line_set_no l = i32 (currentSetNo r + 1)
              then (r\<lparr>nextTransactionSet := (nextTransactionSet r)
                        \<lparr>transactions := transactions (nextTransactionSet r) @ [line_transaction l],
                         servers := line_servers l, leaders := line_leaders l\<rparr>\<rparr>, None)
              else readNextSet_loop
                     (r\<lparr>currentTransactionSet := (currentTransactionSet r)
                          \<lparr>transactions := transactions (currentTransactionSet r) @ [line_transaction l]\<rparr>\<rparr>))"
  by pat_completeness auto

termination
  by (relation "measure (\<lambda>r. length (csv_file r))") (auto dest: getline_shorter)

declare readNextSet_loop.simps [simp del]

definition not_listed :: "constants \<Rightarrow> string list \<Rightarrow> string list" where
  "not_listed cs ss = map fst (filter (\<lambda>s. fst s \<notin> set ss) (server_ids cs))"

definition readNextSet ::
  "constants \<Rightarrow> TransactionSet \<Rightarrow> CSVReader \<Rightarrow> CSVReader \<times> TransactionSet \<times> (std_exception + int)" where
  "readNextSet cs t r =
     (case readNextSet_loop (swap_sets r) of
        (r, Some e) \<Rightarrow> (r, t, Inl e)
      | (r, None) \<Rightarrow>
          let cur = currentTransactionSet r in
          if transactions cur = [] then (r, t, Inr 0)
          else (r, \<lparr>set_no = currentSetNo r, transactions = transactions cur, servers = servers cur,
                    leaders = leaders cur, disconnected_servers = not_listed cs (servers cur)\<rparr>,
                Inr (i32 (int (length (transactions cur))))))"

end
