(* ===== verification/Tpc_CSV_Props.thy ===== *)
theory Tpc_CSV_Props
  imports Tpc_CSV
begin

text \<open>
  The input format and the reader: a row that is written in the format of the README is read
  back as it was, the sets of a file are handed out one after the other, and what happens at
  a malformed row.
\<close>

section \<open>The format\<close>

fun join :: "string \<Rightarrow> string list \<Rightarrow> string" where
  "join sep [] = []"
| "join sep [s] = s"
| "join sep (s # ss) = s @ sep @ join sep ss"

definition quoted :: "string \<Rightarrow> string" where
  "quoted col = [CHR 0x22] @ col @ [CHR 0x22]"

definition txn_text :: "string \<Rightarrow> Transaction \<Rightarrow> string" where
  "txn_text sep x =
     ''('' @ join sep [to_string (sender x), to_string (receiver x), to_string (amount x)] @ '')''"

definition servers_text :: "string \<Rightarrow> string list \<Rightarrow> string" where
  "servers_text sep ss = (if ss = [] then [] else quoted (''['' @ join sep ss @ '']''))"

text \<open>A row, with the separator used inside its lists; the README's files use a comma and a space.\<close>

definition row_text :: "string \<Rightarrow> CSVLine \<Rightarrow> string" where
  "row_text sep l =
     (if line_set_no l = - 1 then [] else to_string (line_set_no l)) @ '','' @ quoted (txn_text sep (line_transaction l))
     @ '','' @ servers_text sep (line_servers l) @ '','' @ servers_text sep (line_leaders l)"

definition plain :: "string \<Rightarrow> bool" where
  "plain w \<longleftrightarrow> set w \<inter> {CHR 0x0D, CHR 0x0A, CHR '' '', CHR 0x22, CHR '','', CHR ''['', CHR '']'', CHR ''('', CHR '')''} = {}"

definition row_ok :: "CSVLine \<Rightarrow> bool" where
  "row_ok l \<longleftrightarrow> int32 (line_set_no l) \<and> int32 (sender (line_transaction l))
     \<and> int32 (receiver (line_transaction l)) \<and> int32 (amount (line_transaction l))
     \<and> list_all plain (line_servers l) \<and> list_all plain (line_leaders l)"

lemma plain_to_string [simp]: "plain (to_string i)"
proof -
  have "c \<notin> {CHR 0x0D, CHR 0x0A, CHR '' '', CHR 0x22, CHR '','', CHR ''['', CHR '']'', CHR ''('', CHR '')''}"
    if "c \<in> set (to_string i)" for c
    using to_string_chars [OF that] by (auto simp: is_digit_def)
  then show ?thesis by (auto simp: plain_def)
qed

subsection \<open>Stripping\<close>

lemma strip_append [simp]: "stripLineEndings (a @ b) = stripLineEndings a @ stripLineEndings b"
  by (simp add: stripLineEndings_def)

lemma strip_plain [simp]: "plain w \<Longrightarrow> stripLineEndings w = w"
  by (auto simp: stripLineEndings_def plain_def filter_id_conv)

lemma strip_marks [simp]:
  "stripLineEndings [] = []" "stripLineEndings '','' = '',''" "stripLineEndings '', '' = '',''" "stripLineEndings [CHR 0x22] = [CHR 0x22]"
  "stripLineEndings ''['' = ''[''" "stripLineEndings '']'' = '']''" "stripLineEndings ''('' = ''(''"
  "stripLineEndings '')'' = '')''"
  by (simp_all add: stripLineEndings_def)

lemma strip_join:
  "list_all plain ss \<Longrightarrow> stripLineEndings sep = '','' \<Longrightarrow> stripLineEndings (join sep ss) = join '','' ss"
  by (induction sep ss rule: join.induct) simp_all

lemma strip_row:
  assumes "row_ok l" and "stripLineEndings sep = '',''"
  shows "stripLineEndings (row_text sep l) = row_text '','' l"
proof -
  have "list_all plain (line_servers l)" "list_all plain (line_leaders l)"
    using assms(1) by (simp_all add: row_ok_def)
  then show ?thesis
    using assms(2)
    by (simp add: row_text_def servers_text_def quoted_def txn_text_def strip_join del: append.simps join.simps)
qed

subsection \<open>Splitting\<close>

lemma columns_word:
  "\<forall>c \<in> set w. c \<noteq> CHR 0x22 \<and> (c \<noteq> CHR '','' \<or> q) \<Longrightarrow>
   columns_loop (w @ cs) q col cols = columns_loop cs q (col @ w) cols"
  by (induction w arbitrary: col) auto

lemma columns_quoted:
  "\<forall>c \<in> set w. c \<noteq> CHR 0x22 \<Longrightarrow>
   columns_loop (quoted w @ cs) False col cols = columns_loop cs False (col @ w) cols"
  using columns_word [of w True "CHR 0x22 # cs" col cols] by (simp add: quoted_def)

lemma fields_word:
  "\<forall>c \<in> set w. c \<notin> skip \<and> c \<noteq> CHR '','' \<Longrightarrow>
   fields_loop skip (w @ cs) f fs = fields_loop skip cs (f @ w) fs"
  by (induction w arbitrary: f) auto

lemma fields_join:
  assumes "ss \<noteq> []" and "\<forall>s \<in> set ss. \<forall>c \<in> set s. c \<notin> skip \<and> c \<noteq> CHR '',''"
    and "CHR '','' \<notin> skip" and "set en \<subseteq> skip"
  shows "fields_loop skip (join '','' ss @ en) [] fs = fs @ ss"
proof -
  have stop: "fields_loop skip en f fs = fs @ [f]" for f fs
    using assms(4) by (induction en) auto
  show ?thesis
    using assms(1,2)
  proof (induction ss arbitrary: fs rule: induct_list012)
    case (2 s)
    then show ?case using fields_word [of s skip en "[]" fs] stop by simp
  next
    case (3 s s' ss)
    have w: "\<forall>c \<in> set s. c \<notin> skip \<and> c \<noteq> CHR '',''" using 3(4) by simp
    have "fields_loop skip (join '','' (s' # ss) @ en) [] (fs @ [s]) = (fs @ [s]) @ s' # ss"
      using 3 by simp
    then show ?case
      using fields_word [OF w, of "CHR '','' # join '','' (s' # ss) @ en" "[]" fs] assms(3) by simp
  qed simp
qed

lemma parseServers_text:
  assumes "ss \<noteq> []" and "list_all plain ss"
  shows "parseServers (''['' @ join '','' ss @ '']'') = ss"
proof -
  have "\<forall>s \<in> set ss. \<forall>c \<in> set s. c \<notin> {CHR ''['', CHR '']'', CHR '' ''} \<and> c \<noteq> CHR '',''"
    using assms(2) by (auto simp: list_all_iff plain_def)
  then show ?thesis
    using fields_join [OF assms(1), of "{CHR ''['', CHR '']'', CHR '' ''}" "'']''" "[]"]
    by (simp add: parseServers_def)
qed

lemma parseTransaction_text:
  assumes "int32 (sender x)" and "int32 (receiver x)" and "int32 (amount x)"
  shows "parseTransaction (txn_text '','' x) = Inr x"
proof -
  let ?ss = "[to_string (sender x), to_string (receiver x), to_string (amount x)]"
  have "plain (to_string i)" for i by simp
  then have "\<forall>s \<in> set ?ss. \<forall>c \<in> set s. c \<notin> {CHR ''('', CHR '')'', CHR '' ''} \<and> c \<noteq> CHR '',''"
    unfolding plain_def by (auto simp del: plain_to_string)
  then have "fields_loop {CHR ''('', CHR '')'', CHR '' ''} (txn_text '','' x) [] [] = ?ss"
    using fields_join [of ?ss "{CHR ''('', CHR '')'', CHR '' ''}" "'')''" "[]"]
    by (simp add: txn_text_def)
  then show ?thesis
    using assms by (simp add: parseTransaction_def vector_at_def stoi_to_string Let_def)
qed

lemma txn_text_chars: "c \<in> set (txn_text '','' x) \<Longrightarrow> c \<noteq> CHR 0x22"
  using plain_to_string [of "sender x"] plain_to_string [of "receiver x"] plain_to_string [of "amount x"]
  unfolding plain_def by (auto simp: txn_text_def simp del: plain_to_string)

lemma join_chars: "list_all plain ss \<Longrightarrow> c \<in> set (join '','' ss) \<Longrightarrow> c \<noteq> CHR 0x22 \<and> c \<noteq> csv_newline"
  by (induction "'',''" ss rule: join.induct) (auto simp: plain_def csv_newline_def)

lemma columns_servers:
  assumes "list_all plain ss"
  shows "columns_loop (servers_text '','' ss @ cs) False [] cols =
     columns_loop cs False (if ss = [] then [] else ''['' @ join '','' ss @ '']'') cols"
proof (cases "ss = []")
  case False
  have "\<forall>c \<in> set (''['' @ join '','' ss @ '']''). c \<noteq> CHR 0x22" using join_chars [OF assms] by auto
  then show ?thesis
    using columns_quoted [of "''['' @ join '','' ss @ '']''" cs "[]" cols] False by (simp add: servers_text_def)
qed (simp add: servers_text_def)

lemma columns_row:
  assumes "row_ok l"
  shows "columns_loop (row_text '','' l) False [] [] =
    [if line_set_no l = - 1 then [] else to_string (line_set_no l), txn_text '','' (line_transaction l),
     if line_servers l = [] then [] else ''['' @ join '','' (line_servers l) @ '']'',
     if line_leaders l = [] then [] else ''['' @ join '','' (line_leaders l) @ '']'']"
proof -
  let ?n = "if line_set_no l = - 1 then [] else to_string (line_set_no l)"
  have ss: "list_all plain (line_servers l)" "list_all plain (line_leaders l)"
    using assms by (simp_all add: row_ok_def)
  have n: "\<forall>c \<in> set ?n. c \<noteq> CHR 0x22 \<and> (c \<noteq> CHR '','' \<or> False)"
    using plain_to_string [of "line_set_no l"] unfolding plain_def by (auto simp del: plain_to_string)
  have t: "\<forall>c \<in> set (txn_text '','' (line_transaction l)). c \<noteq> CHR 0x22" using txn_text_chars by blast
  have comma: "columns_loop ('','' @ cs) False col cols = columns_loop cs False [] (cols @ [col])" for cs col cols
    by simp
  show ?thesis
    unfolding row_text_def columns_word [OF n] comma append_assoc append_Nil columns_quoted [OF t]
      columns_servers [OF ss(1)]
    using columns_servers [OF ss(2), of "[]"] by simp
qed

lemma row_roundtrip:
  assumes "row_ok l" and "stripLineEndings sep = '',''"
  shows "parseCSVLine (stripLineEndings (row_text sep l)) = Inr l"
proof -
  have ok: "int32 (line_set_no l)" "int32 (sender (line_transaction l))"
    "int32 (receiver (line_transaction l))" "int32 (amount (line_transaction l))"
    "list_all plain (line_servers l)" "list_all plain (line_leaders l)"
    using assms(1) by (simp_all add: row_ok_def)
  show ?thesis
    unfolding strip_row [OF assms] parseCSVLine_def columns_row [OF assms(1)]
    using parseTransaction_text [OF ok(2-4)] parseServers_text [OF _ ok(5)] parseServers_text [OF _ ok(6)]
      stoi_to_string [OF ok(1)]
    by (simp add: vector_at_def Let_def)
qed

lemma csv_row_parse:
  "row_ok l \<Longrightarrow> sep \<in> {'','', '', ''} \<Longrightarrow> parseCSVLine (stripLineEndings (row_text sep l)) = Inr l"
  by (rule row_roundtrip) auto

text \<open>
  A row of the input file is read back exactly: set number (or none), transaction,
  servers and leaders, with or without spaces after the commas of its lists, for every value
  that fits \<open>int\<close> and every list of server names.
\<close>

theorem csv_row_roundtrip:
  assumes "row_ok l" and "sep \<in> {'','', '', ''}"
  shows "parseCSVLine (stripLineEndings (row_text sep l)) = Inr l"
  by (rule csv_row_parse [OF assms])

definition sample_row :: CSVLine where
  "sample_row = \<lparr>line_set_no = 1, line_transaction = \<lparr>sender = 100, receiver = 501, amount = 8\<rparr>,
     line_servers = [''S1'', ''S2'', ''S4''], line_leaders = [''S1'', ''S4'', ''S7'']\<rparr>"

lemma sample_row_ok: "row_ok sample_row"
  by (simp add: sample_row_def row_ok_def int32_def plain_def)

theorem csv_row_roundtrip_witness:
  "parseCSVLine (stripLineEndings (row_text '', '' sample_row)) = Inr sample_row"
  using csv_row_roundtrip [OF sample_row_ok, of "'', ''"] by simp

section \<open>Reading sets\<close>

text \<open>A set of the file: its transactions, at least one, and the two lists of its first row.\<close>

record set_spec =
  sp_first :: Transaction
  sp_others :: "Transaction list"
  sp_servers :: "string list"
  sp_leaders :: "string list"

definition first_row :: "int \<Rightarrow> set_spec \<Rightarrow> CSVLine" where
  "first_row k s = \<lparr>line_set_no = k, line_transaction = sp_first s, line_servers = sp_servers s,
     line_leaders = sp_leaders s\<rparr>"

definition other_row :: "Transaction \<Rightarrow> CSVLine" where
  "other_row x = \<lparr>line_set_no = - 1, line_transaction = x, line_servers = [], line_leaders = []\<rparr>"

lemma row_simps [simp]:
  "line_set_no (other_row x) = - 1" "line_transaction (other_row x) = x"
  "line_set_no (first_row k s) = k" "line_transaction (first_row k s) = sp_first s"
  "line_servers (first_row k s) = sp_servers s" "line_leaders (first_row k s) = sp_leaders s"
  by (simp_all add: other_row_def first_row_def)

definition rows_text :: "string \<Rightarrow> CSVLine list \<Rightarrow> string" where
  "rows_text sep ls = concat (map (\<lambda>l. row_text sep l @ [csv_newline]) ls)"

fun sets_rows :: "int \<Rightarrow> set_spec list \<Rightarrow> CSVLine list" where
  "sets_rows k [] = []"
| "sets_rows k (s # ss) = first_row k s # map other_row (sp_others s) @ sets_rows (k + 1) ss"

definition spec_ok :: "set_spec \<Rightarrow> bool" where
  "spec_ok s \<longleftrightarrow> row_ok (first_row 1 s) \<and> list_all (\<lambda>x. row_ok (other_row x)) (sp_others s)"


lemma set_join: "c \<in> set (join sep ss) \<Longrightarrow> c \<in> set sep \<or> (\<exists>s \<in> set ss. c \<in> set s)"
  by (induction sep ss rule: join.induct) auto

lemma plain_newline: "plain w \<Longrightarrow> csv_newline \<notin> set w"
  by (auto simp: plain_def csv_newline_def)

lemma join_newline: "list_all plain ss \<Longrightarrow> csv_newline \<notin> set sep \<Longrightarrow> csv_newline \<notin> set (join sep ss)"
  using set_join [of csv_newline sep ss] plain_newline by (auto simp: list_all_iff)

lemma row_newline:
  assumes "row_ok l" and "sep \<in> {'','', '', ''}"
  shows "csv_newline \<notin> set (row_text sep l)" and "row_text sep l \<noteq> []"
proof -
  have sep: "csv_newline \<notin> set sep" using assms(2) by (auto simp: csv_newline_def)
  have marks: "csv_newline \<noteq> c" if "c \<in> {CHR '','', CHR 0x22, CHR ''('', CHR '')'', CHR ''['', CHR '']''}" for c
    using that by (auto simp: csv_newline_def)
  have lists: "list_all plain (line_servers l)" "list_all plain (line_leaders l)"
    "list_all plain [to_string (sender x), to_string (receiver x), to_string (amount x)]" for x
    using assms(1) by (simp_all add: row_ok_def)
  show "csv_newline \<notin> set (row_text sep l)"
    using join_newline [OF lists(1) sep] join_newline [OF lists(2) sep]
      join_newline [OF lists(3) [of "line_transaction l"] sep]
      plain_newline [OF plain_to_string [of "line_set_no l"]] marks
    by (simp add: row_text_def servers_text_def quoted_def txn_text_def del: join.simps)
  show "row_text sep l \<noteq> []" by (simp add: row_text_def)
qed

lemma getline_rows:
  assumes "row_ok l" and "sep \<in> {'','', '', ''}"
  shows "getline (rows_text sep (l # ls) @ en) = Some (row_text sep l, rows_text sep ls @ en)"
proof -
  have eq: "rows_text sep (l # ls) @ en = row_text sep l @ csv_newline # rows_text sep ls @ en"
    by (simp add: rows_text_def)
  have "takeWhile (\<lambda>c. c \<noteq> csv_newline) (row_text sep l @ csv_newline # t) = row_text sep l"
    "dropWhile (\<lambda>c. c \<noteq> csv_newline) (row_text sep l @ csv_newline # t) = csv_newline # t" for t
    using row_newline(1) [OF assms] by (subst takeWhile_append2 dropWhile_append2; auto)+
  then show ?thesis by (simp add: getline_def eq)
qed

lemma getline_row:
  "row_ok l \<Longrightarrow> sep \<in> {'','', '', ''} \<Longrightarrow>
   getline (rows_text sep (l # ls)) = Some (row_text sep l, rows_text sep ls)"
  using getline_rows [of l sep ls "[]"] by simp

text \<open>What the loop does with one good row.\<close>

lemma loop_row:
  assumes "row_ok l" and "sep \<in> {'','', '', ''}" and "csv_file r = rows_text sep (l # ls)"
  shows "readNextSet_loop r =
    (let r = r\<lparr>csv_file := rows_text sep ls\<rparr> in
     if line_set_no l = currentSetNo r
     then readNextSet_loop (r\<lparr>currentTransactionSet := (currentTransactionSet r)
            \<lparr>transactions := transactions (currentTransactionSet r) @ [line_transaction l],
             servers := line_servers l, leaders := line_leaders l\<rparr>\<rparr>)
     else if line_set_no l = i32 (currentSetNo r + 1)
     then (r\<lparr>nextTransactionSet := (nextTransactionSet r)
            \<lparr>transactions := transactions (nextTransactionSet r) @ [line_transaction l],
             servers := line_servers l, leaders := line_leaders l\<rparr>\<rparr>, None)
     else readNextSet_loop (r\<lparr>currentTransactionSet := (currentTransactionSet r)
            \<lparr>transactions := transactions (currentTransactionSet r) @ [line_transaction l]\<rparr>\<rparr>))"
  by (subst readNextSet_loop.simps)
    (use assms csv_row_parse [OF assms(1,2)] in \<open>simp add: getline_row Let_def\<close>)

lemma loop_end: "csv_file r = [] \<Longrightarrow> readNextSet_loop r = (r, None)"
  by (subst readNextSet_loop.simps) (simp add: getline_def)

lemma loop_other_row:
  assumes "row_ok (other_row x)" and "sep \<in> {'','', '', ''}"
    and "csv_file r = rows_text sep (other_row x # ls) @ en" and "0 \<le> currentSetNo r" and "currentSetNo r < 2147483647"
  shows "readNextSet_loop r = readNextSet_loop (r\<lparr>csv_file := rows_text sep ls @ en,
    currentTransactionSet := (currentTransactionSet r)\<lparr>transactions := transactions (currentTransactionSet r) @ [x]\<rparr>\<rparr>)"
proof -
  have "i32 (currentSetNo r + 1) = currentSetNo r + 1"
    using assms(4,5) by (intro i32_id) (simp add: int32_def)
  then show ?thesis
    by (subst readNextSet_loop.simps)
      (use assms csv_row_parse [OF assms(1,2)] getline_rows [OF assms(1,2), of ls en] in \<open>simp add: Let_def\<close>)
qed

lemma loop_others_tail:
  assumes "list_all (\<lambda>x. row_ok (other_row x)) xs" and "sep \<in> {'','', '', ''}"
    and "csv_file r = rows_text sep (map other_row xs) @ en" and "0 \<le> currentSetNo r" and "currentSetNo r < 2147483647"
  shows "readNextSet_loop r = readNextSet_loop (r\<lparr>csv_file := en,
    currentTransactionSet := (currentTransactionSet r)\<lparr>transactions := transactions (currentTransactionSet r) @ xs\<rparr>\<rparr>)"
  using assms(1,3-5)
proof (induction xs arbitrary: r)
  case (Cons x xs)
  then show ?case
    using Cons.IH [of "r\<lparr>csv_file := rows_text sep (map other_row xs) @ en,
      currentTransactionSet := (currentTransactionSet r)\<lparr>transactions := transactions (currentTransactionSet r) @ [x]\<rparr>\<rparr>"]
      loop_other_row [of x sep r "map other_row xs" en] assms(2) by simp
next
  case Nil
  then have "r\<lparr>csv_file := en, currentTransactionSet := (currentTransactionSet r)
      \<lparr>transactions := transactions (currentTransactionSet r) @ []\<rparr>\<rparr> = r" by (simp add: rows_text_def)
  then show ?case by (simp only:)
qed

lemma loop_others:
  assumes "list_all (\<lambda>x. row_ok (other_row x)) xs" and "sep \<in> {'','', '', ''}"
    and "csv_file r = rows_text sep (map other_row xs @ ls)" and "0 \<le> currentSetNo r" and "currentSetNo r < 2147483647"
  shows "readNextSet_loop r = readNextSet_loop (r\<lparr>csv_file := rows_text sep ls,
    currentTransactionSet := (currentTransactionSet r)\<lparr>transactions := transactions (currentTransactionSet r) @ xs\<rparr>\<rparr>)"
  using loop_others_tail [OF assms(1,2), of r "rows_text sep ls"] assms(3-5) by (simp add: rows_text_def)

text \<open>
  The reader before the sets \<open>ss\<close>, \<open>i\<close> sets having been handed out: the first row of the next
  set has been read already, except at the beginning.
\<close>

definition next_empty :: "CSVReader \<Rightarrow> bool" where
  "next_empty r \<longleftrightarrow> transactions (nextTransactionSet r) = []"

definition reader_before :: "string \<Rightarrow> int \<Rightarrow> set_spec list \<Rightarrow> CSVReader \<Rightarrow> bool" where
  "reader_before sep i ss r \<longleftrightarrow> currentSetNo r = i \<and> 0 \<le> i \<and>
     (case ss of
        [] \<Rightarrow> csv_file r = [] \<and> next_empty r
      | s # rs \<Rightarrow>
          if i = 0 then csv_file r = rows_text sep (sets_rows 1 ss) \<and> next_empty r
          else csv_file r = rows_text sep (map other_row (sp_others s) @ sets_rows (i + 2) rs)
            \<and> transactions (nextTransactionSet r) = [sp_first s]
            \<and> servers (nextTransactionSet r) = sp_servers s \<and> leaders (nextTransactionSet r) = sp_leaders s)"

lemma swap_sets_simps [simp]:
  "csv_file (swap_sets r) = csv_file r" "currentSetNo (swap_sets r) = i32 (currentSetNo r + 1)"
  "transactions (currentTransactionSet (swap_sets r)) = transactions (nextTransactionSet r)"
  "servers (currentTransactionSet (swap_sets r)) = servers (nextTransactionSet r)"
  "leaders (currentTransactionSet (swap_sets r)) = leaders (nextTransactionSet r)"
  "transactions (nextTransactionSet (swap_sets r)) = []"
  by (simp_all add: swap_sets_def Let_def)

lemma first_row_ok: "spec_ok s \<Longrightarrow> int32 k \<Longrightarrow> row_ok (first_row k s)"
  by (simp add: spec_ok_def row_ok_def)

text \<open>The loop at the end of a set: it stops before the next set, whose first row it keeps.\<close>

lemma loop_next:
  assumes "list_all spec_ok rs" and "sep \<in> {'','', '', ''}" and "0 < k" and "k < 2147483647"
    and "csv_file r = rows_text sep (sets_rows (k + 1) rs)" and "currentSetNo r = k" and "next_empty r"
  shows "\<exists>r'. readNextSet_loop r = (r', None) \<and> reader_before sep k rs r'
    \<and> currentTransactionSet r' = currentTransactionSet r"
proof (cases rs)
  case Nil
  then have "csv_file r = []" using assms(5) by (simp add: rows_text_def)
  then show ?thesis using Nil assms(3,6,7) by (simp add: loop_end reader_before_def)
next
  case (Cons s ss)
  have k: "i32 (k + 1) = k + 1" "int32 (k + 1)"
    using assms(3,4) by (simp_all add: i32_id int32_def)
  have ok: "row_ok (first_row (k + 1) s)" using first_row_ok [OF _ k(2)] assms(1) Cons by simp
  have two: "k + 1 + 1 = k + 2" by simp
  have "csv_file r = rows_text sep (first_row (k + 1) s # map other_row (sp_others s) @ sets_rows (k + 2) ss)"
    using assms(5) unfolding Cons sets_rows.simps two .
  then show ?thesis
    using loop_row [OF ok assms(2), of r "map other_row (sp_others s) @ sets_rows (k + 2) ss"]
      assms(3,6,7) Cons k(1)
    by (simp add: reader_before_def next_empty_def Let_def)
qed

definition result_of :: "constants \<Rightarrow> int \<Rightarrow> set_spec \<Rightarrow> TransactionSet" where
  "result_of cs k s = \<lparr>set_no = k, transactions = sp_first s # sp_others s, servers = sp_servers s,
     leaders = sp_leaders s, disconnected_servers = not_listed cs (sp_servers s)\<rparr>"

text \<open>
  Where the loop stands once the first row of a set is in: the first set's own row is read now,
  a later set's row was read by the call before.
\<close>

lemma row_in_hand:
  assumes "reader_before sep i (s # ss) r" and first: "row_ok (first_row (i + 1) s)" and sep: "sep \<in> {'','', '', ''}"
    and i: "0 \<le> i" "currentSetNo r = i" "i32 (i + 1) = i + 1"
  shows "\<exists>q. readNextSet_loop (swap_sets r) = readNextSet_loop q \<and> currentSetNo q = i + 1 \<and> next_empty q
      \<and> csv_file q = rows_text sep (map other_row (sp_others s) @ sets_rows (i + 2) ss)
      \<and> transactions (currentTransactionSet q) = [sp_first s]
      \<and> servers (currentTransactionSet q) = sp_servers s \<and> leaders (currentTransactionSet q) = sp_leaders s"
proof (cases "i = 0")
  case True
  let ?r = "swap_sets r"
  let ?q = "?r\<lparr>csv_file := rows_text sep (map other_row (sp_others s) @ sets_rows 2 ss),
    currentTransactionSet := (currentTransactionSet ?r)\<lparr>transactions := [sp_first s],
      servers := sp_servers s, leaders := sp_leaders s\<rparr>\<rparr>"
  have "readNextSet_loop ?r = readNextSet_loop ?q"
    using loop_row [OF first sep, of ?r "map other_row (sp_others s) @ sets_rows 2 ss"] assms(1) True i
    by (simp add: reader_before_def next_empty_def Let_def)
  then show ?thesis using True i by (intro exI [of _ ?q]) (simp add: next_empty_def)
next
  case False
  then show ?thesis using assms(1) i by (intro exI [of _ "swap_sets r"]) (simp add: reader_before_def next_empty_def)
qed

lemma read_one:
  assumes "reader_before sep i (s # ss) r" and "list_all spec_ok (s # ss)" and "sep \<in> {'','', '', ''}"
    and "i + 2 < 2147483647"
  shows "\<exists>r'. readNextSet cs t r =
      (r', result_of cs (i + 1) s, Inr (i32 (int (Suc (length (sp_others s))))))
    \<and> reader_before sep (i + 1) ss r'"
proof -
  let ?r = "swap_sets r"
  have i: "0 \<le> i" "currentSetNo r = i" "i32 (i + 1) = i + 1" "int32 (i + 1)"
    using assms(1,4) by (simp_all add: reader_before_def i32_id int32_def)
  have others: "list_all (\<lambda>x. row_ok (other_row x)) (sp_others s)" and first: "row_ok (first_row (i + 1) s)"
    using assms(2) first_row_ok [OF _ i(4), of s] by (simp_all add: spec_ok_def)
  obtain q where q: "readNextSet_loop ?r = readNextSet_loop q" "currentSetNo q = i + 1" "next_empty q"
      "csv_file q = rows_text sep (map other_row (sp_others s) @ sets_rows (i + 2) ss)"
      "transactions (currentTransactionSet q) = [sp_first s]"
      "servers (currentTransactionSet q) = sp_servers s" "leaders (currentTransactionSet q) = sp_leaders s"
    using row_in_hand [OF assms(1) first assms(3) i(1-3)] by blast
  let ?p = "q\<lparr>csv_file := rows_text sep (sets_rows (i + 2) ss),
    currentTransactionSet := (currentTransactionSet q)\<lparr>transactions := transactions (currentTransactionSet q) @ sp_others s\<rparr>\<rparr>"
  have loop: "readNextSet_loop ?r = readNextSet_loop ?p"
    using loop_others [OF others assms(3) q(4)] q(1,2) i assms(4) by simp
  obtain r' where r': "readNextSet_loop ?p = (r', None)" "reader_before sep (i + 1) ss r'"
      "currentTransactionSet r' = currentTransactionSet ?p"
  proof -
    have two: "i + 1 + 1 = i + 2" by simp
    have "csv_file ?p = rows_text sep (sets_rows (i + 1 + 1) ss)" unfolding two by simp
    then have "\<exists>r'. readNextSet_loop ?p = (r', None) \<and> reader_before sep (i + 1) ss r'
        \<and> currentTransactionSet r' = currentTransactionSet ?p"
      using assms(2,4) q(2,3) i by (intro loop_next [OF _ assms(3)]) (simp_all add: next_empty_def)
    then show ?thesis using that by blast
  qed
  have "readNextSet_loop ?r = (r', None)" using loop r'(1) by simp
  moreover have "currentSetNo r' = i + 1" using r'(2) by (simp add: reader_before_def)
  ultimately show ?thesis
    using r'(2,3) q(5-7) by (simp add: readNextSet_def result_of_def Let_def)
qed

text \<open>Calling \<open>readNextSet\<close> again and again.\<close>

fun read_sets :: "nat \<Rightarrow> constants \<Rightarrow> TransactionSet \<Rightarrow> CSVReader \<Rightarrow> (TransactionSet \<times> (std_exception + int)) list" where
  "read_sets 0 cs t r = []"
| "read_sets (Suc n) cs t r =
     (let (r', t', res) = readNextSet cs t r in (t', res) # read_sets n cs t' r')"

lemma read_end: "reader_before sep i [] r \<Longrightarrow> i < 2147483647 \<Longrightarrow> snd (readNextSet cs t r) = (t, Inr 0)"
  by (simp add: readNextSet_def reader_before_def next_empty_def loop_end Let_def)

text \<open>The sets numbered from \<open>k\<close> on, as they should be handed out.\<close>

fun results :: "constants \<Rightarrow> int \<Rightarrow> set_spec list \<Rightarrow> (TransactionSet \<times> (std_exception + int)) list" where
  "results cs k [] = []"
| "results cs k (s # ss) =
     (result_of cs k s, Inr (i32 (int (Suc (length (sp_others s)))))) # results cs (k + 1) ss"

lemma read_many:
  assumes "reader_before sep i ss r" and "list_all spec_ok ss" and "sep \<in> {'','', '', ''}"
    and "i + int (length ss) + 1 < 2147483647"
  shows "\<exists>t'. read_sets (Suc (length ss)) cs t r = results cs (i + 1) ss @ [(t', Inr 0)]"
  using assms
proof (induction ss arbitrary: i r t)
  case Nil
  then have "snd (readNextSet cs t r) = (t, Inr 0)" using read_end by simp
  then show ?case by (cases "readNextSet cs t r") simp
next
  case (Cons s ss)
  obtain r' where r': "readNextSet cs t r = (r', result_of cs (i + 1) s, Inr (i32 (int (Suc (length (sp_others s))))))"
    "reader_before sep (i + 1) ss r'"
    using read_one [OF Cons.prems(1,2,3), of cs t] Cons.prems(4) by auto
  obtain t' where "read_sets (Suc (length ss)) cs (result_of cs (i + 1) s) r' =
      results cs (i + 1 + 1) ss @ [(t', Inr 0)]"
    using Cons.IH [OF r'(2), of "result_of cs (i + 1) s"] Cons.prems(2-4) by auto
  then show ?case using r'(1) by simp
qed

text \<open>
  C29. Reading a file set by set: for a file with the sets \<open>1\<close> to \<open>n\<close>, each with any number of
  transactions and its two lists in its first row, the calls of \<open>readNextSet\<close> return the sets
  in order, each with all its transactions, its own servers and leaders, and the servers that
  it does not list as disconnected; the next call reports the end.
\<close>

theorem csv_sets_in_order:
  assumes "CSVReader_new name (Some (rows_text sep (sets_rows 1 ss))) = Inr r"
    and "list_all spec_ok ss" and "sep \<in> {'','', '', ''}" and "int (length ss) < 2147483646"
  shows "\<exists>t'. read_sets (Suc (length ss)) cs t r = results cs 1 ss @ [(t', Inr 0)]"
proof -
  have "reader_before sep 0 ss r"
    using assms(1)
    by (cases ss) (auto simp: CSVReader_new_def reader_before_def next_empty_def empty_set_def rows_text_def)
  then show ?thesis using read_many [of sep 0 ss r cs t] assms(2-4) by simp
qed

definition sample_sets :: "set_spec list" where
  "sample_sets =
     [\<lparr>sp_first = \<lparr>sender = 100, receiver = 501, amount = 8\<rparr>, sp_others = [\<lparr>sender = 1001, receiver = 1650, amount = 2\<rparr>],
       sp_servers = [''S1'', ''S2''], sp_leaders = [''S1'']\<rparr>,
      \<lparr>sp_first = \<lparr>sender = 7, receiver = 8, amount = 1\<rparr>, sp_others = [],
       sp_servers = [''S2''], sp_leaders = [''S2'']\<rparr>]"

theorem csv_sets_in_order_witness:
  "\<exists>t' r. CSVReader_new ''in.csv'' (Some (rows_text '', '' (sets_rows 1 sample_sets))) = Inr r
     \<and> read_sets 3 initial_constants empty_set r = results initial_constants 1 sample_sets @ [(t', Inr 0)]"
proof -
  obtain r where r: "CSVReader_new ''in.csv'' (Some (rows_text '', '' (sets_rows 1 sample_sets))) = Inr r"
    by (simp add: CSVReader_new_def)
  moreover have "list_all spec_ok sample_sets"
    by (simp add: sample_sets_def spec_ok_def row_ok_def first_row_def other_row_def int32_def plain_def)
  moreover have "length sample_sets = 2" by (simp add: sample_sets_def)
  ultimately show ?thesis
    using csv_sets_in_order [OF r, of initial_constants empty_set] by (auto simp: numeral_3_eq_3)
qed

section \<open>A malformed row\<close>

text \<open>
  A row that does not parse, a blank line for instance, makes \<open>readNextSet\<close> throw: the
  transactions read so far for the set stay in the reader, but the next call drops them.
\<close>

lemma blank_line_throws: "parseCSVLine [] = Inl out_of_range"
  by (simp add: parseCSVLine_def vector_at_def Let_def)

lemma loop_blank:
  assumes "csv_file r = csv_newline # t"
  shows "readNextSet_loop r = (r\<lparr>csv_file := t\<rparr>, Some out_of_range)"
  by (subst readNextSet_loop.simps)
    (simp add: assms getline_def stripLineEndings_def blank_line_throws Let_def)

lemma blank_line_drops_set:
  assumes "list_all (\<lambda>x. row_ok (other_row x)) xs" and "sep \<in> {'','', '', ''}"
    and "csv_file r = rows_text sep (map other_row xs) @ csv_newline # []"
    and "0 \<le> currentSetNo r" and "currentSetNo r + 2 < 2147483647"
  shows "snd (snd (readNextSet cs t r)) = Inl out_of_range
    \<and> snd (readNextSet cs t (fst (readNextSet cs t r))) = (t, Inr 0)"
proof -
  have i: "i32 (currentSetNo r + 1) = currentSetNo r + 1" using assms(4,5) by (intro i32_id) (simp add: int32_def)
  let ?q = "(swap_sets r)\<lparr>csv_file := [csv_newline], currentTransactionSet := (currentTransactionSet (swap_sets r))
    \<lparr>transactions := transactions (currentTransactionSet (swap_sets r)) @ xs\<rparr>\<rparr>"
  have "readNextSet_loop (swap_sets r) = readNextSet_loop ?q"
    using loop_others_tail [OF assms(1,2), of "swap_sets r" "[csv_newline]"] assms(3-5) i by simp
  then have one: "readNextSet cs t r = (?q\<lparr>csv_file := []\<rparr>, t, Inl out_of_range)"
    using loop_blank [of ?q "[]"] by (simp add: readNextSet_def)
  have "snd (readNextSet cs t (?q\<lparr>csv_file := []\<rparr>)) = (t, Inr 0)"
    by (simp add: readNextSet_def loop_end Let_def)
  then show ?thesis using one by simp
qed

end
