(* ===== verification/Tpc_Client.thy ===== *)
theory Tpc_Client
  imports Tpc_Server
begin

text \<open>
  The client of \<open>client/client.h\<close> and \<open>client/client.cc\<close>, the coordinator of two-phase commit:
  it sends each transfer to the leaders it concerns, collects the two votes on a cross-shard
  one and sends the decision to every server of both clusters. Clock readings, the results of
  remote calls and the completions of its queue are arguments. The time totals are \<open>double\<close>s,
  rounded as in \<open>Tpc_Utils\<close>.
\<close>

section \<open>State\<close>

record TpcPrepareRes =
  tp_txn :: Transaction
  successes :: int
  failures :: int

record ClientCall =
  cc_status :: Status
  cc_type :: RequestTypes
  cc_reply :: TransferRes

record Client =
  client_consts :: constants
  client_stubs :: "string list"
  processing :: "int \<rightharpoonup> TpcPrepareRes"
  total_time :: real
  transactions_processed :: int

text \<open>\<open>NullClientStub\<close> is a call through a stub that the table does not hold.\<close>

datatype ClientMsg =
  SendTransfer string TransferReq
| SendTpcPrepare string TransferReq
| SendTpcCommit string TpcTid
| SendTpcAbort string TpcTid
| SendDisconnect string DisconnectReq
| NullClientStub string

definition Client_new :: "constants \<Rightarrow> Client" where
  "Client_new cs =
     \<lparr>client_consts = cs, client_stubs = map fst (server_ids cs), processing = Map.empty,
      total_time = 0, transactions_processed = 0\<rparr>"

definition via :: "Client \<Rightarrow> string \<Rightarrow> ClientMsg \<Rightarrow> ClientMsg" where
  "via c name m = (if name \<in> set (client_stubs c) then m else NullClientStub name)"

section \<open>Sending\<close>

definition updateDisconnected :: "string list \<Rightarrow> Client \<Rightarrow> ClientMsg list" where
  "updateDisconnected names c = map (\<lambda>s. SendDisconnect s names) (client_stubs c)"

definition sendTransfer :: "TransferReq \<Rightarrow> string \<Rightarrow> Client \<Rightarrow> ClientMsg" where
  "sendTransfer r leader c = via c leader (SendTransfer leader r)"

definition tpcPrepare :: "TransferReq \<Rightarrow> string \<Rightarrow> Client \<Rightarrow> ClientMsg" where
  "tpcPrepare r leader c = via c leader (SendTpcPrepare leader r)"

fun tpcDecide_loop ::
  "(string \<Rightarrow> ClientMsg) \<Rightarrow> int \<Rightarrow> int \<Rightarrow> Client \<Rightarrow> (string \<times> int) list \<Rightarrow> ClientMsg list" where
  "tpcDecide_loop m sc rc c [] = []"
| "tpcDecide_loop m sc rc c (s # ss) =
     (let k = getClusterIdFromServerId (client_consts c) (snd s)
      in if k = sc \<or> k = rc then via c (fst s) (m (fst s)) # tpcDecide_loop m sc rc c ss
         else tpcDecide_loop m sc rc c ss)"

definition tpcCommit :: "TpcTid \<Rightarrow> int \<Rightarrow> int \<Rightarrow> Client \<Rightarrow> ClientMsg list" where
  "tpcCommit t sc rc c = tpcDecide_loop (\<lambda>n. SendTpcCommit n t) sc rc c (server_ids (client_consts c))"

definition tpcAbort :: "TpcTid \<Rightarrow> int \<Rightarrow> int \<Rightarrow> Client \<Rightarrow> ClientMsg list" where
  "tpcAbort t sc rc c = tpcDecide_loop (\<lambda>n. SendTpcAbort n t) sc rc c (server_ids (client_consts c))"

text \<open>
  The transactions of a set, each with the clock reading that becomes its identifier.
  \<open>leaders\<close> is indexed without a check: outside its range the behaviour is undefined, and the
  model returns the index.
\<close>

fun processTransactions ::
  "(Transaction \<times> int) list \<Rightarrow> string list \<Rightarrow> Client \<Rightarrow> int + (Client \<times> ClientMsg list)" where
  "processTransactions [] lds c = Inr (c, [])"
| "processTransactions ((t, now) # ts) lds c =
     (let sc = getClusterIdFromClientId (client_consts c) (sender t);
          rc = getClusterIdFromClientId (client_consts c) (receiver t)
      in if \<not> (0 \<le> sc - 1 \<and> sc - 1 < int (length lds)) then Inl (sc - 1)
         else if \<not> (0 \<le> rc - 1 \<and> rc - 1 < int (length lds)) then Inl (rc - 1)
         else let sender_leader = lds ! nat (sc - 1);
                  receiver_leader = lds ! nat (rc - 1);
                  request = \<lparr>req_txn = t, req_tid = now\<rparr>;
                  (c, msgs) =
                    (if sc = rc then (c, [sendTransfer request sender_leader c])
                     else let c = c\<lparr>processing := (processing c)
                                (now \<mapsto> \<lparr>tp_txn = t, successes = 0, failures = 0\<rparr>)\<rparr>
                          in (c, [tpcPrepare request sender_leader c, tpcPrepare request receiver_leader c]))
              in case processTransactions ts lds c of
                   Inl e \<Rightarrow> Inl e
                 | Inr (c, ms) \<Rightarrow> Inr (c, msgs @ ms))"

section \<open>Replies\<close>

text \<open>\<open>processing[tid]\<close> creates a zero entry for an unknown identifier.\<close>

definition processing_at :: "Client \<Rightarrow> int \<Rightarrow> TpcPrepareRes" where
  "processing_at c t =
     (case processing c t of None \<Rightarrow> \<lparr>tp_txn = no_txn, successes = 0, failures = 0\<rparr> | Some p \<Rightarrow> p)"

text \<open>The time of a reply less the identifier, a subtraction of two \<open>long\<close>s, is added to a \<open>double\<close>.\<close>

definition count_time :: "int \<Rightarrow> Client \<Rightarrow> Client" where
  "count_time d c =
     c\<lparr>total_time := double_of (total_time c + double_of (of_int (i64 d))),
       transactions_processed := i32 (transactions_processed c + 1)\<rparr>"

definition consume_one :: "ClientCall \<Rightarrow> int \<Rightarrow> Client \<Rightarrow> Client \<times> ClientMsg list" where
  "consume_one call now c =
     (if cc_type call = TRANSFER \<and> cc_status call = StatusOK
      then (count_time (now - res_tid (cc_reply call)) c, [])
      else if cc_type call = TPC_PREPARE
      then let t = res_tid (cc_reply call);
               p = processing_at c t;
               p = (if cc_status call \<noteq> StatusOK \<or> \<not> res_ack (cc_reply call)
                    then p\<lparr>failures := i32 (failures p + 1)\<rparr>
                    else p\<lparr>successes := i32 (successes p + 1)\<rparr>);
               c = c\<lparr>processing := (processing c)(t \<mapsto> p)\<rparr>;
               commit = (successes p = 2);
               abort = (failures p > 0 \<and> i32 (successes p + failures p) = 2)
           in if commit \<or> abort
              then let c = count_time (now - t) c;
                       sc = getClusterIdFromClientId (client_consts c) (sender (tp_txn p));
                       rc = getClusterIdFromClientId (client_consts c) (receiver (tp_txn p));
                       msgs = (if commit then tpcCommit t sc rc c else tpcAbort t sc rc c)
                   in (c\<lparr>processing := (processing c)(t := None)\<rparr>, msgs)
              else (c, [])
      else (c, []))"

text \<open>
  The reply loop over the completions of the queue; the flag of a completion is checked, and
  the process is aborted when it is false.
\<close>

fun consumeReplies ::
  "(ClientCall \<times> bool \<times> int) list \<Rightarrow> Client \<Rightarrow> Client \<times> ClientMsg list \<times> bool" where
  "consumeReplies [] c = (c, [], False)"
| "consumeReplies ((call, ok, now) # es) c =
     (if \<not> ok then (c, [], True)
      else let (c, msgs) = consume_one call now c;
               (c, ms, aborted) = consumeReplies es c
           in (c, msgs @ ms, aborted))"

section \<open>Output\<close>

text \<open>\<open>answer\<close> is the result of the remote call to each server, \<open>None\<close> when it fails.\<close>

definition setw :: "nat \<Rightarrow> string \<Rightarrow> string" where
  "setw n s = replicate (n - length s) CHR '' '' @ s"

definition endl :: string where
  "endl = [newline]"

definition printBalance :: "int \<Rightarrow> (string \<Rightarrow> BalanceRes option) \<Rightarrow> Client \<Rightarrow> string" where
  "printBalance client answer c =
     (let servers = getServersInCluster (client_consts c) (getClusterIdFromClientId (client_consts c) client);
          balances = map (\<lambda>s. case answer s of None \<Rightarrow> ''-'' | Some b \<Rightarrow> to_string b) servers
      in setw 10 ''Server|'' @ setw 10 ''Balance|'' @ endl
         @ concat (map (\<lambda>(s, b). setw 10 (s @ ''|'') @ setw 10 (b @ ''|'') @ endl) (zip servers balances)))"

fun status_letter :: "TransactionStatus \<Rightarrow> string" where
  "status_letter PREPARED = ''P''"
| "status_letter COMMITTED = ''C''"
| "status_letter ABORTED = ''A''"
| "status_letter NO_STATUS = ''NS''"

definition entry_text :: "WALEntry \<Rightarrow> string" where
  "entry_text e =
     ''[<'' @ to_string (e_ballot_num e) @ '','' @ to_string (e_ballot_server_id e) @ ''>, ''
     @ (if e_type e = CROSS then status_letter (e_status e) @ '', '' else [])
     @ ''('' @ to_string (sender (e_txn e)) @ '', '' @ to_string (receiver (e_txn e)) @ '', ''
     @ to_string (amount (e_txn e)) @ '')]''"

fun entries_text :: "WALEntry list \<Rightarrow> string" where
  "entries_text [] = []"
| "entries_text [e] = entry_text e"
| "entries_text (e # es) = entry_text e @ '' -> '' @ entries_text es"

definition fetch_datastore ::
  "(string \<Rightarrow> LogRes option) \<Rightarrow> (string \<times> int) list \<Rightarrow> (string \<times> WALEntry list) list" where
  "fetch_datastore answer ids =
     fold (\<lambda>s d. smap_set (fst s)
             (case answer (fst s) of None \<Rightarrow> [] | Some ls \<Rightarrow> map entry_of_LogEntry ls) d) ids []"

definition printDatastore :: "(string \<Rightarrow> LogRes option) \<Rightarrow> Client \<Rightarrow> string" where
  "printDatastore answer c =
     setw 10 ''Server|'' @ setw 10 '' '' @ ''Datastore'' @ endl
     @ concat (map (\<lambda>(s, es). setw 10 (s @ ''|'') @ setw 10 '' '' @ entries_text es @ endl @ endl)
         (fetch_datastore answer (server_ids (client_consts c))))"

text \<open>
  The figure that \<open>printPerformance\<close> prints; \<open>None\<close> is the infinite \<open>double\<close> of a division by
  zero.
\<close>

definition performance :: "Client \<Rightarrow> real option" where
  "performance c =
     (if transactions_processed c > 0
      then if total_time c = 0 then None
           else Some (double_of (double_of (of_int (transactions_processed c) * 1000000000) / total_time c))
      else Some 0)"

end
