(* ===== verification/Tpc_Commands.thy ===== *)
theory Tpc_Commands
  imports Tpc_Types
begin

text \<open>
  The command line of the driver, \<open>utils/commands_parser.h\<close> and \<open>utils/commands_parser.cc\<close>:
  validation by regular expressions, tokens, and the parsed command.
\<close>

section \<open>Validation\<close>

text \<open>\<open>printBalance [1-9][0-9]*\<close>, matched against the whole line.\<close>

definition matches_printBalance :: "string \<Rightarrow> bool" where
  "matches_printBalance line \<longleftrightarrow>
     take 13 line = ''printBalance '' \<and>
     (case drop 13 line of
        [] \<Rightarrow> False
      | c # cs \<Rightarrow> is_digit c \<and> c \<noteq> CHR ''0'' \<and> list_all is_digit cs)"

definition isValidCommand :: "string \<Rightarrow> bool" where
  "isValidCommand line \<longleftrightarrow>
     line = ''processNextSet'' \<or> matches_printBalance line \<or> line = ''printDatastore''
     \<or> line = ''printPerformance'' \<or> line = ''exit''"

section \<open>Tokens\<close>

lemma get_word_shorter:
  "get_word old st = (w, st') \<Longrightarrow> good st' \<Longrightarrow> length (rest st') < length (rest st)"
proof -
  assume "get_word old st = (w, st')" and "good st'"
  then have ne: "skip_ws (rest st) \<noteq> []" and st': "rest st' = dropWhile (\<lambda>c. \<not> is_space c) (skip_ws (rest st))"
    by (auto simp: get_word_def split: if_splits)
  have "\<not> is_space (hd (skip_ws (rest st)))" using ne unfolding skip_ws_def by (rule hd_dropWhile)
  with ne have "rest st' = dropWhile (\<lambda>c. \<not> is_space c) (tl (skip_ws (rest st)))"
    by (cases "skip_ws (rest st)") (simp_all add: st')
  then have "length (rest st') \<le> length (tl (skip_ws (rest st)))" by (simp only: length_dropWhile_le)
  also have "\<dots> < length (skip_ws (rest st))" using ne by simp
  also have "\<dots> \<le> length (rest st)" by (simp add: skip_ws_def length_dropWhile_le)
  finally show ?thesis .
qed

function tokens_loop :: "string \<Rightarrow> istream \<Rightarrow> string list" where
  "tokens_loop token st =
     (let (token, st) = get_word token st
      in if good st then token # tokens_loop token st else [])"
  by pat_completeness auto

termination
  by (relation "measure (\<lambda>(t, st). length (rest st))")
    (auto dest: get_word_shorter split: prod.split)

declare tokens_loop.simps [simp del]

definition tokenizeCommand :: "string \<Rightarrow> string list" where
  "tokenizeCommand line = tokens_loop [] (istringstream line)"

section \<open>Commands\<close>

definition parseCommand :: "string \<Rightarrow> std_exception + AppCommand" where
  "parseCommand line =
     (if \<not> isValidCommand line then Inl invalid_argument
      else case tokenizeCommand line of
             [] \<Rightarrow> Inl out_of_range
           | token # ts \<Rightarrow>
               if token = ''processNextSet'' then Inr \<lparr>command = PROCESS_NEXT_SET, client_id = - 1\<rparr>
               else if token = ''printBalance''
               then (case ts of
                       [] \<Rightarrow> Inl out_of_range
                     | arg # _ \<Rightarrow>
                         (case stoi arg of
                            Inl e \<Rightarrow> Inl e
                          | Inr i \<Rightarrow> Inr \<lparr>command = PRINT_BALANCE, client_id = i\<rparr>))
               else if token = ''printDatastore'' then Inr \<lparr>command = PRINT_DATASTORE, client_id = - 1\<rparr>
               else if token = ''printPerformance'' then Inr \<lparr>command = PRINT_PERFORMANCE, client_id = - 1\<rparr>
               else Inr \<lparr>command = EXIT, client_id = - 1\<rparr>)"

section \<open>What is parsed\<close>

lemma take_drop_word [simp]:
  "list_all (\<lambda>c. \<not> is_space c) w \<Longrightarrow> takeWhile (\<lambda>c. \<not> is_space c) w = w"
  "list_all (\<lambda>c. \<not> is_space c) w \<Longrightarrow> dropWhile (\<lambda>c. \<not> is_space c) w = []"
  by (simp_all add: list_all_iff takeWhile_eq_all_conv dropWhile_eq_Nil_conv)

lemma skip_ws_word: "list_all (\<lambda>c. \<not> is_space c) w \<Longrightarrow> skip_ws w = w"
  by (cases w) (simp_all add: skip_ws_def)

lemma get_word_end:
  "get_word old \<lparr>rest = [], good = g\<rparr> = (old, \<lparr>rest = [], good = False\<rparr>)"
  by (simp add: get_word_def skip_ws_def)

lemma tokens_single:
  assumes "w \<noteq> []" and "list_all (\<lambda>c. \<not> is_space c) w"
  shows "tokens_loop old \<lparr>rest = w, good = True\<rparr> = [w]"
proof -
  have "get_word old \<lparr>rest = w, good = True\<rparr> = (w, \<lparr>rest = [], good = True\<rparr>)"
    using assms by (simp add: get_word_def skip_ws_word)
  then show ?thesis
    by (subst tokens_loop.simps) (simp add: tokens_loop.simps [of w "\<lparr>rest = [], good = True\<rparr>"] get_word_end)
qed

lemma tokens_pair:
  assumes "w \<noteq> []" and "list_all (\<lambda>c. \<not> is_space c) w" and "v \<noteq> []" and "list_all (\<lambda>c. \<not> is_space c) v"
  shows "tokenizeCommand (w @ '' '' @ v) = [w, v]"
proof -
  have one: "get_word [] \<lparr>rest = w @ CHR '' '' # v, good = True\<rparr> = (w, \<lparr>rest = CHR '' '' # v, good = True\<rparr>)"
    by (rule get_word_append [OF assms(1,2)])
  have "get_word w \<lparr>rest = CHR '' '' # v, good = True\<rparr> = (v, \<lparr>rest = [], good = True\<rparr>)"
    using assms(3,4) by (simp add: get_word_def skip_ws_word)
  then have "tokens_loop w \<lparr>rest = CHR '' '' # v, good = True\<rparr> = [v]"
    by (subst tokens_loop.simps) (simp add: tokens_loop.simps [of v "\<lparr>rest = [], good = True\<rparr>"] get_word_end)
  then show ?thesis
    unfolding tokenizeCommand_def istringstream_def
    by (subst tokens_loop.simps) (simp add: one)
qed

lemma nat_to_string_first: "0 < n \<Longrightarrow> hd (nat_to_string n) \<noteq> CHR ''0''"
proof (induction n rule: nat_to_string.induct)
  case (1 n)
  show ?case
  proof (cases "n < 10")
    case True
    then have "(of_char (digit n) :: nat) \<noteq> of_char CHR ''0''" using 1(2) by simp
    then have "digit n \<noteq> CHR ''0''" by metis
    then show ?thesis using True by (subst nat_to_string.simps) simp
  next
    case False
    then have "hd (nat_to_string (n div 10)) \<noteq> CHR ''0''" using 1 by simp
    then show ?thesis using False by (subst nat_to_string.simps) (simp add: hd_append)
  qed
qed

lemma valid_printBalance:
  assumes "1 \<le> n"
  shows "matches_printBalance (''printBalance '' @ to_string n)"
proof -
  have ts: "to_string n = nat_to_string (nat n)" using assms by (simp add: to_string_def)
  obtain c cs where c: "nat_to_string (nat n) = c # cs" "is_digit c" by (rule nat_to_string_Cons)
  moreover have "c \<noteq> CHR ''0''" using nat_to_string_first [of "nat n"] assms c(1) by simp
  moreover have "list_all is_digit cs" using nat_to_string_digits [of "nat n"] c(1) by simp
  ultimately show ?thesis by (simp add: matches_printBalance_def ts)
qed

lemma to_string_not_space: "list_all (\<lambda>c. \<not> is_space c) (to_string n)"
proof -
  have "\<not> is_space c" if "c \<in> set (to_string n)" for c
    using to_string_chars [OF that] digit_not_space by (auto simp: is_space_def)
  then show ?thesis by (simp add: list_all_iff)
qed

lemma stoi_range: "stoi (to_string n) = (if int32 n then Inr n else Inl out_of_range)"
  using scan_int_to_string [of "[]" n] skip_ws_to_string [of n "[]"]
  by (simp add: stoi_def not_digit_first_def)

lemma parse_printBalance:
  assumes "1 \<le> n"
  shows "parseCommand (''printBalance '' @ to_string n) =
    (if n \<le> 2147483647 then Inr \<lparr>command = PRINT_BALANCE, client_id = n\<rparr> else Inl out_of_range)"
proof -
  have w: "list_all (\<lambda>c. \<not> is_space c) ''printBalance''" by (simp add: is_space_def)
  have "tokenizeCommand (''printBalance'' @ '' '' @ to_string n) = [''printBalance'', to_string n]"
    by (rule tokens_pair [OF _ w _ to_string_not_space]) simp_all
  moreover have "int32 n \<longleftrightarrow> n \<le> 2147483647" using assms by (auto simp: int32_def)
  ultimately show ?thesis
    using valid_printBalance [OF assms] by (simp add: parseCommand_def isValidCommand_def stoi_range)
qed

lemma parse_word:
  assumes "w \<in> {''processNextSet'', ''printDatastore'', ''printPerformance'', ''exit''}"
  shows "parseCommand w = Inr \<lparr>command =
      (if w = ''processNextSet'' then PROCESS_NEXT_SET else if w = ''printDatastore'' then PRINT_DATASTORE
       else if w = ''printPerformance'' then PRINT_PERFORMANCE else EXIT), client_id = - 1\<rparr>"
proof -
  have "w \<noteq> []" "list_all (\<lambda>c. \<not> is_space c) w" using assms by (auto simp: is_space_def)
  then have "tokenizeCommand w = [w]" by (simp add: tokenizeCommand_def istringstream_def tokens_single)
  then show ?thesis using assms by (auto simp: parseCommand_def isValidCommand_def)
qed

text \<open>Conversely, a string of digits that does not begin with zero prints a positive number.\<close>

lemma digit_digit_val: "is_digit c \<Longrightarrow> digit (digit_val c) = c"
  by (simp add: is_digit_def digit_def digit_val_def)

lemma digits_print:
  assumes "is_digit c" and "c \<noteq> CHR ''0''"
  shows "list_all is_digit cs \<Longrightarrow> \<exists>n \<ge> 1. nat_to_string n = c # cs"
proof (induction cs rule: rev_induct)
  case Nil
  have "digit_val c < 10" using assms(1) by (auto simp: is_digit_def digit_val_def)
  moreover have "digit_val c \<noteq> 0"
  proof
    assume "digit_val c = 0"
    then have "c = digit 0" using digit_digit_val [OF assms(1)] by simp
    moreover have "digit 0 = CHR ''0''" by code_simp
    ultimately show False using assms(2) by simp
  qed
  ultimately show ?case
    using digit_digit_val [OF assms(1)] by (intro exI [of _ "digit_val c"]) (simp add: nat_to_string.simps)
next
  case (snoc d cs)
  then obtain n where n: "1 \<le> n" "nat_to_string n = c # cs" by auto
  have d: "is_digit d" using snoc.prems by simp
  then have "digit_val d < 10" by (auto simp: is_digit_def digit_val_def)
  moreover from this have "(10 * n + digit_val d) div 10 = n" "(10 * n + digit_val d) mod 10 = digit_val d" by simp_all
  ultimately have "nat_to_string (10 * n + digit_val d) = c # cs @ [d]"
    using n digit_digit_val [OF d] by (subst nat_to_string.simps) simp
  then show ?case using n(1) by (intro exI [of _ "10 * n + digit_val d"]) simp
qed

lemma matches_printBalance_iff:
  "matches_printBalance line \<longleftrightarrow> (\<exists>n \<ge> 1. line = ''printBalance '' @ to_string n)"
proof
  assume m: "matches_printBalance line"
  then obtain c cs where c: "drop 13 line = c # cs" "is_digit c" "c \<noteq> CHR ''0''" "list_all is_digit cs"
    by (auto simp: matches_printBalance_def split: list.splits)
  obtain n where n: "1 \<le> n" "nat_to_string n = c # cs" using digits_print [OF c(2,3,4)] by blast
  have "line = take 13 line @ drop 13 line" by simp
  also have "take 13 line = ''printBalance ''" using m by (simp add: matches_printBalance_def)
  finally have "line = ''printBalance '' @ to_string (int n)" using c(1) n(2) by (simp add: to_string_def)
  then show "\<exists>n \<ge> 1. line = ''printBalance '' @ to_string n" using n(1) by (intro exI [of _ "int n"]) simp
qed (use valid_printBalance in blast)

definition plain_commands :: "string set" where
  "plain_commands = {''processNextSet'', ''printDatastore'', ''printPerformance'', ''exit''}"

lemma valid_iff:
  "isValidCommand line \<longleftrightarrow> line \<in> plain_commands \<or> (\<exists>n \<ge> 1. line = ''printBalance '' @ to_string n)"
  by (simp only: isValidCommand_def matches_printBalance_iff plain_commands_def insert_iff empty_iff simp_thms disj_ac)

text \<open>
  C31. The command language, in full: a line is a command exactly when it is one of the four plain
  words, or \<open>printBalance\<close>, one space and the decimal representation of a positive number, with no
  leading zero, sign or blank. The words and every number that fits \<open>int\<close> are parsed to what they
  say, a larger number is reported as \<open>out_of_range\<close>, and every other line, and no command, as
  \<open>invalid_argument\<close>.
\<close>

theorem command_language:
  "(\<forall>n \<ge> 1. parseCommand (''printBalance '' @ to_string n) =
      (if n \<le> 2147483647 then Inr \<lparr>command = PRINT_BALANCE, client_id = n\<rparr> else Inl out_of_range))
   \<and> parseCommand ''processNextSet'' = Inr \<lparr>command = PROCESS_NEXT_SET, client_id = - 1\<rparr>
   \<and> parseCommand ''printDatastore'' = Inr \<lparr>command = PRINT_DATASTORE, client_id = - 1\<rparr>
   \<and> parseCommand ''printPerformance'' = Inr \<lparr>command = PRINT_PERFORMANCE, client_id = - 1\<rparr>
   \<and> parseCommand ''exit'' = Inr \<lparr>command = EXIT, client_id = - 1\<rparr>
   \<and> (\<forall>line. parseCommand line = Inl invalid_argument \<longleftrightarrow>
        line \<notin> plain_commands \<and> (\<forall>n \<ge> 1. line \<noteq> ''printBalance '' @ to_string n))"
proof -
  have "parseCommand line = Inl invalid_argument \<longleftrightarrow> \<not> isValidCommand line" for line
  proof (cases "isValidCommand line")
    case True
    from True [unfolded valid_iff] show ?thesis
    proof (elim disjE exE conjE)
      assume "line \<in> plain_commands"
      then show ?thesis using True parse_word [of line] by (simp add: plain_commands_def)
    next
      fix n :: int assume "1 \<le> n" "line = ''printBalance '' @ to_string n"
      then show ?thesis using True parse_printBalance [of n] by (simp del: append.simps)
    qed
  qed (simp add: parseCommand_def)
  then have "parseCommand line = Inl invalid_argument \<longleftrightarrow>
      line \<notin> plain_commands \<and> (\<forall>n \<ge> 1. line \<noteq> ''printBalance '' @ to_string n)" for line
    unfolding valid_iff by blast
  then show ?thesis
    using parse_printBalance parse_word [of "''processNextSet''"] parse_word [of "''printDatastore''"]
      parse_word [of "''printPerformance''"] parse_word [of "''exit''"] by simp
qed

theorem command_language_witness:
  "parseCommand (''printBalance '' @ to_string 501) = Inr \<lparr>command = PRINT_BALANCE, client_id = 501\<rparr>
   \<and> parseCommand ''printBalance 007'' = Inl invalid_argument \<and> parseCommand ''exit '' = Inl invalid_argument"
proof -
  have other: "''printBalance 007'' \<noteq> ''printBalance '' @ to_string n" "''exit '' \<noteq> ''printBalance '' @ to_string n"
    if "1 \<le> n" for n
    using nat_to_string_first [of "nat n"] that by (auto simp: to_string_def dest: sym)
  show ?thesis using command_language other by (simp add: plain_commands_def)
qed

end
