(* ===== verification/Tpc_Process.thy ===== *)
theory Tpc_Process
  imports Tpc_Quorum
begin

text \<open>
  Process control, the functions \<open>startAllServers\<close> and \<open>killAllServers\<close> of \<open>utils/utils.cc\<close>
  and the table \<open>server_pids\<close> of \<open>utils/utils.h\<close>. The results of \<open>fork\<close>, \<open>execl\<close> and \<open>kill\<close>
  are arguments. \<open>startAllServers\<close> describes the parent and the children alike: a child is the
  run in which \<open>fork\<close> returned zero.
\<close>

type_synonym pid_map = "(string \<times> int) list"

datatype StartResult = AllStarted | StartThrew std_exception | BecameServer "string list"

definition start_error :: "string \<Rightarrow> std_exception" where
  "start_error name = runtime_error (''Failed to start server: '' @ name)"

fun startAllServers_loop ::
  "(string \<Rightarrow> int) \<Rightarrow> (string \<Rightarrow> bool) \<Rightarrow> int \<Rightarrow> int \<Rightarrow> (string \<times> string) list \<Rightarrow> pid_map
     \<Rightarrow> pid_map \<times> StartResult" where
  "startAllServers_loop fork execl nc sz [] pids = (pids, AllStarted)"
| "startAllServers_loop fork execl nc sz (s # ss) pids =
     (let pid = fork (fst s)
      in if pid < 0 then (pids, StartThrew (start_error (fst s)))
         else if 0 < pid then startAllServers_loop fork execl nc sz ss (smap_set (fst s) pid pids)
         else if execl (fst s)
         then (pids, BecameServer [''server'', fst s, to_string nc, to_string sz])
         else (pids, StartThrew (start_error (fst s))))"

definition startAllServers ::
  "(string \<Rightarrow> int) \<Rightarrow> (string \<Rightarrow> bool) \<Rightarrow> int \<Rightarrow> int \<Rightarrow> constants \<Rightarrow> pid_map \<Rightarrow> pid_map \<times> StartResult" where
  "startAllServers fork execl nc sz cs pids =
     startAllServers_loop fork execl nc sz (server_addresses cs) pids"

text \<open>
  The loop of \<open>killAllServers\<close> stops at its first element whenever there is one: either \<open>kill\<close>
  fails and an exception is thrown, or the element is erased from the map. After that the loop
  reads the erased element (if \<open>waitpid\<close> fails) or advances its iterator; both are undefined.
\<close>

datatype KillResult = AllKilled | KillThrew std_exception | ErasedWhileIterating

fun killAllServers :: "(int \<Rightarrow> bool) \<Rightarrow> pid_map \<Rightarrow> pid_map \<times> KillResult" where
  "killAllServers kill_ok [] = ([], AllKilled)"
| "killAllServers kill_ok (p # ps) =
     (if \<not> kill_ok (snd p)
      then (p # ps, KillThrew (runtime_error (''Failed to kill server: '' @ fst p)))
      else (ps, ErasedWhileIterating))"

section \<open>Starting\<close>

lemma startAllServers_loop_parent:
  assumes "list_all (\<lambda>s. 0 < fork (fst s)) ss"
  shows "startAllServers_loop fork execl nc sz ss pids =
    (fold (\<lambda>(k, v). smap_set k v) (map (\<lambda>s. (fst s, fork (fst s))) ss) pids, AllStarted)"
  using assms by (induction ss arbitrary: pids) auto

lemma startAllServers_loop_child:
  assumes "name \<in> fst ` set ss" and "fork name = 0" and "execl name"
    and "\<And>s. s \<in> set ss \<Longrightarrow> fst s \<noteq> name \<Longrightarrow> 0 < fork (fst s)"
  shows "snd (startAllServers_loop fork execl nc sz ss pids) =
    BecameServer [''server'', name, to_string nc, to_string sz]"
  using assms
proof (induction ss arbitrary: pids)
  case (Cons s ss)
  show ?case
  proof (cases "fst s = name")
    case True
    with Cons.prems(2,3) show ?thesis by simp
  next
    case False
    then have "0 < fork (fst s)" using Cons.prems(4) [of s] by simp
    moreover have "name \<in> fst ` set ss" using Cons.prems(1) False by auto
    ultimately show ?thesis using Cons.IH [OF _ Cons.prems(2,3)] Cons.prems(4) by simp
  qed
qed simp

lemma fold_smap_keys:
  "fst ` set (fold (\<lambda>(k, v). smap_set k v) kvs m) = fst ` set kvs \<union> fst ` set m"
  by (induction kvs arbitrary: m) (simp_all add: split_beta)

lemma address_names:
  "fst ` set (server_addresses (fresh_setup nc sz)) = server_name_of ` {1..i32 (nc * sz)}"
  by (simp add: fresh_setup_def setupApplicationState_def addresses_fold initial_constants_def
    fold_smap_keys image_image)

lemma parent_records:
  assumes "setup_ok nc sz" and "\<forall>i. 1 \<le> i \<and> i \<le> nc * sz \<longrightarrow> 0 < fork (server_name_of i)"
  shows "\<exists>pids. startAllServers fork execl nc sz (fresh_setup nc sz) [] = (pids, AllStarted)
     \<and> (\<forall>name. map_of pids name =
          (if name \<in> server_name_of ` {1..nc * sz} then Some (fork name) else None))"
proof -
  let ?ss = "server_addresses (fresh_setup nc sz)"
  let ?kvs = "map (\<lambda>s. (fst s, fork (fst s))) ?ss"
  have names: "fst ` set ?ss = server_name_of ` {1..nc * sz}"
    by (simp add: address_names setup_total(1) [OF assms(1)])
  have "0 < fork (fst s)" if "s \<in> set ?ss" for s
  proof -
    have "fst s \<in> server_name_of ` {1..nc * sz}" using that names by blast
    then show ?thesis using assms(2) by auto
  qed
  then have "list_all (\<lambda>s. 0 < fork (fst s)) ?ss" by (simp add: list_all_iff)
  then have eq: "startAllServers fork execl nc sz (fresh_setup nc sz) [] =
    (fold (\<lambda>(k, v). smap_set k v) ?kvs [], AllStarted)"
    by (simp add: startAllServers_def startAllServers_loop_parent)
  have "map_of (rev ?kvs) = map_of (rev (map (\<lambda>n. (n, fork n)) (map fst ?ss)))" by (simp add: comp_def)
  also have "\<dots> = map_of (map (\<lambda>n. (n, fork n)) (rev (map fst ?ss)))" by (simp only: rev_map)
  finally have "map_of (rev ?kvs) = (Some \<circ> fork) |` (fst ` set ?ss)"
    by (simp only: map_of_map_restrict set_rev set_map)
  then show ?thesis unfolding eq names
    by (simp add: smap.get_fold restrict_map_def del: map_map)
qed

text \<open>
  C35. Starting the deployment: the parent records the process of every server under its name,
  and the child forked for server \<open>i\<close> becomes a server process whose \<open>main\<close> enters the event
  loop as server \<open>i\<close> of the table that the driver has set up.
\<close>

theorem deployment_starts:
  assumes "setup_ok nc sz" and "int32 nc" and "1 \<le> i" and "i \<le> nc * sz"
    and "\<forall>j. 1 \<le> j \<and> j \<le> nc * sz \<longrightarrow> 0 < fork (server_name_of j)"
    and "execl (server_name_of i)"
  shows "\<exists>pids argv. startAllServers fork execl nc sz (fresh_setup nc sz) [] = (pids, AllStarted)
     \<and> map_of pids (server_name_of i) = Some (fork (server_name_of i))
     \<and> snd (startAllServers (fork(server_name_of i := 0)) execl nc sz (fresh_setup nc sz) []) = BecameServer argv
     \<and> server_main argv f v True True =
         Inr (Inr (started (fresh_setup nc sz) i (server_name_of i) f v, True))"
proof -
  obtain pids where pids: "startAllServers fork execl nc sz (fresh_setup nc sz) [] = (pids, AllStarted)"
    "map_of pids (server_name_of i) = Some (fork (server_name_of i))"
    using parent_records [OF assms(1,5), where execl = execl] assms(3,4) by auto
  have names: "fst ` set (server_addresses (fresh_setup nc sz)) = server_name_of ` {1..nc * sz}"
    by (simp add: address_names setup_total(1) [OF assms(1)])
  have child: "snd (startAllServers (fork(server_name_of i := 0)) execl nc sz (fresh_setup nc sz) []) =
    BecameServer [''server'', server_name_of i, to_string nc, to_string sz]"
    unfolding startAllServers_def
  proof (rule startAllServers_loop_child)
    fix s assume s: "s \<in> set (server_addresses (fresh_setup nc sz))" "fst s \<noteq> server_name_of i"
    then have "fst s \<in> server_name_of ` {1..nc * sz}" using names by blast
    then obtain j where "fst s = server_name_of j" "1 \<le> j" "j \<le> nc * sz" by auto
    with s(2) assms(5) show "0 < (fork(server_name_of i := 0)) (fst s)" by simp
  qed (use names assms in auto)
  show ?thesis using pids child server_main_started [OF assms(1,3,4,2)] by blast
qed

theorem deployment_starts_witness:
  "\<exists>argv. snd (startAllServers ((\<lambda>_. 100)(server_name_of 5 := 0)) (\<lambda>_. True) 3 3 (fresh_setup 3 3) []) = BecameServer argv
     \<and> server_main argv empty_file plain_boot True True =
         Inr (Inr (started (fresh_setup 3 3) 5 (server_name_of 5) empty_file plain_boot, True))"
proof -
  have "setup_ok 3 3" "int32 3" by (simp_all add: setup_ok_def int32_def)
  from deployment_starts [OF this, of 5 "\<lambda>_. 100" "\<lambda>_. True" empty_file plain_boot]
  obtain argv where "snd (startAllServers ((\<lambda>_. 100)(server_name_of 5 := 0)) (\<lambda>_. True) 3 3 (fresh_setup 3 3) []) = BecameServer argv"
    "server_main argv empty_file plain_boot True True =
         Inr (Inr (started (fresh_setup 3 3) 5 (server_name_of 5) empty_file plain_boot, True))" by auto
  then show ?thesis by blast
qed

section \<open>Stopping\<close>

lemma kill_never_finishes:
  "pids \<noteq> [] \<Longrightarrow> snd (killAllServers kill_ok pids) \<noteq> AllKilled"
  by (cases pids) auto

end
