(* ===== verification/Tpc_Driver.thy ===== *)
theory Tpc_Driver
  imports Tpc_Client Tpc_CSV Tpc_Commands Tpc_Process
begin

text \<open>
  The driver, \<open>driver.cc\<close>: the command loop over the reader and the client, and \<open>main\<close>. The
  lines typed, the clock, the answers of the servers, the replies that the second thread
  consumes and the results of \<open>fork\<close>, \<open>execl\<close> and \<open>kill\<close> come from outside; \<open>fmt\<close> stands for
  the formatting of a \<open>double\<close> by \<open>operator<<\<close>.
\<close>

record App =
  app_reader :: CSVReader
  app_client :: Client
  app_set :: TransactionSet
  app_pids :: pid_map

text \<open>
  How a turn of the loop ends: another turn, the end, an exception that leaves the loop,
  undefined behaviour (the index of a leader outside the list, or an iterator used after its
  element was erased), or the end of the process by a failed \<open>CHECK\<close> in the reply thread.
\<close>

datatype Outcome =
  Continue | Exited | Escaped std_exception | Undefined int | DeadIterator | CheckFailed

text \<open>
  What the outside provides for one turn. \<open>completed\<close> are the completions that the reply
  thread takes from its queue while the main thread waits for the line.
\<close>

record Outside =
  clock :: "nat \<Rightarrow> int"
  balance_answer :: "string \<Rightarrow> BalanceRes option"
  log_answer :: "string \<Rightarrow> LogRes option"
  kill_ok :: "int \<Rightarrow> bool"
  completed :: "(ClientCall \<times> bool \<times> int) list"

definition promptUserForCommand :: string where
  "promptUserForCommand =
     ''Type one of the following commands to proceed:'' @ endl
     @ ''1. processNextSet'' @ endl
     @ ''2. printBalance <client_id>'' @ endl
     @ ''3. printDatastore'' @ endl
     @ ''4. printPerformance'' @ endl
     @ ''5. exit'' @ endl
     @ replicate 73 CHR ''='' @ endl"

definition printPerformance :: "(real \<Rightarrow> string) \<Rightarrow> Client \<Rightarrow> string" where
  "printPerformance fmt c =
     ''Transactions Processed: '' @ to_string (transactions_processed c) @ endl
     @ ''Time taken: '' @ fmt (total_time c) @ '' ns'' @ endl
     @ ''Performance: '' @ (case performance c of None \<Rightarrow> ''inf'' | Some x \<Rightarrow> fmt x) @ '' transactions/second'' @ endl"

definition stamped :: "(nat \<Rightarrow> int) \<Rightarrow> Transaction list \<Rightarrow> (Transaction \<times> int) list" where
  "stamped clk ts = zip ts (map clk [0..<length ts])"

definition processNextSet :: "Outside \<Rightarrow> App \<Rightarrow> App \<times> ClientMsg list \<times> string \<times> Outcome" where
  "processNextSet env a =
     (let out = ''reading next set'' @ endl;
          (r, t, res) = readNextSet (client_consts (app_client a)) (app_set a) (app_reader a);
          a = a\<lparr>app_reader := r, app_set := t\<rparr>
      in case res of
           Inl e \<Rightarrow> (a, [], out, Continue)
         | Inr n \<Rightarrow>
             if n = 0 then (a, [], out @ ''No more transaction sets to read...'' @ endl, Continue)
             else let msgs = updateDisconnected (disconnected_servers t) (app_client a) in
                  case processTransactions (stamped (clock env) (transactions t)) (leaders t) (app_client a) of
                    Inl i \<Rightarrow> (a, msgs, out, Undefined i)
                  | Inr (c, ms) \<Rightarrow> (a\<lparr>app_client := c\<rparr>, msgs @ ms, out, Continue))"

definition mainloop_turn ::
  "(real \<Rightarrow> string) \<Rightarrow> Outside \<Rightarrow> string \<Rightarrow> App \<Rightarrow> App \<times> ClientMsg list \<times> string \<times> Outcome" where
  "mainloop_turn fmt env line a =
     (case parseCommand line of
        Inl invalid_argument \<Rightarrow> (a, [], ''Invalid command. Try again. '' @ endl, Continue)
      | Inl e \<Rightarrow> (a, [], [], Escaped e)
      | Inr c \<Rightarrow>
          (case command c of
             PROCESS_NEXT_SET \<Rightarrow> processNextSet env a
           | PRINT_BALANCE \<Rightarrow>
               (a, [], printBalance (client_id c) (balance_answer env) (app_client a), Continue)
           | PRINT_DATASTORE \<Rightarrow> (a, [], printDatastore (log_answer env) (app_client a), Continue)
           | PRINT_PERFORMANCE \<Rightarrow> (a, [], printPerformance fmt (app_client a), Continue)
           | EXIT \<Rightarrow>
               (let (pids, res) = killAllServers (kill_ok env) (app_pids a);
                    a = a\<lparr>app_pids := pids\<rparr>
                in (a, [], ''Exiting...'' @ endl,
                    case res of AllKilled \<Rightarrow> Exited | KillThrew e \<Rightarrow> Continue
                    | ErasedWhileIterating \<Rightarrow> DeadIterator))))"

fun mainloop ::
  "(real \<Rightarrow> string) \<Rightarrow> (Outside \<times> string) list \<Rightarrow> App \<Rightarrow> App \<times> ClientMsg list \<times> string \<times> Outcome" where
  "mainloop fmt [] a = (a, [], [], Continue)"
| "mainloop fmt ((env, line) # ls) a =
     (let (c, replied, aborted) = consumeReplies (completed env) (app_client a);
          a = a\<lparr>app_client := c\<rparr>
      in if aborted then (a, replied, promptUserForCommand, CheckFailed)
         else let (a, msgs, out, oc) = mainloop_turn fmt env line a;
                  msgs = replied @ msgs;
                  out = promptUserForCommand @ out
              in if oc = Continue
                 then let (a, ms, o', oc) = mainloop fmt ls a in (a, msgs @ ms, out @ o', oc)
                 else (a, msgs, out, oc))"

section \<open>main\<close>

text \<open>
  How the process ends, or what it is doing when the lines given are used up. A child of
  \<open>startAllServers\<close> goes on as a server.
\<close>

datatype ProcessEnd =
  ExitStatus int | Terminated | UndefinedBehaviour | Waiting App | Exec "string list"

text \<open>
  \<open>main\<close> up to the loop. The two numbers are converted before the \<open>try\<close>. Its handler joins the
  outer thread \<open>t\<close>, which was never started: \<open>join\<close> throws out of the handler, and the process
  is terminated before \<open>exit(1)\<close>. \<open>content\<close> is the content of the file if it opens.
\<close>

definition main_setup ::
  "string list \<Rightarrow> (string \<Rightarrow> string option) \<Rightarrow> (string \<Rightarrow> int) \<Rightarrow> (string \<Rightarrow> bool) \<Rightarrow> ProcessEnd + App" where
  "main_setup argv content fork execl =
     (if length argv \<noteq> 4 then Inl (ExitStatus 1)
      else case try_bind (stoi (argv ! 1)) (\<lambda>nc. try_bind (stoi (argv ! 2)) (\<lambda>sz. Inr (nc, sz))) of
             Inl e \<Rightarrow> Inl Terminated
           | Inr (nc, sz) \<Rightarrow>
               (let cs = setupApplicationState initial_constants nc sz in
                case startAllServers fork execl nc sz cs [] of
                  (pids, StartThrew e) \<Rightarrow> Inl Terminated
                | (pids, BecameServer args) \<Rightarrow> Inl (Exec args)
                | (pids, AllStarted) \<Rightarrow>
                    (case CSVReader_new (argv ! 3) (content (argv ! 3)) of
                       Inl e \<Rightarrow> Inl Terminated
                     | Inr r \<Rightarrow> Inr \<lparr>app_reader = r, app_client = Client_new cs, app_set = empty_set,
                                    app_pids = pids\<rparr>)))"

text \<open>
  The thread that consumes the replies is a local variable of the \<open>try\<close> block: leaving the
  block, at the end of the loop or by an exception, destroys it while it is joinable, which
  terminates the process.
\<close>

definition driver_main ::
  "(real \<Rightarrow> string) \<Rightarrow> string list \<Rightarrow> (string \<Rightarrow> string option) \<Rightarrow> (string \<Rightarrow> int) \<Rightarrow> (string \<Rightarrow> bool)
     \<Rightarrow> (Outside \<times> string) list \<Rightarrow> ClientMsg list \<times> string \<times> ProcessEnd" where
  "driver_main fmt argv content fork execl ls =
     (case main_setup argv content fork execl of
        Inl e \<Rightarrow> ([], [], e)
      | Inr a \<Rightarrow>
          (let (a, msgs, out, oc) = mainloop fmt ls a
           in (msgs, out,
               case oc of Continue \<Rightarrow> Waiting a | Exited \<Rightarrow> Terminated | Escaped e \<Rightarrow> Terminated
               | Undefined i \<Rightarrow> UndefinedBehaviour | DeadIterator \<Rightarrow> UndefinedBehaviour
               | CheckFailed \<Rightarrow> Terminated)))"

section \<open>Lines that are not commands\<close>

text \<open>
  A line outside the command language changes nothing. A client number that does not fit
  \<open>int\<close> leaves the loop by an exception: only \<open>invalid_argument\<close> is caught around the parser.
\<close>

lemma invalid_line_ignored:
  "\<not> isValidCommand line \<Longrightarrow>
   mainloop_turn fmt env line a = (a, [], ''Invalid command. Try again. '' @ endl, Continue)"
  by (simp add: mainloop_turn_def parseCommand_def)

lemma oversized_number_escapes:
  "2147483647 < n \<Longrightarrow>
   mainloop_turn fmt env (''printBalance '' @ to_string n) a = (a, [], [], Escaped out_of_range)"
  using parse_printBalance [of n] by (simp add: mainloop_turn_def)

text \<open>
  At the end of its input \<open>getline\<close> leaves the empty line that the last newline produced, and
  the loop does not look at the stream: it prompts for ever.
\<close>

lemma end_of_input_spins:
  assumes "completed env = []"
  shows "\<exists>out. mainloop fmt (replicate n (env, [])) a = (a, [], out, Continue)"
proof -
  have "\<not> isValidCommand []"
    by (simp add: isValidCommand_def matches_printBalance_def)
  then have "mainloop_turn fmt env [] a = (a, [], ''Invalid command. Try again. '' @ endl, Continue)"
    by (rule invalid_line_ignored)
  then show ?thesis using assms by (induction n) (auto simp: Let_def)
qed

section \<open>The command exit\<close>

lemma turn_keeps_servers:
  assumes "mainloop_turn fmt env line a = (a', msgs, out, oc)" and "app_pids a \<noteq> []"
  shows "oc \<noteq> Exited" and "oc = Continue \<Longrightarrow> app_pids a' = app_pids a"
proof -
  obtain p ps where p: "app_pids a = p # ps" using assms(2) by (cases "app_pids a") auto
  have next_set: "app_pids (fst (processNextSet env a)) = app_pids a"
    "snd (snd (snd (processNextSet env a))) \<noteq> Exited"
    by (auto simp: processNextSet_def Let_def split: sum.split prod.split)
  show "oc \<noteq> Exited"
    using assms(1) p next_set(2)
    by (auto simp: mainloop_turn_def split: sum.splits std_exception.splits Command.splits if_splits)
  show "app_pids a' = app_pids a" if "oc = Continue"
    using assms(1) p next_set(1) that
    by (auto simp: mainloop_turn_def split: sum.splits std_exception.splits Command.splits if_splits)
qed

lemma loop_keeps_servers:
  assumes "app_pids a \<noteq> []"
  shows "snd (snd (snd (mainloop fmt ls a))) \<noteq> Exited
    \<and> (snd (snd (snd (mainloop fmt ls a))) = Continue \<longrightarrow> app_pids (fst (mainloop fmt ls a)) = app_pids a)"
  using assms
proof (induction ls arbitrary: a)
  case (Cons l ls)
  obtain env line where l: "l = (env, line)" by (cases l)
  obtain c replied aborted where c: "consumeReplies (completed env) (app_client a) = (c, replied, aborted)"
    by (metis prod_cases3)
  obtain a' msgs out oc where turn: "mainloop_turn fmt env line (a\<lparr>app_client := c\<rparr>) = (a', msgs, out, oc)"
    by (metis prod_cases4)
  note keeps = turn_keeps_servers [OF turn]
  have "oc \<noteq> Exited" using keeps(1) Cons.prems by simp
  moreover have "oc = Continue \<Longrightarrow> app_pids a' = app_pids a" using keeps(2) Cons.prems by simp
  ultimately show ?case
    using Cons.IH [of a'] Cons.prems c turn by (auto simp: l Let_def split: prod.split)
qed simp

lemma setup_with_servers:
  assumes "setup_ok nc sz" and "int32 nc" and "content file \<noteq> None"
    and "\<forall>i. 1 \<le> i \<and> i \<le> nc * sz \<longrightarrow> 0 < fork (server_name_of i)"
  shows "\<exists>a. main_setup [prog, to_string nc, to_string sz, file] content fork execl = Inr a
    \<and> app_client a = Client_new (fresh_setup nc sz)
    \<and> fst ` set (app_pids a) = server_name_of ` {1..nc * sz}"
proof -
  obtain pids where pids: "startAllServers fork execl nc sz (fresh_setup nc sz) [] = (pids, AllStarted)"
    "\<And>name. map_of pids name = (if name \<in> server_name_of ` {1..nc * sz} then Some (fork name) else None)"
    using parent_records [OF assms(1,4)] by blast
  obtain t where "content file = Some t" using assms(3) by auto
  moreover have "stoi (to_string nc) = Inr nc" "stoi (to_string sz) = Inr sz"
    using assms(2) setup_total(2) [OF assms(1)] by (simp_all add: stoi_to_string)
  moreover have "fst ` set pids = dom (map_of pids)" by (simp add: dom_map_of_conv_image_fst)
  then have "fst ` set pids = server_name_of ` {1..nc * sz}"
    using pids(2) by (auto simp: dom_def split: if_splits)
  ultimately show ?thesis
    using pids(1) by (simp add: main_setup_def CSVReader_new_def fresh_setup_def [symmetric])
qed

text \<open>
  C36. The driver never ends the way it means to. For a well-formed call whose file opens and
  whose servers start, the command loop never ends by \<open>exit\<close>, whatever is typed and whatever
  the servers answer, and the process never gives an exit status: the command \<open>exit\<close> either
  goes on with the loop, all servers still recorded, or meets undefined behaviour.
\<close>

theorem exit_never_clean:
  assumes "setup_ok nc sz" and "int32 nc" and "content file \<noteq> None"
    and "\<forall>i. 1 \<le> i \<and> i \<le> nc * sz \<longrightarrow> 0 < fork (server_name_of i)"
  shows "\<exists>a. main_setup [prog, to_string nc, to_string sz, file] content fork execl = Inr a
    \<and> snd (snd (snd (mainloop fmt ls a))) \<noteq> Exited
    \<and> (case snd (snd (driver_main fmt [prog, to_string nc, to_string sz, file] content fork execl ls)) of
         Waiting a' \<Rightarrow> fst ` set (app_pids a') = server_name_of ` {1..nc * sz}
       | ExitStatus n \<Rightarrow> False
       | Exec args \<Rightarrow> False
       | _ \<Rightarrow> True)"
proof -
  obtain a where a: "main_setup [prog, to_string nc, to_string sz, file] content fork execl = Inr a"
    "fst ` set (app_pids a) = server_name_of ` {1..nc * sz}"
    using setup_with_servers [of nc sz content "file" fork prog execl] assms by blast
  have "1 \<le> nc * sz" using assms(1) by (simp add: setup_ok_def int_one_le_iff_zero_less)
  then have "app_pids a \<noteq> []" using a(2) by auto
  note keeps = loop_keeps_servers [OF this, of fmt ls]
  obtain a' msgs out oc where "mainloop fmt ls a = (a', msgs, out, oc)" by (metis prod_cases4)
  then show ?thesis using a keeps by (auto simp: driver_main_def split: Outcome.split)
qed

theorem exit_never_clean_witness:
  "snd (snd (driver_main (\<lambda>_. []) [''driver'', to_string 3, to_string 3, ''in.csv''] (\<lambda>_. Some []) (\<lambda>_. 100)
      (\<lambda>_. True) [(\<lparr>clock = int, balance_answer = Map.empty, log_answer = Map.empty, kill_ok = (\<lambda>_. True),
        completed = []\<rparr>, ''exit'')])) \<notin> range ExitStatus"
  using exit_never_clean [of 3 3 "\<lambda>_. Some []" "''in.csv''" "\<lambda>_. 100" "''driver''" "\<lambda>_. True" "\<lambda>_. []"
      "[(\<lparr>clock = int, balance_answer = Map.empty, log_answer = Map.empty, kill_ok = (\<lambda>_. True),
        completed = []\<rparr>, ''exit'')]"]
  by (auto simp: setup_ok_def int32_def simp del: mainloop.simps)

end
