(* ===== verification/Tpc_Client_Props.thy ===== *)
theory Tpc_Client_Props
  imports Tpc_Client Tpc_Quorum
begin

text \<open>
  The coordinator: what it sends for each transaction, when and to whom it sends a decision,
  and how a vote that fails to arrive blocks a transaction.
\<close>

section \<open>Decisions\<close>

definition decision_on :: "TpcTid \<Rightarrow> ClientMsg \<Rightarrow> bool" where
  "decision_on t m \<longleftrightarrow> (\<exists>n. m = SendTpcCommit n t \<or> m = SendTpcAbort n t)"

definition vote_on :: "TpcTid \<Rightarrow> ClientCall \<times> bool \<times> int \<Rightarrow> bool" where
  "vote_on t e \<longleftrightarrow> cc_type (fst e) = TPC_PREPARE \<and> res_tid (cc_reply (fst e)) = t"

definition yes :: "ClientCall \<times> bool \<times> int \<Rightarrow> bool" where
  "yes e \<longleftrightarrow> cc_status (fst e) = StatusOK \<and> res_ack (cc_reply (fst e))"

definition delivered :: "ClientCall \<times> bool \<times> int \<Rightarrow> bool" where
  "delivered e \<longleftrightarrow> fst (snd e)"

definition client_ok :: "Client \<Rightarrow> bool" where
  "client_ok c \<longleftrightarrow> set (client_stubs c) = fst ` set (server_ids (client_consts c))"

text \<open>The servers of two clusters, in the order of the table.\<close>

definition servers_of :: "constants \<Rightarrow> int \<Rightarrow> int \<Rightarrow> string list" where
  "servers_of cs sc rc = map fst (filter (\<lambda>s. getClusterIdFromServerId cs (snd s) = sc
     \<or> getClusterIdFromServerId cs (snd s) = rc) (server_ids cs))"

lemma tpcDecide_loop_eq:
  "tpcDecide_loop m sc rc c ss =
     map (\<lambda>n. via c n (m n)) (map fst (filter (\<lambda>s. getClusterIdFromServerId (client_consts c) (snd s) = sc
       \<or> getClusterIdFromServerId (client_consts c) (snd s) = rc) ss))"
  by (induction ss) (auto simp: Let_def)

lemma decision_msgs:
  assumes "client_ok c"
  shows "tpcCommit t sc rc c = map (\<lambda>n. SendTpcCommit n t) (servers_of (client_consts c) sc rc)"
    and "tpcAbort t sc rc c = map (\<lambda>n. SendTpcAbort n t) (servers_of (client_consts c) sc rc)"
  using assms
  by (auto simp: tpcCommit_def tpcAbort_def tpcDecide_loop_eq servers_of_def via_def client_ok_def)

lemma decision_filter:
  "t' \<noteq> t \<Longrightarrow> filter (decision_on t') (tpcCommit t sc rc c) = []"
  "t' \<noteq> t \<Longrightarrow> filter (decision_on t') (tpcAbort t sc rc c) = []"
  by (auto simp: tpcCommit_def tpcAbort_def tpcDecide_loop_eq filter_empty_conv via_def decision_on_def)

lemma count_time_simps [simp]:
  "client_consts (count_time d c) = client_consts c" "client_stubs (count_time d c) = client_stubs c"
  "processing (count_time d c) = processing c"
  by (simp_all add: count_time_def)

lemma consume_one_frame:
  "client_consts (fst (consume_one call now c)) = client_consts c"
  "client_stubs (fst (consume_one call now c)) = client_stubs c"
  by (simp_all add: consume_one_def Let_def)

lemma consume_one_other:
  assumes "\<not> vote_on t (call, ok, now)"
  shows "processing (fst (consume_one call now c)) t = processing c t"
    and "filter (decision_on t) (snd (consume_one call now c)) = []"
  using assms by (auto simp: consume_one_def vote_on_def Let_def decision_filter)

text \<open>The effect of a vote on a transaction that is being processed.\<close>

definition counted :: "bool \<Rightarrow> TpcPrepareRes \<Rightarrow> TpcPrepareRes" where
  "counted y p = (if y then p\<lparr>successes := successes p + 1\<rparr> else p\<lparr>failures := failures p + 1\<rparr>)"

lemma consume_one_vote:
  assumes "vote_on t (call, ok, now)" and "processing c t = Some p" and "client_ok c"
    and "0 \<le> successes p" and "0 \<le> failures p" and "successes p + failures p < 2"
  shows "successes p + failures p = 0 \<Longrightarrow>
      processing (fst (consume_one call now c)) t = Some (counted (yes (call, ok, now)) p)
      \<and> snd (consume_one call now c) = []"
    and "successes p + failures p = 1 \<Longrightarrow>
      processing (fst (consume_one call now c)) t = None
      \<and> snd (consume_one call now c) =
          map (\<lambda>n. if successes p = 1 \<and> yes (call, ok, now) then SendTpcCommit n t else SendTpcAbort n t)
            (servers_of (client_consts c) (getClusterIdFromClientId (client_consts c) (sender (tp_txn p)))
              (getClusterIdFromClientId (client_consts c) (receiver (tp_txn p))))"
proof -
  have ty: "cc_type call = TPC_PREPARE" "res_tid (cc_reply call) = t" using assms(1) by (simp_all add: vote_on_def)
  have small: "i32 n = n" if "0 \<le> n" "n \<le> 2" for n using that by (intro i32_id) (simp add: int32_def)
  have ok': "client_ok (count_time d (c\<lparr>processing := m\<rparr>))" for d m
    using assms(3) by (simp add: client_ok_def)
  show "processing (fst (consume_one call now c)) t = Some (counted (yes (call, ok, now)) p)
      \<and> snd (consume_one call now c) = []" if "successes p + failures p = 0"
  proof -
    have "successes p = 0" "failures p = 0" using that assms(4,5) by linarith+
    then show ?thesis
      using assms(2) ty by (auto simp: consume_one_def processing_at_def yes_def counted_def Let_def)
  qed
  show "processing (fst (consume_one call now c)) t = None
      \<and> snd (consume_one call now c) =
          map (\<lambda>n. if successes p = 1 \<and> yes (call, ok, now) then SendTpcCommit n t else SendTpcAbort n t)
            (servers_of (client_consts c) (getClusterIdFromClientId (client_consts c) (sender (tp_txn p)))
              (getClusterIdFromClientId (client_consts c) (receiver (tp_txn p))))"
    if one: "successes p + failures p = 1"
  proof -
    have "successes p = 0 \<and> failures p = 1 \<or> successes p = 1 \<and> failures p = 0"
      using one assms(4,5) by linarith
    then consider "successes p = 0" "failures p = 1" | "successes p = 1" "failures p = 0" by blast
    then show ?thesis
      by cases (use assms(2) ty in \<open>auto simp: consume_one_def processing_at_def yes_def Let_def
        decision_msgs [OF ok'] small\<close>)
  qed
qed

lemma consume_client_ok: "client_ok c \<Longrightarrow> client_ok (fst (consume_one call now c))"
  by (simp add: client_ok_def consume_one_frame)

section \<open>Runs of the reply loop\<close>

lemma consumeReplies_Cons:
  assumes "delivered e"
  shows "consumeReplies (e # es) c =
     (fst (consumeReplies es (fst (consume_one (fst e) (snd (snd e)) c))),
      snd (consume_one (fst e) (snd (snd e)) c)
        @ fst (snd (consumeReplies es (fst (consume_one (fst e) (snd (snd e)) c)))),
      snd (snd (consumeReplies es (fst (consume_one (fst e) (snd (snd e)) c)))))"
  using assms by (cases e) (auto simp: delivered_def Let_def split: prod.split)

lemma consume_others:
  assumes "filter (vote_on t) es = []"
  shows "processing (fst (consumeReplies es c)) t = processing c t
    \<and> filter (decision_on t) (fst (snd (consumeReplies es c))) = []
    \<and> client_consts (fst (consumeReplies es c)) = client_consts c
    \<and> (client_ok c \<longrightarrow> client_ok (fst (consumeReplies es c)))"
  using assms
proof (induction es arbitrary: c)
  case (Cons e es)
  obtain call ok now where e: "e = (call, ok, now)" by (metis prod.collapse)
  have no: "\<not> vote_on t (call, ok, now)" "filter (vote_on t) es = []"
    using Cons.prems e by (simp_all split: if_splits)
  show ?case
  proof (cases ok)
    case True
    then have "delivered (call, ok, now)" by (simp add: delivered_def)
    then show ?thesis
      using Cons.IH [OF no(2), of "fst (consume_one call now c)"] consume_one_other [OF no(1), of c]
        consume_one_frame [of call now c] consume_client_ok [of c call now]
      by (simp add: e consumeReplies_Cons del: consumeReplies.simps)
  qed (simp add: e)
qed simp

lemma consumeReplies_append:
  "list_all delivered es \<Longrightarrow> consumeReplies (es @ fs) c =
     (fst (consumeReplies fs (fst (consumeReplies es c))),
      fst (snd (consumeReplies es c)) @ fst (snd (consumeReplies fs (fst (consumeReplies es c)))),
      snd (snd (consumeReplies fs (fst (consumeReplies es c)))))"
  by (induction es arbitrary: c) (simp_all add: consumeReplies_Cons)

lemma split_filter:
  assumes "filter P es = a # as"
  obtains us vs where "es = us @ a # vs" and "filter P us = []" and "P a" and "filter P vs = as"
  using assms by (auto simp: filter_eq_Cons_iff filter_empty_conv)

lemma consume_first_vote:
  assumes "client_ok c" and "processing c t = Some \<lparr>tp_txn = x, successes = 0, failures = 0\<rparr>"
    and "list_all delivered (us @ [a])" and "filter (vote_on t) us = []" and "vote_on t a"
  shows "processing (fst (consumeReplies (us @ [a]) c)) t =
      Some (counted (yes a) \<lparr>tp_txn = x, successes = 0, failures = 0\<rparr>)
    \<and> filter (decision_on t) (fst (snd (consumeReplies (us @ [a]) c))) = []
    \<and> client_ok (fst (consumeReplies (us @ [a]) c))
    \<and> client_consts (fst (consumeReplies (us @ [a]) c)) = client_consts c"
proof -
  obtain call ok now where a: "a = (call, ok, now)" by (metis prod.collapse)
  let ?d = "fst (consumeReplies us c)"
  have us: "list_all delivered us" "delivered a" using assms(3) by simp_all
  note o = consume_others [OF assms(4), of c]
  then have "client_ok ?d" "processing ?d t = Some \<lparr>tp_txn = x, successes = 0, failures = 0\<rparr>"
    using assms(1,2) by simp_all
  note v = consume_one_vote(1) [OF assms(5) [unfolded a] this(2,1)]
  show ?thesis
    using v o assms(1) consume_client_ok [OF \<open>client_ok ?d\<close>, of call now] consume_one_frame [of call now ?d]
    by (simp add: consumeReplies_append [OF us(1)] consumeReplies_Cons [OF us(2) [unfolded a]] a
      del: consumeReplies.simps(2))
qed

lemma consume_two_votes:
  assumes "client_ok c" and "processing c t = Some \<lparr>tp_txn = x, successes = 0, failures = 0\<rparr>"
    and "list_all delivered es" and "filter (vote_on t) es = [a, b]"
  shows "filter (decision_on t) (fst (snd (consumeReplies es c))) =
      map (\<lambda>n. if yes a \<and> yes b then SendTpcCommit n t else SendTpcAbort n t)
        (servers_of (client_consts c) (getClusterIdFromClientId (client_consts c) (sender x))
          (getClusterIdFromClientId (client_consts c) (receiver x)))
    \<and> processing (fst (consumeReplies es c)) t = None"
proof -
  obtain us vs where us: "es = us @ a # vs" "filter (vote_on t) us = []" "vote_on t a" "filter (vote_on t) vs = [b]"
    using assms(4) by (rule split_filter)
  obtain ms ws where ms: "vs = ms @ b # ws" "filter (vote_on t) ms = []" "vote_on t b" "filter (vote_on t) ws = []"
    using us(4) by (rule split_filter)
  obtain call ok now where b: "b = (call, ok, now)" by (metis prod.collapse)
  let ?p = "counted (yes a) \<lparr>tp_txn = x, successes = 0, failures = 0\<rparr>"
  let ?d = "fst (consumeReplies (us @ [a]) c)" let ?e = "fst (consumeReplies ms ?d)"
  let ?f = "fst (consume_one call now ?e)"
  have del: "list_all delivered (us @ [a])" "list_all delivered ms" "delivered b"
    using assms(3) us(1) ms(1) by simp_all
  note d = consume_first_vote [OF assms(1,2) del(1) us(2,3)]
  note e = consume_others [OF ms(2), of ?d]
  have "vote_on t (call, ok, now)" "processing ?e t = Some ?p" "client_ok ?e"
    using ms(3) b d e by simp_all
  note v = consume_one_vote(2) [OF this]
  note f = consume_others [OF ms(4), of ?f]
  have "es = (us @ [a]) @ ms @ b # ws" using us(1) ms(1) by simp
  then have run: "consumeReplies es c = (fst (consumeReplies ws ?f),
      fst (snd (consumeReplies (us @ [a]) c)) @ fst (snd (consumeReplies ms ?d))
        @ snd (consume_one call now ?e) @ fst (snd (consumeReplies ws ?f)),
      snd (snd (consumeReplies ws ?f)))"
    by (simp only: consumeReplies_append [OF del(1)] consumeReplies_append [OF del(2)]
      consumeReplies_Cons [OF del(3)]) (simp add: b)
  have all: "filter (decision_on t) (map (\<lambda>n. if Q then SendTpcCommit n t else SendTpcAbort n t) ns) =
      map (\<lambda>n. if Q then SendTpcCommit n t else SendTpcAbort n t) ns" for Q ns
    by (auto simp: filter_id_conv decision_on_def)
  have "tp_txn ?p = x" "successes ?p = 1 \<longleftrightarrow> yes a" "successes ?p + failures ?p = 1"
    "0 \<le> successes ?p" "0 \<le> failures ?p" by (simp_all add: counted_def)
  then show ?thesis using v d e f b by (simp add: run all)
qed

text \<open>
  C16. The coordinator decides once and correctly: after both votes on a cross-shard
  transaction have arrived, whatever replies about other transactions came in between, it has
  sent a commit to every server of the two clusters if both votes are positive, and an abort
  to each of them otherwise; nothing else was sent about the transaction, and it is forgotten.
\<close>

theorem coordinator_decides:
  assumes "client_ok c" and "processing c t = Some \<lparr>tp_txn = x, successes = 0, failures = 0\<rparr>"
    and "list_all delivered es" and "filter (vote_on t) es = [a, b]"
  shows "filter (decision_on t) (fst (snd (consumeReplies es c))) =
      map (\<lambda>n. if yes a \<and> yes b then SendTpcCommit n t else SendTpcAbort n t)
        (servers_of (client_consts c) (getClusterIdFromClientId (client_consts c) (sender x))
          (getClusterIdFromClientId (client_consts c) (receiver x)))
    \<and> processing (fst (consumeReplies es c)) t = None"
  by (rule consume_two_votes [OF assms])

text \<open>
  C40. A vote that does not arrive blocks its transaction for ever: while fewer than two
  replies carry its identifier no decision is sent and the transaction stays in the table. A
  failed call comes back with an empty reply, whose identifier is \<open>0\<close>, and is counted there.
\<close>

theorem lost_vote_blocks:
  assumes "client_ok c" and "processing c t = Some \<lparr>tp_txn = x, successes = 0, failures = 0\<rparr>"
    and "list_all delivered es" and "length (filter (vote_on t) es) < 2"
  shows "filter (decision_on t) (fst (snd (consumeReplies es c))) = []
    \<and> processing (fst (consumeReplies es c)) t \<noteq> None"
proof (cases "filter (vote_on t) es")
  case Nil
  then show ?thesis using consume_others [of t es c] assms(2) by simp
next
  case (Cons a as)
  then have "filter (vote_on t) es = [a]" using assms(4) by simp
  then obtain us vs where us: "es = us @ a # vs" "filter (vote_on t) us = []" "vote_on t a" "filter (vote_on t) vs = []"
    by (rule split_filter)
  have del: "list_all delivered (us @ [a])" using assms(3) us(1) by simp
  have "es = (us @ [a]) @ vs" using us(1) by simp
  then show ?thesis
    using consume_first_vote [OF assms(1,2) del us(2,3)] consume_others [OF us(4), of "fst (consumeReplies (us @ [a]) c)"]
    by (simp only: consumeReplies_append [OF del]) simp
qed

section \<open>Sending transactions\<close>

definition leaders_ok :: "Client \<Rightarrow> string list \<Rightarrow> Transaction \<Rightarrow> bool" where
  "leaders_ok c lds x \<longleftrightarrow>
     (\<forall>i \<in> {sender x, receiver x}. 1 \<le> getClusterIdFromClientId (client_consts c) i
        \<and> getClusterIdFromClientId (client_consts c) i \<le> int (length lds))
     \<and> set lds \<subseteq> set (client_stubs c)"

definition leader_of :: "Client \<Rightarrow> string list \<Rightarrow> int \<Rightarrow> string" where
  "leader_of c lds i = lds ! nat (getClusterIdFromClientId (client_consts c) i - 1)"

definition cross_shard :: "constants \<Rightarrow> Transaction \<Rightarrow> bool" where
  "cross_shard cs x \<longleftrightarrow> getClusterIdFromClientId cs (sender x) \<noteq> getClusterIdFromClientId cs (receiver x)"

definition messages_for :: "Client \<Rightarrow> string list \<Rightarrow> Transaction \<times> int \<Rightarrow> ClientMsg list" where
  "messages_for c lds tn =
     (let r = \<lparr>req_txn = fst tn, req_tid = snd tn\<rparr>
      in if cross_shard (client_consts c) (fst tn)
         then [SendTpcPrepare (leader_of c lds (sender (fst tn))) r,
               SendTpcPrepare (leader_of c lds (receiver (fst tn))) r]
         else [SendTransfer (leader_of c lds (sender (fst tn))) r])"

text \<open>The cross-shard transaction under an identifier, the last one if there are several.\<close>

fun registered :: "constants \<Rightarrow> (Transaction \<times> int) list \<Rightarrow> int \<Rightarrow> Transaction option" where
  "registered cs [] t = None"
| "registered cs (tn # ts) t =
     (case registered cs ts t of
        Some x \<Rightarrow> Some x
      | None \<Rightarrow> if cross_shard cs (fst tn) \<and> snd tn = t then Some (fst tn) else None)"

lemma leader_in_stubs:
  assumes "leaders_ok c lds x" and "i \<in> {sender x, receiver x}"
  shows "leader_of c lds i \<in> set (client_stubs c)"
    and "\<not> \<not> (0 \<le> getClusterIdFromClientId (client_consts c) i - 1
       \<and> getClusterIdFromClientId (client_consts c) i - 1 < int (length lds))"
proof -
  have "1 \<le> getClusterIdFromClientId (client_consts c) i"
    "getClusterIdFromClientId (client_consts c) i \<le> int (length lds)" "set lds \<subseteq> set (client_stubs c)"
    using assms by (auto simp: leaders_ok_def)
  then show "leader_of c lds i \<in> set (client_stubs c)"
    "\<not> \<not> (0 \<le> getClusterIdFromClientId (client_consts c) i - 1
       \<and> getClusterIdFromClientId (client_consts c) i - 1 < int (length lds))"
    using nth_mem [of "nat (getClusterIdFromClientId (client_consts c) i - 1)" lds]
    by (auto simp: leader_of_def)
qed

lemma processTransactions_eq:
  assumes "list_all (\<lambda>tn. leaders_ok c lds (fst tn)) ts"
  shows "\<exists>d. processTransactions ts lds c = Inr (d, concat (map (messages_for c lds) ts))
    \<and> (\<forall>t. processing d t =
        (case registered (client_consts c) ts t of
           None \<Rightarrow> processing c t | Some x \<Rightarrow> Some \<lparr>tp_txn = x, successes = 0, failures = 0\<rparr>))"
  using assms
proof (induction ts arbitrary: c)
  case (Cons tn ts)
  obtain x now where tn: "tn = (x, now)" by (cases tn)
  define d where "d = (if cross_shard (client_consts c) x
    then c\<lparr>processing := (processing c)(now \<mapsto> \<lparr>tp_txn = x, successes = 0, failures = 0\<rparr>)\<rparr> else c)"
  have ok: "leaders_ok c lds x" using Cons.prems tn by simp
  have same: "client_consts d = client_consts c" "client_stubs d = client_stubs c" by (simp_all add: d_def)
  have msgs: "messages_for d lds = messages_for c lds" "leaders_ok d lds = leaders_ok c lds"
    by (simp_all add: messages_for_def leaders_ok_def leader_of_def same fun_eq_iff Let_def)
  have rec: "\<exists>e. processTransactions ts lds d = Inr (e, concat (map (messages_for d lds) ts))
      \<and> (\<forall>t. processing e t =
        (case registered (client_consts d) ts t of
           None \<Rightarrow> processing d t | Some x \<Rightarrow> Some \<lparr>tp_txn = x, successes = 0, failures = 0\<rparr>))"
    using Cons.IH [of d] Cons.prems by (simp add: msgs)
  have step: "processTransactions (tn # ts) lds c =
      (case processTransactions ts lds d of Inl e \<Rightarrow> Inl e | Inr (e, ms) \<Rightarrow> Inr (e, messages_for c lds tn @ ms))"
    using leader_in_stubs [OF ok, of "sender x"] leader_in_stubs [OF ok, of "receiver x"]
    by (auto simp: tn d_def cross_shard_def messages_for_def leader_of_def sendTransfer_def tpcPrepare_def
      via_def Let_def split: sum.split)
  from rec obtain e where e: "processTransactions ts lds d = Inr (e, concat (map (messages_for d lds) ts))"
    "processing e t = (case registered (client_consts d) ts t of
       None \<Rightarrow> processing d t | Some x \<Rightarrow> Some \<lparr>tp_txn = x, successes = 0, failures = 0\<rparr>)" for t
    by blast
  have "processing e t = (case registered (client_consts c) (tn # ts) t of
       None \<Rightarrow> processing c t | Some x \<Rightarrow> Some \<lparr>tp_txn = x, successes = 0, failures = 0\<rparr>)" for t
    by (simp add: e(2) same tn split: option.split) (simp add: d_def)
  then show ?case using e(1) by (simp add: step msgs del: registered.simps)
qed simp

text \<open>
  The client routes every transaction of a set: an intra-shard transfer goes to the
  leader of its cluster as one request, a cross-shard one to the leaders of both clusters as
  two prepare requests under one identifier, in the order of the set; exactly the cross-shard
  ones are entered in the table, with no votes yet.
\<close>

theorem transactions_routed:
  assumes "list_all (\<lambda>tn. leaders_ok c lds (fst tn)) ts"
  shows "\<exists>d. processTransactions ts lds c = Inr (d, concat (map (messages_for c lds) ts))
    \<and> (\<forall>t. processing d t =
        (case registered (client_consts c) ts t of
           None \<Rightarrow> processing c t | Some x \<Rightarrow> Some \<lparr>tp_txn = x, successes = 0, failures = 0\<rparr>))"
  by (rule processTransactions_eq [OF assms])

section \<open>A concrete client\<close>

definition demo_client :: Client where
  "demo_client = (Client_new (fresh_setup 3 3))
     \<lparr>processing := [42 \<mapsto> \<lparr>tp_txn = \<lparr>sender = 1, receiver = 1500, amount = 10\<rparr>, successes = 0, failures = 0\<rparr>]\<rparr>"

definition vote :: "TpcTid \<Rightarrow> bool \<Rightarrow> ClientCall \<times> bool \<times> int" where
  "vote t ack = (\<lparr>cc_status = StatusOK, cc_type = TPC_PREPARE, cc_reply = \<lparr>res_ack = ack, res_tid = t\<rparr>\<rparr>, True, 0)"

definition lost :: "ClientCall \<times> bool \<times> int" where
  "lost = (\<lparr>cc_status = DEADLINE_EXCEEDED, cc_type = TPC_PREPARE, cc_reply = no_TransferRes\<rparr>, True, 0)"

lemma demo_client_ok:
  "client_ok demo_client" "client_consts demo_client = fresh_setup 3 3"
  "processing demo_client 42 =
     Some \<lparr>tp_txn = \<lparr>sender = 1, receiver = 1500, amount = 10\<rparr>, successes = 0, failures = 0\<rparr>"
  by (simp_all add: demo_client_def Client_new_def client_ok_def)

lemma demo_votes [simp]:
  "delivered (vote t ack)" "vote_on t' (vote t ack) \<longleftrightarrow> t = t'" "yes (vote t ack) = ack"
  "delivered lost" "vote_on t lost \<longleftrightarrow> t = 0"
  by (auto simp: delivered_def vote_def vote_on_def yes_def lost_def no_TransferRes_def)

theorem coordinator_decides_witness:
  "filter (decision_on 42) (fst (snd (consumeReplies [vote 42 True, vote 43 True, vote 42 False] demo_client))) =
     map (\<lambda>n. SendTpcAbort n 42) (servers_of (fresh_setup 3 3) 1 2)"
proof -
  have "getClusterIdFromClientId (fresh_setup 3 3) 1 = 1" "getClusterIdFromClientId (fresh_setup 3 3) 1500 = 2"
    by (simp_all add: client_cluster_iff int32_def)
  then show ?thesis
    using coordinator_decides [OF demo_client_ok(1,3), of "[vote 42 True, vote 43 True, vote 42 False]"
      "vote 42 True" "vote 42 False"] by (simp add: demo_client_ok del: consumeReplies.simps)
qed

theorem lost_vote_blocks_witness:
  "filter (decision_on 42) (fst (snd (consumeReplies [vote 42 True, lost] demo_client))) = []
   \<and> processing (fst (consumeReplies [vote 42 True, lost] demo_client)) 42 \<noteq> None"
  using lost_vote_blocks [OF demo_client_ok(1,3), of "[vote 42 True, lost]"]
  by (simp del: consumeReplies.simps)

lemma demo_client_clusters:
  "getClusterIdFromClientId (fresh_setup 3 3) 1 = 1" "getClusterIdFromClientId (fresh_setup 3 3) 2 = 1"
  "getClusterIdFromClientId (fresh_setup 3 3) 3 = 1" "getClusterIdFromClientId (fresh_setup 3 3) 1500 = 2"
  by (simp_all add: client_cluster_iff int32_def)

lemma demo_client_leaders: "{''S1'', ''S4'', ''S7''} \<subseteq> set (client_stubs demo_client)"
proof -
  have "server_name_of 1 = ''S1''" "server_name_of 4 = ''S4''" "server_name_of 7 = ''S7''" by code_simp+
  moreover have "server_name_of i \<in> set (client_stubs demo_client)" if "1 \<le> i" "i \<le> 9" for i
    using that by (simp add: demo_client_def Client_new_def fresh_setup_ids(3) image_image)
  from this [of 1] this [of 4] this [of 7]
  have "{server_name_of 1, server_name_of 4, server_name_of 7} \<subseteq> set (client_stubs demo_client)" by simp
  ultimately show ?thesis by simp
qed

theorem transactions_routed_witness:
  "\<exists>d. processTransactions [(\<lparr>sender = 1, receiver = 1500, amount = 10\<rparr>, 50), (\<lparr>sender = 2, receiver = 3, amount = 1\<rparr>, 51)]
        [''S1'', ''S4'', ''S7''] demo_client =
     Inr (d, [SendTpcPrepare ''S1'' \<lparr>req_txn = \<lparr>sender = 1, receiver = 1500, amount = 10\<rparr>, req_tid = 50\<rparr>,
              SendTpcPrepare ''S4'' \<lparr>req_txn = \<lparr>sender = 1, receiver = 1500, amount = 10\<rparr>, req_tid = 50\<rparr>,
              SendTransfer ''S1'' \<lparr>req_txn = \<lparr>sender = 2, receiver = 3, amount = 1\<rparr>, req_tid = 51\<rparr>])"
  using demo_client_leaders transactions_routed [of demo_client "[''S1'', ''S4'', ''S7'']"
    "[(\<lparr>sender = 1, receiver = 1500, amount = 10\<rparr>, 50), (\<lparr>sender = 2, receiver = 3, amount = 1\<rparr>, 51)]"]
  by (auto simp: leaders_ok_def demo_client_ok demo_client_clusters messages_for_def cross_shard_def
    leader_of_def Let_def simp del: processTransactions.simps)

end
