(* ===== verification/Tpc_Network.thy ===== *)
theory Tpc_Network
  imports Tpc_Quorum Tpc_Client_Props
begin

text \<open>
  The whole system: the servers of a deployment, the client and the remote calls between them.
  The behaviour of the parts is that of their own definitions; this theory adds which call
  leads to which handler and where the answer goes. Calls are delivered in any order, are
  delayed, lost, or end with an error status; nothing is delivered that was not sent.
\<close>

section \<open>State\<close>

text \<open>
  A call between servers names its origin. \<open>Serving\<close> is a transfer or prepare call at a server
  until it is answered: \<open>runPaxos\<close> is attempted again and again on it. Its flag says that it is
  a prepare call of two-phase commit.
\<close>

datatype Packet =
  Peer int OutMsg
| PrepareAnswer int PrepareReq PrepareRes
| AcceptAnswer int AcceptReq AcceptRes
| SyncAnswer int SyncRes
| Serving bool int TransferReq TransferRes
| TransferAnswer bool int TransferRes
| Decision bool int TpcTid
| Disconnection int DisconnectReq

text \<open>\<open>sent\<close> is the history of the messages of the client.\<close>

record System =
  node :: "int \<Rightarrow> ServerImpl"
  coord :: Client
  net :: "Packet list"
  sent :: "ClientMsg list"

text \<open>The channel behind the client's stub of a name.\<close>

definition to_server :: "constants \<Rightarrow> string \<Rightarrow> (int \<Rightarrow> Packet) \<Rightarrow> Packet list" where
  "to_server cs name p = (case map_of (server_ids cs) name of None \<Rightarrow> [] | Some i \<Rightarrow> [p i])"

fun packets_of :: "constants \<Rightarrow> ClientMsg \<Rightarrow> Packet list" where
  "packets_of cs (SendTransfer n r) = to_server cs n (\<lambda>i. Serving False i r no_TransferRes)"
| "packets_of cs (SendTpcPrepare n r) = to_server cs n (\<lambda>i. Serving True i r no_TransferRes)"
| "packets_of cs (SendTpcCommit n t) = to_server cs n (\<lambda>i. Decision True i t)"
| "packets_of cs (SendTpcAbort n t) = to_server cs n (\<lambda>i. Decision False i t)"
| "packets_of cs (SendDisconnect n names) = to_server cs n (\<lambda>i. Disconnection i names)"
| "packets_of cs (NullClientStub n) = []"

definition client_sends :: "ClientMsg list \<Rightarrow> System \<Rightarrow> System" where
  "client_sends ms g =
     g\<lparr>net := net g @ concat (map (packets_of (client_consts (coord g))) ms), sent := sent g @ ms\<rparr>"

definition node_does :: "int \<Rightarrow> ServerImpl \<Rightarrow> Packet list \<Rightarrow> System \<Rightarrow> System" where
  "node_does i s ps g = g\<lparr>node := (node g)(i := s), net := net g @ ps\<rparr>"

section \<open>Delivery\<close>

definition run_call ::
  "bool \<Rightarrow> TransferReq \<Rightarrow> TransferRes \<Rightarrow> ServerImpl \<Rightarrow> bool \<times> ServerImpl \<times> TransferRes \<times> OutMsg list" where
  "run_call x r res s = (if x then processTpcPrepare r res s else processTransferCall r res s)"

definition client_reply :: "Status \<Rightarrow> bool \<Rightarrow> TransferRes \<Rightarrow> int \<Rightarrow> System \<Rightarrow> System" where
  "client_reply st x res now g =
     (let (c, ms) = consume_one \<lparr>cc_status = st, cc_type = (if x then TPC_PREPARE else TRANSFER),
                                 cc_reply = res\<rparr> now (coord g)
      in client_sends ms (g\<lparr>coord := c\<rparr>))"

fun deliver :: "WALEntry \<Rightarrow> int \<Rightarrow> Packet \<Rightarrow> System \<Rightarrow> System" where
  "deliver u now (Peer j (SendPrepare i q)) g =
     (let (s, res, msgs) = processPrepareCall q no_PrepareRes (node g i)
      in node_does i s (PrepareAnswer j q res # map (Peer i) msgs) g)"
| "deliver u now (Peer j (SendAccept i q)) g =
     (let (s, res) = processAcceptCall q no_AcceptRes (node g i)
      in node_does i s [AcceptAnswer j q res] g)"
| "deliver u now (Peer j (SendCommit i q)) g = node_does i (processCommitCall q (node g i)) [] g"
| "deliver u now (Peer j (SendSync i k)) g =
     node_does i (node g i) [SyncAnswer j (processSyncCall k no_SyncRes (node g i))] g"
| "deliver u now (Peer j (NullStub i)) g = g"
| "deliver u now (PrepareAnswer j q res) g =
     (let (s, msgs) = handlePrepareReply StatusOK q res (node g j)
      in node_does j s (map (Peer j) msgs) g)"
| "deliver u now (AcceptAnswer j q res) g =
     node_does j (handleAcceptReply StatusOK q res (node g j)) [] g"
| "deliver u now (SyncAnswer j res) g = node_does j (handleSyncReply StatusOK res (node g j)) [] g"
| "deliver u now (Serving x i r res) g =
     (let (fin, s, res, msgs) = run_call x r res (node g i)
      in node_does i s ((if fin then TransferAnswer x i res else Serving x i r res) # map (Peer i) msgs) g)"
| "deliver u now (TransferAnswer x i res) g = client_reply StatusOK x res now g"
| "deliver u now (Decision b i t) g = node_does i (processTpcDecision u t b (node g i)) [] g"
| "deliver u now (Disconnection i names) g = node_does i (processDisconnectCall names (node g i)) [] g"

section \<open>Steps\<close>

text \<open>
  What the client is asked to do: the fields of the transaction are \<open>int\<close>s, the leader named
  for a cluster belongs to it, and the clock reading that becomes the identifier is positive
  and has not been used before.
\<close>

definition leaders_fit :: "Client \<Rightarrow> string list \<Rightarrow> Transaction \<Rightarrow> bool" where
  "leaders_fit c lds x \<longleftrightarrow> leaders_ok c lds x
     \<and> (\<forall>k \<in> {sender x, receiver x}. \<exists>i. map_of (server_ids (client_consts c)) (leader_of c lds k) = Some i
          \<and> getClusterIdFromServerId (client_consts c) i = getClusterIdFromClientId (client_consts c) k)"

fun requests_in :: "ClientMsg \<Rightarrow> TransferReq set" where
  "requests_in (SendTransfer n r) = {r}"
| "requests_in (SendTpcPrepare n r) = {r}"
| "requests_in _ = {}"

definition asked :: "System \<Rightarrow> TransferReq set" where
  "asked g = \<Union> (requests_in ` set (sent g))"

definition submission_ok :: "System \<Rightarrow> string list \<Rightarrow> Transaction \<Rightarrow> int \<Rightarrow> bool" where
  "submission_ok g lds x now \<longleftrightarrow> txn_ok x \<and> leaders_fit (coord g) lds x
     \<and> 0 < now \<and> int64 now \<and> (\<forall>r \<in> asked g. req_tid r \<noteq> now)"

inductive sys_step :: "System \<Rightarrow> System \<Rightarrow> bool" where
  submit: "submission_ok g lds x now \<Longrightarrow> processTransactions [(x, now)] lds (coord g) = Inr (c, ms) \<Longrightarrow>
    sys_step g (client_sends ms (g\<lparr>coord := c\<rparr>))"
| disconnect: "sys_step g (client_sends (updateDisconnected names (coord g)) g)"
| deliver: "p \<in> set (net g) \<Longrightarrow> sys_step g (deliver u now p (g\<lparr>net := remove1 p (net g)\<rparr>))"
| lose: "p \<in> set (net g) \<Longrightarrow> sys_step g (g\<lparr>net := remove1 p (net g)\<rparr>)"
| prepare_failed: "st \<noteq> StatusOK \<Longrightarrow>
    sys_step g (node_does i (fst (handlePrepareReply st q no_PrepareRes (node g i))) [] g)"
| accept_failed: "st \<noteq> StatusOK \<Longrightarrow>
    sys_step g (node_does i (handleAcceptReply st q no_AcceptRes (node g i)) [] g)"
| sync_failed: "st \<noteq> StatusOK \<Longrightarrow>
    sys_step g (node_does i (handleSyncReply st no_SyncRes (node g i)) [] g)"
| call_failed: "st \<noteq> StatusOK \<Longrightarrow> sys_step g (client_reply st x no_TransferRes now g)"
| query: "sys_step g (node_does i (fst (processGetBalanceCall c (node g i))) [] g)"

inductive sys_run :: "System \<Rightarrow> System \<Rightarrow> bool" where
  sys_stay: "sys_run g g"
| sys_more: "sys_run g h \<Longrightarrow> sys_step h k \<Longrightarrow> sys_run g k"

text \<open>
  The smooth part of the behaviour: one submission, and deliveries in which nothing is lost,
  no call fails, and nobody is disconnected.
\<close>

definition submitted :: "string list \<Rightarrow> Transaction \<Rightarrow> int \<Rightarrow> System \<Rightarrow> System option" where
  "submitted lds x now g =
     (if submission_ok g lds x now
      then case processTransactions [(x, now)] lds (coord g) of
          Inl e \<Rightarrow> None | Inr (c, ms) \<Rightarrow> Some (client_sends ms (g\<lparr>coord := c\<rparr>))
      else None)"

inductive deliveries :: "System \<Rightarrow> System \<Rightarrow> bool" where
  none_delivered: "deliveries g g"
| one_delivered: "deliveries g h \<Longrightarrow> p \<in> set (net h) \<Longrightarrow>
    deliveries g (deliver u now p (h\<lparr>net := remove1 p (net h)\<rparr>))"

lemma deliveries_trans: "deliveries g h \<Longrightarrow> deliveries f g \<Longrightarrow> deliveries f h"
  by (induction rule: deliveries.induct) (auto intro: deliveries.intros)

lemma sys_run_trans: "sys_run g h \<Longrightarrow> sys_run f g \<Longrightarrow> sys_run f h"
  by (induction rule: sys_run.induct) (auto intro: sys_more)

lemma deliveries_run: "deliveries g h \<Longrightarrow> sys_run g h"
  by (induction rule: deliveries.induct) (auto intro: sys_stay sys_more sys_step.deliver)

lemma submitted_step: "submitted lds x now g = Some h \<Longrightarrow> sys_step g h"
  by (auto simp: submitted_def intro: sys_step.submit split: if_splits sum.splits)

lemma submitted_run: "submitted lds x now g = Some h \<Longrightarrow> sys_run g h"
  using submitted_step sys_more sys_stay by blast

text \<open>
  The start: every server as its process enters the event loop, with its own file and its own
  uninitialised counters.
\<close>

definition sys_start :: "int \<Rightarrow> int \<Rightarrow> (int \<Rightarrow> disk_file) \<Rightarrow> (int \<Rightarrow> Boot) \<Rightarrow> System" where
  "sys_start nc sz f v =
     \<lparr>node = (\<lambda>i. started (fresh_setup nc sz) i (server_name_of i) (f i) (v i)),
      coord = Client_new (fresh_setup nc sz), net = [], sent = []\<rparr>"

definition files_ok :: "(int \<Rightarrow> disk_file) \<Rightarrow> bool" where
  "files_ok f \<longleftrightarrow> (\<forall>i. readable (f i) \<and> writable (f i))"

end
