(* ===== verification/Tpc_Network_Inv.thy ===== *)
theory Tpc_Network_Inv
  imports Tpc_Network Tpc_Server_Effects Tpc_Cluster "HOL-Library.Multiset"
begin

text \<open>
  The invariant of the whole system. Its three parts speak about the servers, the calls in the
  network and the votes that the client has counted.
\<close>

section \<open>Vocabulary\<close>

definition members :: "int \<Rightarrow> int \<Rightarrow> int set" where
  "members nc sz = {1..nc * sz}"

abbreviation cluster_of :: "int \<Rightarrow> int \<Rightarrow> int \<Rightarrow> int" where
  "cluster_of nc sz i \<equiv> getClusterIdFromServerId (fresh_setup nc sz) i"

abbreviation shard_of :: "int \<Rightarrow> int \<Rightarrow> int \<Rightarrow> int" where
  "shard_of nc sz c \<equiv> getClusterIdFromClientId (fresh_setup nc sz) c"

definition peers :: "int \<Rightarrow> int \<Rightarrow> int \<Rightarrow> int \<Rightarrow> bool" where
  "peers nc sz i j \<longleftrightarrow> i \<in> members nc sz \<and> j \<in> members nc sz \<and> i \<noteq> j
     \<and> cluster_of nc sz i = cluster_of nc sz j"

definition committed :: "System \<Rightarrow> TpcTid \<Rightarrow> bool" where
  "committed g t \<longleftrightarrow> (\<exists>n. SendTpcCommit n t \<in> set (sent g))"

definition aborted :: "System \<Rightarrow> TpcTid \<Rightarrow> bool" where
  "aborted g t \<longleftrightarrow> (\<exists>n. SendTpcAbort n t \<in> set (sent g))"

definition prepared :: "ServerImpl \<Rightarrow> TpcTid \<Rightarrow> bool" where
  "prepared s t \<longleftrightarrow> (\<exists>e \<in> set (log s). e_tid e = t \<and> e_type e = CROSS \<and> e_status e = PREPARED)"

definition applied :: "ServerImpl \<Rightarrow> TpcTid \<Rightarrow> bool" where
  "applied s t \<longleftrightarrow> (\<exists>e \<in> set (log s). e_tid e = t \<and> e_type e = INTRA \<and> e_status e = COMMITTED)"

text \<open>An entry that the history of the client accounts for.\<close>

definition entry_good :: "int \<Rightarrow> int \<Rightarrow> System \<Rightarrow> WALEntry \<Rightarrow> bool" where
  "entry_good nc sz g e \<longleftrightarrow> entry_ok e \<and> e_tid e \<noteq> - 1
     \<and> (\<exists>r \<in> asked g. req_tid r = e_tid e \<and> req_txn r = e_txn e)
     \<and> (if cross_shard (fresh_setup nc sz) (e_txn e)
        then e_type e = CROSS \<and> (e_status e = PREPARED \<or> e_status e = COMMITTED \<and> committed g (e_tid e)
               \<or> e_status e = ABORTED \<and> aborted g (e_tid e))
        else e_type e = INTRA \<and> e_status e = COMMITTED)"

section \<open>Servers\<close>

definition node_static :: "int \<Rightarrow> int \<Rightarrow> int \<Rightarrow> ServerImpl \<Rightarrow> bool" where
  "node_static nc sz i s \<longleftrightarrow> server_id s = i \<and> set (stubs s) = {j. peers nc sz i j}
     \<and> num_clusters (consts_of s) = nc \<and> cluster_id s = cluster_of nc sz i"

definition node_good :: "int \<Rightarrow> int \<Rightarrow> System \<Rightarrow> ServerImpl \<Rightarrow> bool" where
  "node_good nc sz g s \<longleftrightarrow> (\<forall>e \<in> set (log s). entry_good nc sz g e)
     \<and> (\<forall>t e. pending (wal s) t = Some e \<longrightarrow> entry_good nc sz g e \<and> e_status e = PREPARED)
     \<and> (accept_val s \<in> asked g \<or> accept_val s = no_TransferReq)
     \<and> (await_accept_decision s \<longrightarrow> (\<exists>r \<in> asked g. req_tid r = paxos_tid s
          \<and> (cross_shard (fresh_setup nc sz) (req_txn r) \<longrightarrow> prepared s (paxos_tid s))))"

abbreviation start_balance :: "int \<Rightarrow> int \<Rightarrow> int \<Rightarrow> int \<Rightarrow> int" where
  "start_balance nc sz i \<equiv> initial_balance (fresh_setup nc sz) (cluster_of nc sz i)"

definition node_inv :: "int \<Rightarrow> int \<Rightarrow> System \<Rightarrow> int \<Rightarrow> ServerImpl \<Rightarrow> bool" where
  "node_inv nc sz g i s \<longleftrightarrow> node_static nc sz i s \<and> server_ok (start_balance nc sz i) s
     \<and> node_good nc sz g s"

section \<open>Calls\<close>

fun peer_ok :: "int \<Rightarrow> int \<Rightarrow> System \<Rightarrow> int \<Rightarrow> OutMsg \<Rightarrow> bool" where
  "peer_ok nc sz g j (SendPrepare i q) \<longleftrightarrow>
     peers nc sz j i \<and> bal_ok (pq_ballot q) \<and> bal_server_id (pq_ballot q) = j"
| "peer_ok nc sz g j (SendAccept i q) \<longleftrightarrow> peers nc sz j i \<and> bal_ok (aq_ballot q) \<and> aq_r q \<in> asked g"
| "peer_ok nc sz g j (SendCommit i q) \<longleftrightarrow> peers nc sz j i"
| "peer_ok nc sz g j (SendSync i k) \<longleftrightarrow> peers nc sz j i
     \<and> (int (length (log (node g j))) \<le> 2147483647 \<longrightarrow> - 1 \<le> k)"
| "peer_ok nc sz g j (NullStub i) \<longleftrightarrow> False"

fun packet_ok :: "int \<Rightarrow> int \<Rightarrow> System \<Rightarrow> Packet \<Rightarrow> bool" where
  "packet_ok nc sz g (Peer j m) \<longleftrightarrow> peer_ok nc sz g j m"
| "packet_ok nc sz g (PrepareAnswer j q res) \<longleftrightarrow> j \<in> members nc sz
     \<and> (pr_last_inserted res = None \<or> (\<exists>i. pr_server_id res = Some i \<and> peers nc sz j i))"
| "packet_ok nc sz g (AcceptAnswer j q res) \<longleftrightarrow> j \<in> members nc sz"
| "packet_ok nc sz g (SyncAnswer j res) \<longleftrightarrow> j \<in> members nc sz
     \<and> (\<forall>l \<in> set (sr_logs res). log_entry_ok l \<and> entry_good nc sz g (entry_of_LogEntry l))"
| "packet_ok nc sz g (Serving x i r res) \<longleftrightarrow> i \<in> members nc sz \<and> r \<in> asked g
     \<and> x = cross_shard (fresh_setup nc sz) (req_txn r)"
| "packet_ok nc sz g (TransferAnswer x i res) \<longleftrightarrow> i \<in> members nc sz
     \<and> (x \<longrightarrow> (\<exists>r \<in> asked g. req_tid r = res_tid res \<and> cross_shard (fresh_setup nc sz) (req_txn r))
            \<and> (res_ack res \<longrightarrow> prepared (node g i) (res_tid res)))
     \<and> (\<not> x \<and> res_ack res \<longrightarrow> applied (node g i) (res_tid res))"
| "packet_ok nc sz g (Decision b i t) \<longleftrightarrow> i \<in> members nc sz \<and> (if b then committed g t else aborted g t)"
| "packet_ok nc sz g (Disconnection i names) \<longleftrightarrow> i \<in> members nc sz"

section \<open>Votes\<close>

fun vote_of :: "TpcTid \<Rightarrow> Packet \<Rightarrow> int option" where
  "vote_of t (Serving x i r res) = (if x \<and> req_tid r = t then Some i else None)"
| "vote_of t (TransferAnswer x i res) = (if x \<and> res_tid res = t then Some i else None)"
| "vote_of t _ = None"

text \<open>The servers whose votes on a transaction are still to be counted.\<close>

definition voters :: "TpcTid \<Rightarrow> System \<Rightarrow> int multiset" where
  "voters t g = mset (List.map_filter (vote_of t) (net g))"

text \<open>
  While a transaction is in the client's table, the counted votes and the outstanding ones come
  from different servers among the two leaders, and whoever voted yes has prepared. After the
  decision no vote is outstanding, and a commit means that both leaders have prepared.
\<close>

definition tally :: "System \<Rightarrow> TpcTid \<Rightarrow> Transaction \<Rightarrow> int set \<Rightarrow> bool" where
  "tally g t x L \<longleftrightarrow>
     (case processing (coord g) t of
        Some p \<Rightarrow> tp_txn p = x \<and> \<not> committed g t \<and> \<not> aborted g t
          \<and> (\<exists>Y Z. finite Y \<and> finite Z \<and> successes p = int (card Y) \<and> failures p = int (card Z)
               \<and> (\<forall>i \<in> Y. prepared (node g i) t)
               \<and> voters t g + mset_set Y + mset_set Z \<subseteq># mset_set L)
      | None \<Rightarrow> voters t g = {#} \<and> \<not> (committed g t \<and> aborted g t)
          \<and> (committed g t \<longrightarrow> (\<forall>i \<in> L. prepared (node g i) t)))"

definition leads :: "int \<Rightarrow> int \<Rightarrow> Transaction \<Rightarrow> int \<Rightarrow> int \<Rightarrow> bool" where
  "leads nc sz x a b \<longleftrightarrow> a \<in> members nc sz \<and> b \<in> members nc sz
     \<and> cluster_of nc sz a = shard_of nc sz (sender x) \<and> cluster_of nc sz b = shard_of nc sz (receiver x)"

text \<open>
  An identifier that belongs to no cross-shard request. Failed calls are counted under the
  identifier of an empty reply.
\<close>

definition untouched :: "System \<Rightarrow> TpcTid \<Rightarrow> bool" where
  "untouched g t \<longleftrightarrow> voters t g = {#} \<and> \<not> committed g t \<and> \<not> aborted g t
     \<and> (\<forall>p. processing (coord g) t = Some p \<longrightarrow> t = 0 \<and> tp_txn p = no_txn \<and> successes p = 0)"

definition coord_inv :: "int \<Rightarrow> int \<Rightarrow> System \<Rightarrow> bool" where
  "coord_inv nc sz g \<longleftrightarrow> client_consts (coord g) = fresh_setup nc sz \<and> client_ok (coord g)
     \<and> (\<forall>r \<in> asked g. req_ok r \<and> 0 < req_tid r) \<and> inj_on req_tid (asked g)
     \<and> (\<forall>r \<in> asked g. cross_shard (fresh_setup nc sz) (req_txn r) \<longrightarrow>
          (\<exists>a b. leads nc sz (req_txn r) a b \<and> tally g (req_tid r) (req_txn r) {a, b}))
     \<and> (\<forall>t. (\<forall>r \<in> asked g. req_tid r = t \<longrightarrow> \<not> cross_shard (fresh_setup nc sz) (req_txn r)) \<longrightarrow> untouched g t)"

definition sys_inv :: "int \<Rightarrow> int \<Rightarrow> System \<Rightarrow> bool" where
  "sys_inv nc sz g \<longleftrightarrow> coord_inv nc sz g \<and> (\<forall>i \<in> members nc sz. node_inv nc sz g i (node g i))
     \<and> (\<forall>p \<in> set (net g). packet_ok nc sz g p)"

section \<open>What only grows\<close>

definition later :: "System \<Rightarrow> System \<Rightarrow> bool" where
  "later g h \<longleftrightarrow> set (sent g) \<subseteq> set (sent h) \<and> (\<forall>i. \<exists>es. log (node h i) = log (node g i) @ es)"

lemma later_facts:
  assumes "later g h"
  shows "asked g \<subseteq> asked h" and "committed g t \<Longrightarrow> committed h t" and "aborted g t \<Longrightarrow> aborted h t"
    and "prepared (node g i) t \<Longrightarrow> prepared (node h i) t"
    and "applied (node g i) t \<Longrightarrow> applied (node h i) t"
    and "length (log (node g i)) \<le> length (log (node h i))"
    and "entry_good nc sz g e \<Longrightarrow> entry_good nc sz h e"
proof -
  show ask: "asked g \<subseteq> asked h" using assms by (auto simp: later_def asked_def)
  show co: "committed g t \<Longrightarrow> committed h t" for t using assms by (auto simp: later_def committed_def)
  show ab: "aborted g t \<Longrightarrow> aborted h t" for t using assms by (auto simp: later_def aborted_def)
  obtain es where "log (node h i) = log (node g i) @ es" using assms by (auto simp: later_def)
  then show "prepared (node g i) t \<Longrightarrow> prepared (node h i) t"
    and "applied (node g i) t \<Longrightarrow> applied (node h i) t"
    and "length (log (node g i)) \<le> length (log (node h i))"
    by (auto simp: prepared_def applied_def)
  show "entry_good nc sz g e \<Longrightarrow> entry_good nc sz h e"
    using ask co ab unfolding entry_good_def by (metis (no_types, lifting) subsetD)
qed

lemma later_packet:
  assumes "later g h" and "packet_ok nc sz g p"
  shows "packet_ok nc sz h p"
proof (cases p)
  case (Peer j m)
  have "int (length (log (node g j))) \<le> int (length (log (node h j)))"
    using later_facts(6) [OF assms(1)] by simp
  then show ?thesis
    using Peer assms(2) later_facts(1) [OF assms(1)] by (cases m) auto
next
  case (SyncAnswer j res)
  then show ?thesis using assms(2) later_facts(7) [OF assms(1)] by auto
next
  case (TransferAnswer x i res)
  then show ?thesis using assms(2) later_facts(1,4,5) [OF assms(1)] by (auto dest: subsetD)
next
  case (Decision b i t)
  then show ?thesis using assms(2) later_facts(2,3) [OF assms(1)] by auto
qed (use assms(2) later_facts(1) [OF assms(1)] in auto)

lemma later_node_good:
  assumes "later g h" and "node_good nc sz g s"
  shows "node_good nc sz h s"
  using assms(2) later_facts(1,7) [OF assms(1)] unfolding node_good_def by (meson subsetD)

end
