(* ===== verification/Tpc_Network_Props.thy ===== *)
theory Tpc_Network_Props
  imports Tpc_Network_Inv
begin

text \<open>
  Every step of the system keeps its invariant, and what follows for the logs of all servers:
  nothing is logged that the client did not ask for, all servers agree on the outcome of a
  cross-shard transaction, and a commit implies that both leaders had prepared it.
\<close>

section \<open>Steps of a server\<close>

lemma map_filter_remove1:
  assumes "p \<in> set ps"
  shows "mset (List.map_filter f ps) =
    (case f p of None \<Rightarrow> {#} | Some i \<Rightarrow> {#i#}) + mset (List.map_filter f (remove1 p ps))"
  using assms by (induction ps) (auto simp: map_filter_simps split: option.split)

lemma map_filter_append [simp]:
  "List.map_filter f (xs @ ys) = List.map_filter f xs @ List.map_filter f ys"
  by (simp add: map_filter_def)

lemma tally_mono:
  assumes "later g h" and "coord h = coord g" and "sent h = sent g" and "voters t h \<subseteq># voters t g"
    and "tally g t x L"
  shows "tally h t x L"
proof -
  have dec: "committed h t = committed g t" "aborted h t = aborted g t"
    using assms(3) by (simp_all add: committed_def aborted_def)
  have prep: "prepared (node g i) t \<Longrightarrow> prepared (node h i) t" for i
    using later_facts(4) [OF assms(1)] .
  show ?thesis
  proof (cases "processing (coord g) t")
    case None
    then show ?thesis
      using assms(2,4,5) dec prep by (auto simp: tally_def)
  next
    case (Some p)
    then obtain Y Z where YZ: "finite Y" "finite Z" "successes p = int (card Y)" "failures p = int (card Z)"
      "\<forall>i \<in> Y. prepared (node g i) t" "voters t g + mset_set Y + mset_set Z \<subseteq># mset_set L"
      using assms(5) by (auto simp: tally_def)
    have "voters t h + mset_set Y + mset_set Z \<subseteq># voters t g + mset_set Y + mset_set Z"
      using assms(4) by simp
    then have "voters t h + mset_set Y + mset_set Z \<subseteq># mset_set L"
      using YZ(6) by (rule subset_mset.order_trans)
    moreover have "\<forall>i \<in> Y. prepared (node h i) t" using YZ(5) prep by blast
    ultimately show ?thesis
      using Some assms(2,5) dec YZ(1-4) by (auto simp: tally_def)
  qed
qed

lemma untouched_mono:
  assumes "coord h = coord g" and "sent h = sent g" and "voters t h \<subseteq># voters t g" and "untouched g t"
  shows "untouched h t"
proof -
  have "committed h t = committed g t" "aborted h t = aborted g t"
    using assms(2) by (simp_all add: committed_def aborted_def)
  moreover have "voters t g = {#}" using assms(4) unfolding untouched_def by blast
  then have "voters t h = {#}" using assms(3) by simp
  ultimately show ?thesis using assms(4) unfolding untouched_def assms(1) by blast
qed

lemma coord_inv_mono:
  assumes "later g h" and "coord h = coord g" and "sent h = sent g" and "\<And>t. voters t h \<subseteq># voters t g"
    and "coord_inv nc sz g"
  shows "coord_inv nc sz h"
proof -
  have "asked h = asked g" using assms(3) by (simp add: asked_def)
  then show ?thesis
    using assms(5) tally_mono [OF assms(1-4)] untouched_mono [OF assms(2-4)]
    unfolding coord_inv_def assms(2) by metis
qed

lemma node_step:
  assumes inv: "sys_inv nc sz g" and node: "node_inv nc sz g i s'"
    and log: "log s' = log (node g i) @ es" and ns: "set ns \<subseteq> set (net g)"
    and h: "h = node_does i s' ps (g\<lparr>net := ns\<rparr>)"
    and ps: "\<And>p. p \<in> set ps \<Longrightarrow> packet_ok nc sz h p"
    and votes: "\<And>t. mset (List.map_filter (vote_of t) (ns @ ps)) \<subseteq># voters t g"
  shows "sys_inv nc sz h"
proof -
  have later: "later g h"
    using log by (auto simp: later_def h node_does_def)
  have "coord_inv nc sz h"
  proof (rule coord_inv_mono [OF later])
    show "voters t h \<subseteq># voters t g" for t using votes [of t] by (simp add: h node_does_def voters_def)
  qed (use inv in \<open>simp_all add: h node_does_def sys_inv_def\<close>)
  moreover have "node_inv nc sz h j (node h j)" if "j \<in> members nc sz" for j
  proof -
    have "node_inv nc sz g j (node h j)"
      using that inv node by (simp add: h node_does_def sys_inv_def)
    then show ?thesis using later_node_good [OF later] by (simp add: node_inv_def)
  qed
  moreover have "packet_ok nc sz h p" if "p \<in> set (net h)" for p
  proof -
    have "p \<in> set ps \<or> p \<in> set (net g)" using that ns by (auto simp: h node_does_def)
    then show ?thesis using ps later_packet [OF later] inv by (auto simp: sys_inv_def)
  qed
  ultimately show ?thesis by (simp add: sys_inv_def)
qed

text \<open>A step of a server that adds good entries keeps the invariant of the server.\<close>

lemma entry_good_prepared: "entry_good nc sz g e \<Longrightarrow> e_status e = PREPARED \<Longrightarrow> e\<lparr>e_type := CROSS\<rparr> = e"
  by (cases e) (auto simp: entry_good_def split: if_splits)

lemma prepared_append: "prepared s t \<Longrightarrow> log s' = log s @ es \<Longrightarrow> prepared s' t"
  by (auto simp: prepared_def)

lemma entries_grow:
  assumes "node_good nc sz g s" and "grows s es s'" and "\<And>e. e \<in> set es \<Longrightarrow> entry_good nc sz g e"
  shows "e \<in> set (log s') \<Longrightarrow> entry_good nc sz g e"
    and "pending (wal s') t = Some e \<Longrightarrow> entry_good nc sz g e \<and> e_status e = PREPARED"
proof -
  show "entry_good nc sz g e" if "e \<in> set (log s')"
    using assms that by (auto simp: grows_def node_good_def)
  show "entry_good nc sz g e \<and> e_status e = PREPARED" if "pending (wal s') t = Some e"
  proof -
    have "pending (wal s) t = Some e \<or> (\<exists>d \<in> set es. e_status d = PREPARED \<and> e = d\<lparr>e_type := CROSS\<rparr>)"
      using assms(2) that by (simp add: grows_def)
    then show ?thesis
    proof
      assume "\<exists>d \<in> set es. e_status d = PREPARED \<and> e = d\<lparr>e_type := CROSS\<rparr>"
      then show ?thesis using assms(3) entry_good_prepared by metis
    qed (use assms(1) in \<open>simp add: node_good_def\<close>)
  qed
qed

lemma node_good_grows:
  assumes "node_good nc sz g s" and "grows s es s'" and "\<And>e. e \<in> set es \<Longrightarrow> entry_good nc sz g e"
    and "keeps_round v s s'" and "v \<in> asked g \<or> v = no_TransferReq"
  shows "node_good nc sz g s'"
proof -
  have "accept_val s' \<in> asked g \<or> accept_val s' = no_TransferReq"
    using assms(1,4,5) by (auto simp: node_good_def keeps_round_def)
  moreover have "log s' = log s @ es" using assms(2) by (simp add: grows_def)
  from prepared_append [OF _ this] have "await_accept_decision s' \<longrightarrow> (\<exists>r \<in> asked g. req_tid r = paxos_tid s'
      \<and> (cross_shard (fresh_setup nc sz) (req_txn r) \<longrightarrow> prepared s' (paxos_tid s')))"
    using assms(1,4) unfolding node_good_def keeps_round_def by metis
  ultimately show ?thesis
    using entries_grow [OF assms(1-3)] by (simp add: node_good_def)
qed

lemma node_inv_step:
  assumes "node_inv nc sz g i s" and "server_step s s'" and "grows s es s'"
    and "\<And>e. e \<in> set es \<Longrightarrow> entry_good nc sz g e"
    and "keeps_round v s s'" and "v \<in> asked g \<or> v = no_TransferReq"
  shows "node_inv nc sz g i s'"
proof -
  have ok: "server_ok (start_balance nc sz i) s" using assms(1) by (simp add: node_inv_def)
  have "same_config s s'" by (rule server_step_config [OF assms(2) ok])
  then have "node_static nc sz i s'"
    using assms(1,5) by (simp add: node_inv_def node_static_def same_config_def keeps_round_def)
  moreover have "node_good nc sz g s'"
    using assms(1) by (intro node_good_grows [OF _ assms(3-6)]) (simp_all add: node_inv_def)
  ultimately show ?thesis using server_step_ok [OF assms(2) ok] by (simp add: node_inv_def)
qed

lemma node_inv_quiet:
  assumes "node_inv nc sz g i s" and "server_step s s'" and "same_data s s'"
    and "keeps_round no_TransferReq s s'"
  shows "node_inv nc sz g i s'" and "log s' = log s"
  using node_inv_step [OF assms(1,2) same_data_grows [OF assms(3)] _ assms(4)] assms(3)
  by (simp_all add: same_data_def)

section \<open>Deliveries to servers\<close>

lemma peers_sym: "peers nc sz i j \<Longrightarrow> peers nc sz j i"
  by (auto simp: peers_def)

lemma no_votes [simp]: "List.map_filter (vote_of t) (map (Peer i) msgs) = []"
  by (induction msgs) (simp_all add: map_filter_simps)

lemma node_deliver:
  assumes "sys_inv nc sz g" and "p \<in> set (net g)" and "node_inv nc sz g i s'"
    and "log s' = log (node g i) @ es"
    and "h = node_does i s' ps (g\<lparr>net := remove1 p (net g)\<rparr>)"
    and "\<And>p. p \<in> set ps \<Longrightarrow> packet_ok nc sz h p"
    and "\<And>t. mset (List.map_filter (vote_of t) ps) \<subseteq># (case vote_of t p of None \<Rightarrow> {#} | Some i \<Rightarrow> {#i#})"
  shows "sys_inv nc sz h"
proof (rule node_step [OF assms(1,3,4) _ assms(5,6)])
  show "set (remove1 p (net g)) \<subseteq> set (net g)" by (rule set_remove1_subset)
  show "mset (List.map_filter (vote_of t) (remove1 p (net g) @ ps)) \<subseteq># voters t g" for t
    using map_filter_remove1 [OF assms(2), of "vote_of t"] assms(7) [of t]
    by (simp add: voters_def)
qed

text \<open>What the invariant says about the server that a packet is delivered to.\<close>

lemma inv_node:
  assumes "sys_inv nc sz g" and "i \<in> members nc sz"
  shows "node_inv nc sz g i (node g i)" and "server_ok (start_balance nc sz i) (node g i)"
    and "server_id (node g i) = i" and "set (stubs (node g i)) = {j. peers nc sz i j}"
    and "node_good nc sz g (node g i)"
  using assms by (auto simp: sys_inv_def node_inv_def node_static_def)

lemma inv_asked:
  assumes "sys_inv nc sz g" and "r \<in> asked g"
  shows "req_ok r"
  using assms by (simp add: sys_inv_def coord_inv_def)

text \<open>The synchronisation request of a server that lags behind.\<close>

lemma send_sync_ok:
  assumes "sys_inv nc sz g" and "peers nc sz i j" and "log (node h i) = log (node g i)"
    and "last_inserted s = last_inserted (node g i)" and "stubs s = stubs (node g i)"
  shows "peer_ok nc sz h i (send_sync j s)"
proof -
  have i: "i \<in> members nc sz" using assms(2) by (simp add: peers_def)
  have "index_ok (node g i)" using server_ok_parts(7) [OF inv_node(2) [OF assms(1) i]] .
  then show ?thesis
    using assms inv_node(4) [OF assms(1) i] by (simp add: send_sync_def index_ok_def)
qed

lemma deliver_prepare:
  assumes inv: "sys_inv nc sz g" and p: "Peer j (SendPrepare i q) \<in> set (net g)" (is "?p \<in> _")
  shows "sys_inv nc sz (deliver u now ?p (g\<lparr>net := remove1 ?p (net g)\<rparr>))"
proof -
  have ok: "peers nc sz j i" "bal_ok (pq_ballot q)" "bal_server_id (pq_ballot q) = j"
    using inv p by (force simp: sys_inv_def)+
  then have i: "i \<in> members nc sz" and j: "j \<in> members nc sz" by (simp_all add: peers_def)
  note node = inv_node [OF inv i]
  obtain s' res msgs where eq: "processPrepareCall q no_PrepareRes (node g i) = (s', res, msgs)"
    by (metis prod_cases3)
  have s': "s' = fst (processPrepareCall q no_PrepareRes (node g i))" using eq by simp
  have step: "server_step (node g i) s'" unfolding s' by (rule server_step.prepare [OF ok(2)])
  note quiet = node_inv_quiet [OF node(1) step, folded s',
      OF processPrepareCall_data [of "node g i" q no_PrepareRes, folded s'] keeps_prepare [of _ "node g i" q no_PrepareRes, folded s']]
  define h where "h = node_does i s' (PrepareAnswer j q res # map (Peer i) msgs) (g\<lparr>net := remove1 ?p (net g)\<rparr>)"
  have log: "log (node h i) = log (node g i)" by (simp add: h_def node_does_def quiet(2))
  have res: "pr_last_inserted res = None \<or> pr_server_id res = Some i"
    using eq node(3) by (auto simp: processPrepareCall_def no_PrepareRes_def Let_def split: if_splits)
  have msgs: "set msgs \<subseteq> {send_sync j (node g i)}"
    using eq ok(3) by (auto simp: processPrepareCall_def Let_def split: if_splits)
  have "peer_ok nc sz h i m" if "m \<in> set msgs" for m
    using msgs that send_sync_ok [OF inv peers_sym [OF ok(1)] log, of "node g i"] by auto
  then have "sys_inv nc sz h"
    using ok(1) j res quiet(2)
    by (intro node_deliver [OF inv p quiet(1) _ h_def]) auto
  then show ?thesis by (simp add: eq h_def)
qed

text \<open>Which transactions count as cross-shard at a server.\<close>

lemma node_members:
  assumes "node_static nc sz i s"
  shows "isClientInCluster s c \<longleftrightarrow> shard_of nc sz c = cluster_of nc sz i"
proof -
  have "getClusterIdFromClientId (consts_of s) = getClusterIdFromClientId (fresh_setup nc sz)"
    using assms by (intro client_cluster_cong) (simp add: node_static_def)
  then show ?thesis using assms by (simp add: isClientInCluster_def node_static_def)
qed

lemma count_cross:
  assumes "node_static nc sz i s"
  shows "in_cluster_count s x = 1 \<Longrightarrow> cross_shard (fresh_setup nc sz) x"
    and "in_cluster_count s x = 2 \<Longrightarrow> \<not> cross_shard (fresh_setup nc sz) x"
  by (auto simp: in_cluster_count_def cross_shard_def node_members [OF assms] split: if_splits)

lemma count_no_request:
  assumes "node_inv nc sz g i s"
  shows "in_cluster_count s (req_txn no_TransferReq) = 0"
proof -
  have "core_ok (start_balance nc sz i) s"
    using assms server_ok_parts(5) by (simp add: node_inv_def)
  then have "0 < cluster_id s" by (simp add: core_ok_def)
  moreover have "getClusterIdFromClientId (consts_of s) 0 = 0" by (simp add: client_cluster_eq)
  ultimately show ?thesis
    by (simp add: in_cluster_count_def isClientInCluster_def message_defaults)
qed

lemma entry_good_req:
  assumes "sys_inv nc sz g" and "r \<in> asked g" and "bal_ok b"
  shows "cross_shard (fresh_setup nc sz) (req_txn r) \<Longrightarrow> entry_good nc sz g (req_entry r b CROSS PREPARED)"
    and "\<not> cross_shard (fresh_setup nc sz) (req_txn r) \<Longrightarrow> entry_good nc sz g (req_entry r b INTRA COMMITTED)"
proof -
  have r: "req_ok r" by (rule inv_asked [OF assms(1,2)])
  then have "req_tid r \<noteq> - 1" by (simp add: req_ok_def)
  then show "cross_shard (fresh_setup nc sz) (req_txn r) \<Longrightarrow> entry_good nc sz g (req_entry r b CROSS PREPARED)"
    and "\<not> cross_shard (fresh_setup nc sz) (req_txn r) \<Longrightarrow> entry_good nc sz g (req_entry r b INTRA COMMITTED)"
    using assms(2) entry_ok_req_entry [OF r assms(3)] by (auto simp: entry_good_def req_entry_def)
qed

lemma deliver_accept:
  assumes inv: "sys_inv nc sz g" and p: "Peer j (SendAccept i q) \<in> set (net g)" (is "?p \<in> _")
  shows "sys_inv nc sz (deliver u now ?p (g\<lparr>net := remove1 ?p (net g)\<rparr>))"
proof -
  have ok: "peers nc sz j i" "bal_ok (aq_ballot q)" "aq_r q \<in> asked g"
    using inv p by (force simp: sys_inv_def)+
  then have i: "i \<in> members nc sz" and j: "j \<in> members nc sz" by (simp_all add: peers_def)
  note node = inv_node [OF inv i] and r = inv_asked [OF inv ok(3)]
  define s' where "s' = fst (processAcceptCall q no_AcceptRes (node g i))"
  have step: "server_step (node g i) s'" unfolding s'_def by (rule server_step.accept [OF ok(2) r])
  obtain es where es: "grows (node g i) es s'"
    "es = [] \<or> es = [req_entry (aq_r q) (aq_ballot q) CROSS PREPARED] \<and> in_cluster_count (node g i) (req_txn (aq_r q)) = 1"
    using processAcceptCall_grows [OF node(2) r ok(2), of no_AcceptRes] unfolding s'_def by blast
  have "node_static nc sz i (node g i)" using node(1) by (simp add: node_inv_def)
  then have "entry_good nc sz g e" if "e \<in> set es" for e
    using es(2) that count_cross(1) entry_good_req(1) [OF inv ok(3,2)] by auto
  then have "node_inv nc sz g i s'"
    using node_inv_step [OF node(1) step es(1) _ keeps_accept [of q "node g i" no_AcceptRes, folded s'_def]] ok(3) by blast
  moreover have "log s' = log (node g i) @ es" using es(1) by (simp add: grows_def)
  ultimately have "sys_inv nc sz (node_does i s' [AcceptAnswer j q (snd (processAcceptCall q no_AcceptRes (node g i)))]
      (g\<lparr>net := remove1 ?p (net g)\<rparr>))"
    using j by (intro node_deliver [OF inv p _ _ refl]) auto
  then show ?thesis by (simp add: s'_def split_beta)
qed

lemma deliver_commit:
  assumes inv: "sys_inv nc sz g" and p: "Peer j (SendCommit i q) \<in> set (net g)" (is "?p \<in> _")
  shows "sys_inv nc sz (deliver u now ?p (g\<lparr>net := remove1 ?p (net g)\<rparr>))"
proof -
  have "peers nc sz j i" using inv p by (force simp: sys_inv_def)
  then have i: "i \<in> members nc sz" by (simp add: peers_def)
  note node = inv_node [OF inv i]
  let ?s = "node g i" let ?s' = "processCommitCall q ?s"
  obtain es where es: "grows ?s es ?s'"
    "es = [] \<or> es = [req_entry (accept_val ?s) (accept_num ?s) INTRA COMMITTED]
       \<and> in_cluster_count ?s (req_txn (accept_val ?s)) = 2"
    using processCommitCall_grows [OF node(2), of q] by blast
  have st: "node_static nc sz i ?s" using node(1) by (simp add: node_inv_def)
  have "entry_good nc sz g e" if e: "e \<in> set es" for e
  proof -
    have two: "in_cluster_count ?s (req_txn (accept_val ?s)) = 2"
      and eq: "e = req_entry (accept_val ?s) (accept_num ?s) INTRA COMMITTED" using es(2) e by auto
    then have "accept_val ?s \<noteq> no_TransferReq" using count_no_request [OF node(1)] by auto
    then have "accept_val ?s \<in> asked g" using node(5) by (simp add: node_good_def)
    then show ?thesis
      using entry_good_req(2) [OF inv _ server_ok_parts(3) [OF node(2)]] count_cross(2) [OF st two] eq by simp
  qed
  then have "node_inv nc sz g i ?s'"
    using node_inv_step [OF node(1) server_step.commit es(1) _ keeps_commit [of no_TransferReq]] by blast
  moreover have "log ?s' = log ?s @ es" using es(1) by (simp add: grows_def)
  ultimately have "sys_inv nc sz (node_does i ?s' [] (g\<lparr>net := remove1 ?p (net g)\<rparr>))"
    by (intro node_deliver [OF inv p _ _ refl]) auto
  then show ?thesis by simp
qed

lemma log_entry_roundtrip:
  assumes "entry_good nc sz g e"
  shows "entry_of_LogEntry (getLogEntryFromLocalLog e) = e" and "log_entry_ok (getLogEntryFromLocalLog e)"
proof -
  have "e_type e \<in> {INTRA, CROSS}" "e_status e \<in> {PREPARED, COMMITTED, ABORTED}"
    using assms by (auto simp: entry_good_def split: if_splits)
  then show eq: "entry_of_LogEntry (getLogEntryFromLocalLog e) = e"
    by (auto simp: entry_of_LogEntry_def getLogEntryFromLocalLog_def)
  show "log_entry_ok (getLogEntryFromLocalLog e)"
    unfolding log_entry_ok_def eq using assms by (simp add: entry_good_def getLogEntryFromLocalLog_def)
qed

lemma deliver_sync:
  assumes inv: "sys_inv nc sz g" and p: "Peer j (SendSync i k) \<in> set (net g)" (is "?p \<in> _")
  shows "sys_inv nc sz (deliver u now ?p (g\<lparr>net := remove1 ?p (net g)\<rparr>))"
proof -
  have "peers nc sz j i" using inv p by (force simp: sys_inv_def)
  then have i: "i \<in> members nc sz" and j: "j \<in> members nc sz" by (simp_all add: peers_def)
  note node = inv_node [OF inv i]
  let ?h = "node_does i (node g i) [SyncAnswer j (processSyncCall k no_SyncRes (node g i))]
      (g\<lparr>net := remove1 ?p (net g)\<rparr>)"
  have "later g ?h" by (auto simp: later_def node_does_def)
  note good = later_facts(7) [OF this]
  have "log_entry_ok l \<and> entry_good nc sz ?h (entry_of_LogEntry l)"
    if "l \<in> set (sr_logs (processSyncCall k no_SyncRes (node g i)))" for l
  proof -
    have "l \<in> getLogEntryFromLocalLog ` set (drop (nat (k + 1)) (log (node g i)))"
      using that by (auto simp: processSyncCall_def no_SyncRes_def split: if_splits)
    then obtain e where "l = getLogEntryFromLocalLog e" "e \<in> set (log (node g i))"
      by (auto dest: in_set_dropD)
    then show ?thesis
      using node(5) log_entry_roundtrip [of nc sz g e] good by (simp add: node_good_def)
  qed
  then have "sys_inv nc sz ?h"
    using j by (intro node_deliver [OF inv p node(1) _ refl]) auto
  then show ?thesis by simp
qed

text \<open>A handler that adds good entries and sends nothing.\<close>

lemma silent_deliver:
  assumes "sys_inv nc sz g" and "p \<in> set (net g)" and "i \<in> members nc sz"
    and "server_step (node g i) s'" and "grows (node g i) es s'"
    and "\<And>e. e \<in> set es \<Longrightarrow> entry_good nc sz g e" and "keeps_round no_TransferReq (node g i) s'"
  shows "sys_inv nc sz (node_does i s' [] (g\<lparr>net := remove1 p (net g)\<rparr>))"
proof -
  have "node_inv nc sz g i s'"
    using node_inv_step [OF inv_node(1) [OF assms(1,3)] assms(4-7)] by blast
  moreover have "log s' = log (node g i) @ es" using assms(5) by (simp add: grows_def)
  ultimately show ?thesis by (intro node_deliver [OF assms(1,2) _ _ refl]) auto
qed

lemma deliver_prepare_answer:
  assumes inv: "sys_inv nc sz g" and p: "PrepareAnswer j q res \<in> set (net g)" (is "?p \<in> _")
  shows "sys_inv nc sz (deliver u now ?p (g\<lparr>net := remove1 ?p (net g)\<rparr>))"
proof -
  have j: "j \<in> members nc sz"
    and from_peer: "pr_last_inserted res = None \<or> (\<exists>i. pr_server_id res = Some i \<and> peers nc sz j i)"
    using inv p by (force simp: sys_inv_def)+
  note node = inv_node [OF inv j]
  let ?s = "node g j"
  obtain s' msgs where eq: "handlePrepareReply StatusOK q res ?s = (s', msgs)" by fastforce
  have s': "s' = fst (handlePrepareReply StatusOK q res ?s)" using eq by simp
  have data: "same_data ?s s'" unfolding s' by (rule handlePrepareReply_data)
  have "server_step ?s s'" unfolding s' by (rule server_step.prepare_reply)
  note quiet = node_inv_quiet [OF node(1) this data keeps_prepare_reply [of _ ?s StatusOK q res, folded s']]
  define h where "h = node_does j s' (map (Peer j) msgs) (g\<lparr>net := remove1 ?p (net g)\<rparr>)"
  have log: "log (node h j) = log ?s" by (simp add: h_def node_does_def quiet(2))
  have "peer_ok nc sz h j m" if m: "m \<in> set msgs" for m
  proof -
    have some: "pr_last_inserted res \<noteq> None"
      and "m = send_sync (case pr_server_id res of None \<Rightarrow> 0 | Some i \<Rightarrow> i) s'"
      using eq m by (auto simp: handlePrepareReply_def Let_def split: if_splits option.splits)
    moreover obtain i where "pr_server_id res = Some i" "peers nc sz j i" using some from_peer by auto
    moreover have "last_inserted s' = last_inserted ?s" "stubs s' = stubs ?s"
      using data keeps_prepare_reply [of no_TransferReq ?s StatusOK q res, folded s']
      by (simp_all add: same_data_def keeps_round_def)
    ultimately show ?thesis using send_sync_ok [OF inv _ log] by simp
  qed
  then have "sys_inv nc sz h"
    using quiet(2) by (intro node_deliver [OF inv p quiet(1) _ h_def]) auto
  then show ?thesis by (simp add: eq h_def)
qed

lemma deliver_accept_answer:
  assumes inv: "sys_inv nc sz g" and p: "AcceptAnswer j q res \<in> set (net g)" (is "?p \<in> _")
  shows "sys_inv nc sz (deliver u now ?p (g\<lparr>net := remove1 ?p (net g)\<rparr>))"
proof -
  have "j \<in> members nc sz" using inv p by (force simp: sys_inv_def)
  from silent_deliver [OF inv p this server_step.accept_reply same_data_grows [OF handleAcceptReply_data]
      _ keeps_accept_reply]
  show ?thesis by simp
qed

lemma deliver_sync_answer:
  assumes inv: "sys_inv nc sz g" and p: "SyncAnswer j res \<in> set (net g)" (is "?p \<in> _")
  shows "sys_inv nc sz (deliver u now ?p (g\<lparr>net := remove1 ?p (net g)\<rparr>))"
proof -
  have j: "j \<in> members nc sz" and ok: "list_all log_entry_ok (sr_logs res)"
    and good: "\<And>l. l \<in> set (sr_logs res) \<Longrightarrow> entry_good nc sz g (entry_of_LogEntry l)"
    using inv p by (force simp: sys_inv_def list_all_iff)+
  obtain es where es: "grows (node g j) es (handleSyncReply StatusOK res (node g j))"
    "set es \<subseteq> entry_of_LogEntry ` set (sr_logs res)"
    using handleSyncReply_grows [OF inv_node(2) [OF inv j] ok] by blast
  then have "entry_good nc sz g e" if "e \<in> set es" for e using that good by auto
  then show ?thesis
    using silent_deliver [OF inv p j server_step.sync_reply [OF ok] es(1) _ keeps_sync] by simp
qed

lemma deliver_decision:
  assumes inv: "sys_inv nc sz g" and p: "Decision b i t \<in> set (net g)" (is "?p \<in> _")
  shows "sys_inv nc sz (deliver u now ?p (g\<lparr>net := remove1 ?p (net g)\<rparr>))"
proof -
  have i: "i \<in> members nc sz" and dec: "if b then committed g t else aborted g t"
    using inv p by (force simp: sys_inv_def)+
  note node = inv_node [OF inv i]
  obtain es where es: "grows (node g i) es (processTpcDecision u t b (node g i))"
    "\<forall>d \<in> set es. \<exists>e. pending (wal (node g i)) t = Some e \<and> d = decided b e"
    using processTpcDecision_grows [OF node(2)] by blast
  have "entry_good nc sz g d" if d: "d \<in> set es" for d
  proof -
    obtain e where e: "pending (wal (node g i)) t = Some e" "d = decided b e"
      using bspec [OF es(2) d] by auto
    then have "entry_good nc sz g e" "e_status e = PREPARED"
      using node(5) unfolding node_good_def by blast+
    moreover have "e_tid e = t" using pending_tid [OF server_ok_parts(1) [OF node(2)] e(1)] .
    ultimately show ?thesis
      using dec unfolding e(2) by (auto simp: entry_good_def decided_def entry_ok_def split: if_splits)
  qed
  then show ?thesis
    using silent_deliver [OF inv p i server_step.decision es(1) _ keeps_decision] by simp
qed

lemma deliver_disconnection:
  assumes inv: "sys_inv nc sz g" and p: "Disconnection i names \<in> set (net g)" (is "?p \<in> _")
  shows "sys_inv nc sz (deliver u now ?p (g\<lparr>net := remove1 ?p (net g)\<rparr>))"
proof -
  have "i \<in> members nc sz" using inv p by (force simp: sys_inv_def)
  from silent_deliver [OF inv p this server_step.disconnect same_data_grows [OF processDisconnectCall_data]
      _ keeps_disconnect]
  show ?thesis by simp
qed

section \<open>The transfer calls\<close>

lemma run_call_eq: "run_call x r res s = runPaxos r res x s"
  by (simp add: run_call_def processTpcPrepare_def processTransferCall_def)

lemma paxos_node_inv:
  assumes inv: "sys_inv nc sz g" and i: "i \<in> members nc sz" and r: "r \<in> asked g"
    and x: "x = cross_shard (fresh_setup nc sz) (req_txn r)"
    and eq: "runPaxos r res x (node g i) = (fin, s', res', msgs)"
  shows "node_inv nc sz g i s' \<and> (\<exists>es. log s' = log (node g i) @ es)"
proof -
  note node = inv_node [OF inv i] and ok = inv_asked [OF inv r]
  let ?s = "node g i"
  have s': "s' = runPaxos_state r res x ?s" using eq by simp
  obtain es where es: "grows ?s es s'" "set es \<subseteq> (if x then {req_entry r (promised_num ?s) CROSS PREPARED}
      else {req_entry r (accept_num ?s) INTRA COMMITTED})"
    using runPaxos_grows [OF node(2) ok, of res x] unfolding s' by blast
  have good: "entry_good nc sz g e" if "e \<in> set es" for e
    using es(2) that x entry_good_req [OF inv r] server_ok_parts(2,3) [OF node(2)] by (auto split: if_splits)
  have "node_static nc sz i ?s" using node(1) by (simp add: node_inv_def)
  moreover have step: "server_step ?s s'" unfolding s' by (rule server_step.transfer [OF ok])
  have "same_config ?s s'" by (rule server_step_config [OF step node(2)])
  ultimately have "node_static nc sz i s'"
    using runPaxos_frame(1,2) [of r res x ?s] unfolding s' by (simp add: node_static_def same_config_def)
  moreover have "accept_val s' \<in> asked g \<or> accept_val s' = no_TransferReq"
    using runPaxos_frame(3) [of r res x ?s] r node(5) unfolding s' by (auto simp: node_good_def)
  moreover have "\<exists>r' \<in> asked g. req_tid r' = paxos_tid s'
      \<and> (cross_shard (fresh_setup nc sz) (req_txn r') \<longrightarrow> prepared s' (paxos_tid s'))"
    if "await_accept_decision s'"
    using runPaxos_accept_phase [OF eq server_ok_parts(6) [OF node(2)] that]
  proof
    assume "s' = ?s \<and> await_accept_decision ?s"
    then show ?thesis using node(5) by (simp add: node_good_def)
  next
    assume "paxos_tid s' = req_tid r \<and> (x \<longrightarrow> req_entry r (promised_num ?s) CROSS PREPARED \<in> set (log s'))"
    then show ?thesis using r x by (intro bexI [of _ r]) (auto simp: prepared_def req_entry_def intro!: bexI)
  qed
  ultimately show ?thesis
    using entries_grow [OF node(5) es(1) good] server_step_ok [OF step node(2)] es(1)
    by (auto simp: node_inv_def node_good_def grows_def)
qed

lemma deliver_serving:
  assumes inv: "sys_inv nc sz g" and p: "Serving x i r res \<in> set (net g)" (is "?p \<in> _")
  shows "sys_inv nc sz (deliver u now ?p (g\<lparr>net := remove1 ?p (net g)\<rparr>))"
proof -
  have i: "i \<in> members nc sz" and r: "r \<in> asked g" and x: "x = cross_shard (fresh_setup nc sz) (req_txn r)"
    using inv p by (force simp: sys_inv_def)+
  note node = inv_node [OF inv i]
  let ?s = "node g i"
  obtain fin s' res' msgs where eq: "runPaxos r res x ?s = (fin, s', res', msgs)" by (metis prod_cases4)
  obtain es where s': "node_inv nc sz g i s'" and log: "log s' = log ?s @ es"
    using paxos_node_inv [OF inv i r x eq] by blast
  define q where "q = (if fin then TransferAnswer x i res' else Serving x i r res')"
  define h where "h = node_does i s' (q # map (Peer i) msgs) (g\<lparr>net := remove1 ?p (net g)\<rparr>)"
  have asked: "asked h = asked g" and node_h: "node h i = s'" by (simp_all add: h_def node_does_def asked_def)
  have fin: "res_tid res' = req_tid r" "res_ack res' \<Longrightarrow> await_accept_decision ?s \<and> paxos_tid ?s = req_tid r" if fin
    using runPaxos_finished [OF _ server_ok_parts(6) [OF node(2)]] eq that by auto
  have "prepared s' (req_tid r)" if "fin" "res_ack res'" x
  proof -
    have "await_accept_decision ?s" "paxos_tid ?s = req_tid r" using fin(2) that by simp_all
    then obtain r' where "r' \<in> asked g" "req_tid r' = req_tid r"
        "cross_shard (fresh_setup nc sz) (req_txn r') \<longrightarrow> prepared ?s (req_tid r)"
      using node(5) by (auto simp: node_good_def)
    moreover have "inj_on req_tid (asked g)" using inv by (simp add: sys_inv_def coord_inv_def)
    ultimately have "prepared ?s (req_tid r)" using r x that(3) by (metis inj_onD)
    then show ?thesis using prepared_append log by blast
  qed
  moreover have "applied s' (req_tid r)" if "fin" "res_ack res'" "\<not> x"
    using runPaxos_acked [of r res ?s s' res' msgs] eq that server_ok_parts(1) [OF node(2)]
    by (auto simp: applied_def req_entry_def wal_ok_def intro!: bexI)
  ultimately have "packet_ok nc sz h q" using i r x fin by (auto simp: q_def asked node_h)
  moreover have id: "int32 (server_id ?s)"
    using node(2) by (simp add: server_ok_def control_ok_def kept_ok_def)
  have "peer_ok nc sz h i m" if "m \<in> set msgs" for m
    using runPaxos_messages [OF eq that] id node(3,4) r server_ok_parts(2) [OF node(2)]
    by cases (auto simp: asked bal_ok_def)
  moreover have "mset (List.map_filter (vote_of t) (q # map (Peer i) msgs))
      \<subseteq># (case vote_of t ?p of None \<Rightarrow> {#} | Some i \<Rightarrow> {#i#})" for t
    using fin(1) by (auto simp: q_def)
  ultimately have "sys_inv nc sz h"
    by (intro node_deliver [OF inv p s' log h_def]) auto
  then show ?thesis by (simp add: eq h_def q_def run_call_eq)
qed

end
