(* ===== verification/Tpc_Network_Client.thy ===== *)
theory Tpc_Network_Client
  imports Tpc_Network_Props
begin

text \<open>
  The steps of the client keep the invariant of the system: sending a transaction, counting a
  vote and deciding, and losing a call.
\<close>

section \<open>Names and numbers of servers\<close>

lemma server_number:
  assumes "setup_ok nc sz"
  shows "map_of (server_ids (fresh_setup nc sz)) name = Some i \<Longrightarrow> i \<in> members nc sz"
    and "i \<in> members nc sz \<Longrightarrow> 0 < cluster_of nc sz i"
proof -
  show "i \<in> members nc sz" if "map_of (server_ids (fresh_setup nc sz)) name = Some i"
    using map_of_SomeD [OF that] setup_total(1) [OF assms]
    by (auto simp: fresh_setup_ids(3) members_def)
  show "0 < cluster_of nc sz i" if "i \<in> members nc sz"
  proof -
    have i: "1 \<le> i" "i \<le> nc * sz" using that by (simp_all add: members_def)
    have "i \<in> block sz (cluster_of nc sz i)" using server_in_block [OF assms i] by blast
    moreover have "0 < sz" using assms by (simp add: setup_ok_def)
    ultimately have "0 < cluster_of nc sz i * sz" using i by (simp add: block_def)
    then show ?thesis using \<open>0 < sz\<close> by (simp add: zero_less_mult_iff)
  qed
qed

lemma to_server_members:
  "setup_ok nc sz \<Longrightarrow> q \<in> set (to_server (fresh_setup nc sz) name p) \<Longrightarrow> \<exists>i \<in> members nc sz. q = p i"
  using server_number(1) by (force simp: to_server_def split: option.splits)

lemma no_servers_of_zero:
  assumes "setup_ok nc sz"
  shows "servers_of (fresh_setup nc sz) 0 0 = []"
proof -
  have "cluster_of nc sz (snd s) \<noteq> 0" if "s \<in> set (server_ids (fresh_setup nc sz))" for s
  proof -
    have "snd s \<in> members nc sz"
      using that setup_total(1) [OF assms] by (auto simp: fresh_setup_ids(3) members_def)
    then show ?thesis using server_number(2) [OF assms] by force
  qed
  then show ?thesis by (auto simp: servers_of_def filter_empty_conv)
qed

section \<open>Frame\<close>

lemma client_sends_simps [simp]:
  "node (client_sends ms g) = node g" "coord (client_sends ms g) = coord g"
  "sent (client_sends ms g) = sent g @ ms"
  "net (client_sends ms g) = net g @ concat (map (packets_of (client_consts (coord g))) ms)"
  by (simp_all add: client_sends_def)

lemma client_step:
  assumes inv: "sys_inv nc sz g" and node: "node h = node g" and sent: "set (sent g) \<subseteq> set (sent h)"
    and coord: "coord_inv nc sz h"
    and packets: "\<And>p. p \<in> set (net h) \<Longrightarrow> p \<in> set (net g) \<or> packet_ok nc sz h p"
  shows "sys_inv nc sz h"
proof -
  have later: "later g h" using sent by (simp add: later_def node)
  have "node_inv nc sz h i (node h i)" if "i \<in> members nc sz" for i
    using inv that later_node_good [OF later] by (simp add: sys_inv_def node_inv_def node)
  moreover have "packet_ok nc sz h p" if "p \<in> set (net h)" for p
    using packets [OF that] later_packet [OF later] inv by (auto simp: sys_inv_def)
  ultimately show ?thesis using coord by (simp add: sys_inv_def)
qed

text \<open>What does not concern a transaction leaves its tally alone.\<close>

lemma tally_cong:
  assumes "processing (coord h) t = processing (coord g) t" and "node h = node g"
    and "committed h t = committed g t" and "aborted h t = aborted g t" and "voters t h = voters t g"
  shows "tally h t x L = tally g t x L" and "untouched h t = untouched g t"
  by (simp_all only: tally_def untouched_def assms)

lemma coord_inv_cong:
  assumes "coord_inv nc sz g" and "client_consts (coord h) = client_consts (coord g)"
    and "client_stubs (coord h) = client_stubs (coord g)" and "asked h = asked g" and "node h = node g"
    and "\<And>t. processing (coord h) t = processing (coord g) t"
    and "\<And>t. committed h t = committed g t" and "\<And>t. aborted h t = aborted g t"
    and "\<And>t. voters t h = voters t g"
  shows "coord_inv nc sz h"
proof -
  note same = tally_cong [OF assms(6,5,7-9)]
  show ?thesis
    using assms(1) unfolding coord_inv_def same assms(2,4) client_ok_def assms(3) .
qed

text \<open>A step of the client that concerns one identifier: the rest of the table is as it was.\<close>

lemma coord_inv_new:
  assumes coord: "coord_inv nc sz g" and frame: "client_consts (coord h) = client_consts (coord g)"
      "client_stubs (coord h) = client_stubs (coord g)" and node: "node h = node g"
    and asked: "asked h = asked g \<union> R" "\<And>r. r \<in> R \<Longrightarrow> req_ok r \<and> 0 < req_tid r \<and> req_tid r = t" "inj_on req_tid (asked h)"
    and other: "\<And>t'. t' \<noteq> t \<Longrightarrow> processing (coord h) t' = processing (coord g) t'"
      "\<And>t'. t' \<noteq> t \<Longrightarrow> committed h t' = committed g t'" "\<And>t'. t' \<noteq> t \<Longrightarrow> aborted h t' = aborted g t'"
      "\<And>t'. t' \<noteq> t \<Longrightarrow> voters t' h = voters t' g"
    and this_one: "\<And>r. r \<in> asked h \<Longrightarrow> req_tid r = t \<Longrightarrow> cross_shard (fresh_setup nc sz) (req_txn r) \<Longrightarrow>
        \<exists>a b. leads nc sz (req_txn r) a b \<and> tally h t (req_txn r) {a, b}"
      "\<forall>r \<in> asked h. req_tid r = t \<longrightarrow> \<not> cross_shard (fresh_setup nc sz) (req_txn r) \<Longrightarrow> untouched h t"
  shows "coord_inv nc sz h"
proof -
  have same: "tally h t' x L = tally g t' x L" "untouched h t' = untouched g t'" if "t' \<noteq> t" for t' x L
    using tally_cong [OF other(1) [OF that] node other(2-4) [OF that]] by simp_all
  have "\<exists>a b. leads nc sz (req_txn r) a b \<and> tally h (req_tid r) (req_txn r) {a, b}"
    if "r \<in> asked h" "cross_shard (fresh_setup nc sz) (req_txn r)" for r
    using this_one(1) [OF that(1) _ that(2)] coord that same(1) asked(1,2)
    by (cases "req_tid r = t") (auto simp: coord_inv_def)
  moreover have "untouched h t'"
    if "\<forall>r \<in> asked h. req_tid r = t' \<longrightarrow> \<not> cross_shard (fresh_setup nc sz) (req_txn r)" for t'
  proof (cases "t' = t")
    case True
    then show ?thesis using this_one(2) that by blast
  next
    case False
    then show ?thesis using coord that asked(1) unfolding coord_inv_def same(2) [OF False] by blast
  qed
  moreover have "\<forall>r \<in> asked h. req_ok r \<and> 0 < req_tid r"
    using coord asked(1,2) by (auto simp: coord_inv_def)
  ultimately show ?thesis
    using coord frame asked(3) unfolding coord_inv_def by (simp add: client_ok_def)
qed

lemma coord_inv_at:
  assumes "coord_inv nc sz g" and "client_consts (coord h) = client_consts (coord g)"
    and "client_stubs (coord h) = client_stubs (coord g)" and "asked h = asked g" and "node h = node g"
    and "\<And>t'. t' \<noteq> t \<Longrightarrow> processing (coord h) t' = processing (coord g) t'"
    and "\<And>t'. t' \<noteq> t \<Longrightarrow> committed h t' = committed g t'" and "\<And>t'. t' \<noteq> t \<Longrightarrow> aborted h t' = aborted g t'"
    and "\<And>t'. t' \<noteq> t \<Longrightarrow> voters t' h = voters t' g"
    and "\<And>r. r \<in> asked g \<Longrightarrow> req_tid r = t \<Longrightarrow> cross_shard (fresh_setup nc sz) (req_txn r) \<Longrightarrow>
        \<exists>a b. leads nc sz (req_txn r) a b \<and> tally h t (req_txn r) {a, b}"
    and "\<forall>r \<in> asked g. req_tid r = t \<longrightarrow> \<not> cross_shard (fresh_setup nc sz) (req_txn r) \<Longrightarrow> untouched h t"
  shows "coord_inv nc sz h"
  by (rule coord_inv_new [where R = "{}" and t = t, OF assms(1-3,5)])
    (use assms in \<open>simp_all add: coord_inv_def\<close>)

section \<open>Sending a transaction\<close>

lemma tally_liveI:
  assumes "processing (coord g) t = Some p" and "tp_txn p = x" and "\<not> committed g t" and "\<not> aborted g t"
    and "finite Y" and "finite Z" and "successes p = int (card Y)" and "failures p = int (card Z)"
    and "\<forall>i \<in> Y. prepared (node g i) t" and "voters t g + mset_set Y + mset_set Z \<subseteq># mset_set L"
  shows "tally g t x L"
  unfolding tally_def assms(1) option.case using assms(2-) by blast

lemma submit_one:
  assumes "leaders_ok c lds x"
  shows "processTransactions [(x, now)] lds c =
    Inr (if cross_shard (client_consts c) x
         then c\<lparr>processing := (processing c)(now \<mapsto> \<lparr>tp_txn = x, successes = 0, failures = 0\<rparr>)\<rparr> else c,
         messages_for c lds (x, now))"
  using assms leader_in_stubs [OF assms, of "sender x"] leader_in_stubs [OF assms, of "receiver x"]
  by (auto simp: cross_shard_def messages_for_def sendTransfer_def tpcPrepare_def via_def leader_of_def Let_def)

lemma messages_for_requests:
  "\<Union> (requests_in ` set (messages_for c lds (x, now))) = {\<lparr>req_txn = x, req_tid = now\<rparr>}"
  by (auto simp: messages_for_def Let_def)

lemma messages_for_decides [simp]:
  "SendTpcCommit n t \<notin> set (messages_for c lds tn)" "SendTpcAbort n t \<notin> set (messages_for c lds tn)"
  by (simp_all add: messages_for_def Let_def)

text \<open>The state after a submission, field by field.\<close>

lemma submit_effect:
  assumes inv: "sys_inv nc sz g" and ok: "submission_ok g lds x now"
    and eq: "processTransactions [(x, now)] lds (coord g) = Inr (c, ms)"
  defines "h \<equiv> client_sends ms (g\<lparr>coord := c\<rparr>)" and "r \<equiv> \<lparr>req_txn = x, req_tid = now\<rparr>"
    and "cross \<equiv> cross_shard (fresh_setup nc sz) x"
  obtains a b where "setup_ok nc sz \<Longrightarrow> leads nc sz x a b"
    and "net h = net g @ (if cross then [Serving True a r no_TransferRes, Serving True b r no_TransferRes]
                          else [Serving False a r no_TransferRes])"
    and "asked h = insert r (asked g)" and "node h = node g" and "set (sent g) \<subseteq> set (sent h)"
    and "\<And>t. committed h t = committed g t" and "\<And>t. aborted h t = aborted g t"
    and "client_consts (coord h) = client_consts (coord g)" and "client_stubs (coord h) = client_stubs (coord g)"
    and "\<And>t. processing (coord h) t = (if cross \<and> t = now
           then Some \<lparr>tp_txn = x, successes = 0, failures = 0\<rparr> else processing (coord g) t)"
proof -
  have cs: "client_consts (coord g) = fresh_setup nc sz"
    using inv by (simp add: sys_inv_def coord_inv_def)
  have fit: "leaders_fit (coord g) lds x" using ok by (simp add: submission_ok_def)
  then have "leaders_ok (coord g) lds x" by (simp add: leaders_fit_def)
  from submit_one [OF this, of now] have ms: "ms = messages_for (coord g) lds (x, now)"
    and c: "c = (if cross then (coord g)\<lparr>processing := (processing (coord g))
                   (now \<mapsto> \<lparr>tp_txn = x, successes = 0, failures = 0\<rparr>)\<rparr> else coord g)"
    using eq by (simp_all add: cs cross_def)
  obtain a b where ab: "map_of (server_ids (fresh_setup nc sz)) (leader_of (coord g) lds (sender x)) = Some a"
      "cluster_of nc sz a = shard_of nc sz (sender x)"
      "map_of (server_ids (fresh_setup nc sz)) (leader_of (coord g) lds (receiver x)) = Some b"
      "cluster_of nc sz b = shard_of nc sz (receiver x)"
    using fit by (auto simp: leaders_fit_def cs)
  show thesis
  proof (rule that [of a b])
    show "leads nc sz x a b" if "setup_ok nc sz"
      using server_number(1) [OF that] ab by (auto simp: leads_def)
    have "client_consts c = fresh_setup nc sz" by (simp add: c cs)
    then show "net h = net g @ (if cross then [Serving True a r no_TransferRes, Serving True b r no_TransferRes]
        else [Serving False a r no_TransferRes])"
      using ab by (simp add: h_def ms messages_for_def cs cross_def [symmetric] r_def [symmetric] to_server_def)
    show "asked h = insert r (asked g)"
      using messages_for_requests [of "coord g" lds x now] by (auto simp: asked_def h_def ms r_def)
  qed (auto simp: h_def c committed_def aborted_def ms)
qed

lemma submit_votes:
  assumes "net h = net g @ (if cross then [Serving True a r q, Serving True b r q] else [Serving False a r q])"
  shows "voters t h = voters t g + (if cross \<and> t = req_tid r then {#a, b#} else {#})"
  by (auto simp: voters_def assms)

lemma submit_inv:
  assumes su: "setup_ok nc sz" and inv: "sys_inv nc sz g" and ok: "submission_ok g lds x now"
    and eq: "processTransactions [(x, now)] lds (coord g) = Inr (c, ms)"
  shows "sys_inv nc sz (client_sends ms (g\<lparr>coord := c\<rparr>))"
proof -
  let ?h = "client_sends ms (g\<lparr>coord := c\<rparr>)" let ?r = "\<lparr>req_txn = x, req_tid = now\<rparr>"
  let ?cross = "\<lambda>r. cross_shard (fresh_setup nc sz) (req_txn r)"
  obtain a b where leads: "leads nc sz x a b"
    and net: "net ?h = net g @ (if ?cross ?r then [Serving True a ?r no_TransferRes, Serving True b ?r no_TransferRes]
        else [Serving False a ?r no_TransferRes])"
    and asked: "asked ?h = insert ?r (asked g)" and node: "node ?h = node g"
    and sent: "set (sent g) \<subseteq> set (sent ?h)"
    and dec: "\<And>t. committed ?h t = committed g t" "\<And>t. aborted ?h t = aborted g t"
    and frame: "client_consts (coord ?h) = client_consts (coord g)" "client_stubs (coord ?h) = client_stubs (coord g)"
    and proc: "\<And>t. processing (coord ?h) t = (if ?cross ?r \<and> t = now
           then Some \<lparr>tp_txn = x, successes = 0, failures = 0\<rparr> else processing (coord g) t)"
    using submit_effect [OF inv ok eq] su by (metis (no_types, lifting) TransferReq.select_convs(1))
  note votes = submit_votes [OF net]
  have coord: "coord_inv nc sz g" using inv by (simp add: sys_inv_def)
  have fresh: "\<forall>r \<in> asked g. req_tid r \<noteq> now" using ok by (simp add: submission_ok_def)
  then have un: "untouched g now" using coord unfolding coord_inv_def by blast
  have "coord_inv nc sz ?h"
  proof (rule coord_inv_new [OF coord frame node, where R = "{?r}" and t = now])
    show "inj_on req_tid (asked ?h)" using coord fresh by (auto simp: asked coord_inv_def)
    show "req_ok r \<and> 0 < req_tid r \<and> req_tid r = now" if "r \<in> {?r}" for r
      using that ok by (auto simp: submission_ok_def req_ok_def)
  next
    fix r assume "r \<in> asked ?h" "req_tid r = now" and cross: "?cross r"
    then have r: "r = ?r" using fresh by (auto simp: asked)
    have "a \<noteq> b" using cross leads by (auto simp: r leads_def cross_shard_def)
    moreover have "voters now g = {#}" using un by (simp add: untouched_def)
    ultimately have "voters now ?h + mset_set {} + mset_set {} \<subseteq># mset_set {a, b}"
      using cross by (simp add: votes r)
    then have "tally ?h now x {a, b}"
      using cross un dec proc [of now]
      by (intro tally_liveI [where Y = "{}" and Z = "{}"]) (auto simp: untouched_def r)
    then show "\<exists>a b. leads nc sz (req_txn r) a b \<and> tally ?h now (req_txn r) {a, b}" using leads by (auto simp: r)
  next
    assume "\<forall>r \<in> asked ?h. req_tid r = now \<longrightarrow> \<not> ?cross r"
    then have "\<not> ?cross ?r" by (simp add: asked)
    then have "processing (coord ?h) now = processing (coord g) now" "voters now ?h = voters now g"
      unfolding proc votes by simp_all
    from tally_cong(2) [OF this(1) node dec this(2)] show "untouched ?h now" using un by simp
  next
    show "processing (coord ?h) t = processing (coord g) t" if "t \<noteq> now" for t
      unfolding proc using that by simp
  qed (simp_all add: asked dec votes)
  moreover have "packet_ok nc sz ?h p" if "p \<in> set (net ?h)" "p \<notin> set (net g)" for p
    using that leads unfolding net by (auto simp: asked leads_def split: if_splits)
  ultimately show ?thesis by (intro client_step [OF inv node sent]) blast+
qed

section \<open>Counting a vote\<close>

lemma vote_counts:
  assumes sub: "V + mset_set Y + mset_set Z \<subseteq># mset_set L" and fin: "finite Y" "finite Z" "finite L"
    and i: "i \<in># V" and L: "card L \<le> 2"
  shows "i \<notin> Y" and "i \<notin> Z" and "card Y + card Z < 2"
    and "V - {#i#} + mset_set (insert i Y) + mset_set Z \<subseteq># mset_set L"
    and "V - {#i#} + mset_set Y + mset_set (insert i Z) \<subseteq># mset_set L"
    and "card Y + card Z = 1 \<Longrightarrow> V - {#i#} = {#}"
    and "card Y = 1 \<Longrightarrow> L = insert i Y"
proof -
  obtain V' where V: "V = add_mset i V'" using multi_member_split [OF i] by blast
  have le: "count (V + mset_set Y + mset_set Z) k \<le> count (mset_set L) k" for k
    using sub by (simp add: subseteq_mset_def)
  have "count (mset_set L) i \<le> 1" by (cases "i \<in> L") (use fin in auto)
  with le [of i] have zero: "count V' i = 0" "count (mset_set Y) i = 0" "count (mset_set Z) i = 0"
    by (simp_all add: V)
  then show iY: "i \<notin> Y" and iZ: "i \<notin> Z" using fin by (auto simp: count_mset_set')
  have "size (V + mset_set Y + mset_set Z) \<le> size (mset_set L)" by (rule size_mset_mono [OF sub])
  then have size: "Suc (size V') + card Y + card Z \<le> 2" using L by (simp add: V)
  then show "card Y + card Z < 2" by simp
  show "V - {#i#} = {#}" if "card Y + card Z = 1"
  proof -
    have "size V' = 0" using size that by linarith
    then show ?thesis by (simp add: V)
  qed
  show "V - {#i#} + mset_set (insert i Y) + mset_set Z \<subseteq># mset_set L"
    "V - {#i#} + mset_set Y + mset_set (insert i Z) \<subseteq># mset_set L"
    using sub fin iY iZ by (simp_all add: V add.assoc)
  show "L = insert i Y" if "card Y = 1"
  proof (rule card_seteq [symmetric])
    have "k \<in> L" if "k \<in> insert i Y" for k
      using le [of k] that fin by (auto simp: V count_mset_set' split: if_splits)
    then show "insert i Y \<subseteq> L" by blast
    show "card L \<le> card (insert i Y)" using that L iY fin by simp
  qed (use fin in simp)
qed

lemma decision_packets:
  assumes "setup_ok nc sz"
    and "p \<in> set (concat (map (packets_of (fresh_setup nc sz)) (map (\<lambda>n. if y then SendTpcCommit n t else SendTpcAbort n t) ns)))"
  shows "\<exists>i \<in> members nc sz. p = Decision y i t"
  using assms(2) to_server_members [OF assms(1)] by (cases y) fastforce+

lemma decision_no_votes:
  "List.map_filter (vote_of t') (concat (map (packets_of cs) (map (\<lambda>n. if y then SendTpcCommit n t else SendTpcAbort n t) ns))) = []"
  by (induction ns) (auto simp: to_server_def split: option.split)

lemma decided_sent:
  assumes "sent h = sent g @ map (\<lambda>n. if y then SendTpcCommit n t else SendTpcAbort n t) ns"
  shows "committed h t' \<longleftrightarrow> committed g t' \<or> y \<and> ns \<noteq> [] \<and> t' = t"
    and "aborted h t' \<longleftrightarrow> aborted g t' \<or> \<not> y \<and> ns \<noteq> [] \<and> t' = t"
    and "asked h = asked g"
  by (cases ns; auto simp: committed_def aborted_def asked_def assms split: if_splits)+

text \<open>Whatever call comes back, the client sends nothing or one decision on its transaction.\<close>

lemma consume_one_msgs:
  assumes "client_ok c"
  shows "\<exists>y ns. snd (consume_one call now c)
    = map (\<lambda>n. if y then SendTpcCommit n (res_tid (cc_reply call)) else SendTpcAbort n (res_tid (cc_reply call))) ns"
proof -
  let ?t = "res_tid (cc_reply call)"
  have ok: "client_ok (count_time d (c\<lparr>processing := m\<rparr>))" for d m using assms by (simp add: client_ok_def)
  have "snd (consume_one call now c) = [] \<or> (\<exists>ns. snd (consume_one call now c) = map (\<lambda>n. SendTpcCommit n ?t) ns)
    \<or> (\<exists>ns. snd (consume_one call now c) = map (\<lambda>n. SendTpcAbort n ?t) ns)"
    by (auto simp: consume_one_def Let_def decision_msgs [OF ok])
  then consider (none) "snd (consume_one call now c) = []"
    | (commit) ns where "snd (consume_one call now c) = map (\<lambda>n. SendTpcCommit n ?t) ns"
    | (abort) ns where "snd (consume_one call now c) = map (\<lambda>n. SendTpcAbort n ?t) ns" by blast
  then show ?thesis
  proof cases
    case none then show ?thesis by simp
  next
    case (commit ns) then show ?thesis by (intro exI [of _ True] exI [of _ ns]) simp
  next
    case (abort ns) then show ?thesis by (intro exI [of _ False] exI [of _ ns]) simp
  qed
qed

text \<open>A vote on a transaction leaves a tally: the first is counted, the second decides.\<close>

lemma first_vote:
  assumes YZ: "finite Y" "finite Z" "successes p = int (card Y)" "failures p = int (card Z)"
      "\<forall>i \<in> Y. prepared (node g i) t"
    and sub: "voters t g + mset_set Y + mset_set Z \<subseteq># mset_set L" and L: "finite L" "card L \<le> 2"
    and i: "i \<in># voters t g" and ack: "ack \<Longrightarrow> prepared (node g i) t"
    and h: "processing (coord h) t = Some (counted ack p)" "node h = node g" "\<not> committed h t" "\<not> aborted h t"
      "voters t h = voters t g - {#i#}"
  shows "tally h t (tp_txn p) L"
proof -
  note counts = vote_counts [OF sub YZ(1,2) L(1) i L(2)]
  let ?Y = "if ack then insert i Y else Y" let ?Z = "if ack then Z else insert i Z"
  have "voters t h + mset_set ?Y + mset_set ?Z \<subseteq># mset_set L" using counts(4,5) h(5) by simp
  moreover have "successes (counted ack p) = int (card ?Y)" "failures (counted ack p) = int (card ?Z)"
    "tp_txn (counted ack p) = tp_txn p"
    using YZ counts(1,2) by (simp_all add: counted_def)
  moreover have "\<forall>k \<in> ?Y. prepared (node h k) t" using YZ(5) ack h(2) by simp
  ultimately show ?thesis
    using h YZ(1,2) by (intro tally_liveI [of h t "counted ack p" _ ?Y ?Z]) simp_all
qed

lemma vote_effect:
  assumes client: "client_ok (coord g)" and tal: "tally g t x L" and L: "finite L" "card L \<le> 2"
    and i: "i \<in># voters t g" and ack: "res_ack res \<Longrightarrow> prepared (node g i) t" and t: "res_tid res = t"
    and eq: "consume_one \<lparr>cc_status = StatusOK, cc_type = TPC_PREPARE, cc_reply = res\<rparr> now (coord g) = (c, ms)"
    and h: "coord h = c" "node h = node g" "sent h = sent g @ ms" "voters t h = voters t g - {#i#}"
  shows "tally h t x L"
proof -
  let ?call = "\<lparr>cc_status = StatusOK, cc_type = TPC_PREPARE, cc_reply = res\<rparr>"
  have vote: "vote_on t (?call, True, now)" "yes (?call, True, now) = res_ack res"
    using t by (simp_all add: vote_on_def yes_def)
  obtain p where p: "processing (coord g) t = Some p"
    using tal i by (cases "processing (coord g) t") (auto simp: tally_def)
  then obtain Y Z where x: "tp_txn p = x" and no: "\<not> committed g t" "\<not> aborted g t"
    and YZ: "finite Y" "finite Z" "successes p = int (card Y)" "failures p = int (card Z)"
      "\<forall>i \<in> Y. prepared (node g i) t" and sub: "voters t g + mset_set Y + mset_set Z \<subseteq># mset_set L"
    using tal by (auto simp: tally_def)
  note counts = vote_counts [OF sub YZ(1,2) L(1) i L(2)]
  have "successes p + failures p < 2" using counts(3) YZ(3,4) by simp
  note consume = consume_one_vote [OF vote(1) p client _ _ this, unfolded eq vote(2)]
  have "card Y + card Z = 0 \<or> card Y + card Z = 1" using counts(3) by linarith
  then show ?thesis
  proof
    assume none: "card Y + card Z = 0"
    then have "processing (coord h) t = Some (counted (res_ack res) p)" "ms = []"
      using consume(1) YZ(3,4) by (auto simp: h(1))
    then show ?thesis
      using first_vote [OF YZ sub L i ack _ h(2) _ _ h(4)] no h(3) x by (auto simp: committed_def aborted_def)
  next
    assume one: "card Y + card Z = 1"
    define y where "y \<longleftrightarrow> successes p = 1 \<and> res_ack res"
    from one obtain ns where c: "processing c t = None"
      and ms: "ms = map (\<lambda>n. if y then SendTpcCommit n t else SendTpcAbort n t) ns"
      using consume(2) YZ(3,4) unfolding y_def by auto
    note dec = decided_sent [OF h(3) [unfolded ms]]
    have "L = insert i Y" if y using counts(7) YZ(3) that by (simp add: y_def)
    then have "\<forall>k \<in> L. prepared (node h k) t" if y using YZ(5) ack that h(2) by (simp add: y_def)
    then show ?thesis using counts(6) [OF one] no dec c h(1,4) by (auto simp: tally_def)
  qed
qed

lemma consume_transfer:
  "processing (fst (consume_one \<lparr>cc_status = st, cc_type = TRANSFER, cc_reply = res\<rparr> now c)) = processing c
   \<and> snd (consume_one \<lparr>cc_status = st, cc_type = TRANSFER, cc_reply = res\<rparr> now c) = []"
  by (simp add: consume_one_def)

lemma deliver_transfer_answer:
  assumes inv: "sys_inv nc sz g" and p: "TransferAnswer False i res \<in> set (net g)" (is "?p \<in> _")
  shows "sys_inv nc sz (deliver u now ?p (g\<lparr>net := remove1 ?p (net g)\<rparr>))"
proof -
  let ?c = "consume_one \<lparr>cc_status = StatusOK, cc_type = TRANSFER, cc_reply = res\<rparr> now (coord g)"
  let ?h = "client_sends [] (g\<lparr>net := remove1 ?p (net g), coord := fst ?c\<rparr>)"
  have "voters t ?h = voters t g" for t
    using map_filter_remove1 [OF p, of "vote_of t"] by (simp add: voters_def)
  then have "coord_inv nc sz ?h"
    using inv consume_transfer [of StatusOK res now "coord g"] consume_one_frame
    by (intro coord_inv_cong [of nc sz g ?h]) (auto simp: sys_inv_def asked_def committed_def aborted_def)
  then have "sys_inv nc sz ?h"
    by (intro client_step [OF inv]) (auto dest: notin_set_remove1 in_set_remove1 [THEN iffD1] set_remove1_subset [THEN subsetD])
  then show ?thesis
    using consume_transfer [of StatusOK res now "coord g"] by (simp add: client_reply_def split_beta)
qed

text \<open>The history of the client backs the packets of a decision.\<close>

lemma decision_step:
  assumes su: "setup_ok nc sz" and inv: "sys_inv nc sz g" and coord: "coord_inv nc sz h"
    and h: "node h = node g" "sent h = sent g @ ms"
      "set (net h) \<subseteq> set (net g) \<union> set (concat (map (packets_of (fresh_setup nc sz)) ms))"
    and ms: "ms = map (\<lambda>n. if y then SendTpcCommit n t else SendTpcAbort n t) ns"
  shows "sys_inv nc sz h"
proof (rule client_step [OF inv h(1) _ coord])
  show "set (sent g) \<subseteq> set (sent h)" by (simp add: h(2))
  fix q assume q: "q \<in> set (net h)"
  show "q \<in> set (net g) \<or> packet_ok nc sz h q"
  proof (cases "q \<in> set (net g)")
    case False
    then have new: "q \<in> set (concat (map (packets_of (fresh_setup nc sz)) ms))" using q h(3) by blast
    from decision_packets [OF su new [unfolded ms]] obtain k where "k \<in> members nc sz" "q = Decision y k t"
      by blast
    moreover have "ns \<noteq> []" using new by (auto simp: ms)
    ultimately show ?thesis using decided_sent(1,2) [OF h(2) [unfolded ms]] by simp
  qed simp
qed

lemma deliver_vote:
  assumes su: "setup_ok nc sz" and inv: "sys_inv nc sz g"
    and p: "TransferAnswer True i res \<in> set (net g)" (is "?p \<in> _")
  shows "sys_inv nc sz (deliver u now ?p (g\<lparr>net := remove1 ?p (net g)\<rparr>))"
proof -
  let ?call = "\<lparr>cc_status = StatusOK, cc_type = TPC_PREPARE, cc_reply = res\<rparr>" let ?t = "res_tid res"
  have coord: "coord_inv nc sz g" using inv by (simp add: sys_inv_def)
  then have client: "client_ok (coord g)" "client_consts (coord g) = fresh_setup nc sz" by (simp_all add: coord_inv_def)
  have "packet_ok nc sz g ?p" using inv p unfolding sys_inv_def by blast
  then obtain r where r: "r \<in> asked g" "req_tid r = ?t" "cross_shard (fresh_setup nc sz) (req_txn r)"
    and ack: "res_ack res \<Longrightarrow> prepared (node g i) ?t" by auto
  obtain a b where ab: "leads nc sz (req_txn r) a b" "tally g ?t (req_txn r) {a, b}"
    using coord r by (auto simp: coord_inv_def)
  obtain c ms where eq: "consume_one ?call now (coord g) = (c, ms)" by fastforce
  obtain y ns where ms: "ms = map (\<lambda>n. if y then SendTpcCommit n ?t else SendTpcAbort n ?t) ns"
    using consume_one_msgs [OF client(1), of ?call now, unfolded eq snd_conv ClientCall.simps] by blast
  have frame: "client_consts c = client_consts (coord g)" "client_stubs c = client_stubs (coord g)"
    using consume_one_frame [of ?call now "coord g"] by (simp_all add: eq)
  define h where "h = client_sends ms (g\<lparr>net := remove1 ?p (net g), coord := c\<rparr>)"
  have h: "coord h = c" "node h = node g" "sent h = sent g @ ms" by (simp_all add: h_def)
  note dec = decided_sent [OF h(3) [unfolded ms]]
  have votes: "voters t g = (if t = ?t then {#i#} else {#}) + voters t h" for t
    using map_filter_remove1 [OF p, of "vote_of t"]
    by (auto simp: voters_def h_def ms decision_no_votes simp del: map_map)
  have "finite {a, b}" "card {a, b} \<le> 2" by (simp_all add: card_insert_if)
  then have tally: "tally h ?t (req_txn r) {a, b}"
    by (rule vote_effect [OF client(1) ab(2) _ _ _ ack refl eq h]) (simp_all add: votes)
  have "coord_inv nc sz h"
  proof (rule coord_inv_at [OF coord _ _ dec(3) h(2), where t = ?t])
    fix q assume "q \<in> asked g" "req_tid q = ?t"
    then have "q = r" using coord r(1,2) by (metis coord_inv_def inj_onD)
    then show "\<exists>a b. leads nc sz (req_txn q) a b \<and> tally h ?t (req_txn q) {a, b}" using ab(1) tally by blast
  next
    fix t assume t: "t \<noteq> ?t"
    then have "\<not> vote_on t (?call, True, now)" by (simp add: vote_on_def)
    then show "processing (coord h) t = processing (coord g) t"
      using consume_one_other(1) [of t ?call True now "coord g"] by (simp add: eq h)
    show "voters t h = voters t g" using votes [of t] t by simp
  qed (use r dec in \<open>auto simp: h frame\<close>)
  then have "sys_inv nc sz h"
    by (rule decision_step [OF su inv _ h(2,3) _ ms])
      (use set_remove1_subset [of ?p "net g"] in \<open>auto simp: h_def frame client\<close>)
  then show ?thesis by (simp add: client_reply_def eq h_def)
qed

section \<open>Lost calls, lost packets and disconnection\<close>

text \<open>
  A failed prepare call is counted under the identifier of its empty reply. No transaction has
  that identifier, and the abort that two such failures lead to reaches no server.
\<close>

lemma consume_failure:
  assumes "st \<noteq> StatusOK" and "client_ok c" and "client_consts c = fresh_setup nc sz" and "setup_ok nc sz"
    and "\<And>p. processing c 0 = Some p \<Longrightarrow> tp_txn p = no_txn \<and> successes p = 0"
    and eq: "consume_one \<lparr>cc_status = st, cc_type = TPC_PREPARE, cc_reply = no_TransferRes\<rparr> now c = (c', ms)"
  shows "ms = []" and "processing c' 0 = Some p \<Longrightarrow> tp_txn p = no_txn \<and> successes p = 0"
proof -
  have p: "tp_txn (processing_at c 0) = no_txn" "successes (processing_at c 0) = 0"
    using assms(5) by (auto simp: processing_at_def split: option.split)
  have "client_ok (count_time d (c\<lparr>processing := m\<rparr>))"
    "client_consts (count_time d (c\<lparr>processing := m\<rparr>)) = fresh_setup nc sz" for d m
    using assms(2,3) by (simp_all add: client_ok_def)
  moreover have "shard_of nc sz 0 = 0" by (simp add: client_cluster_eq)
  ultimately have "tpcAbort 0 0 0 (count_time d (c\<lparr>processing := m\<rparr>)) = []" for d m
    by (simp add: decision_msgs no_servers_of_zero [OF assms(4)])
  then show "ms = []" "processing c' 0 = Some p \<Longrightarrow> tp_txn p = no_txn \<and> successes p = 0"
    using eq p assms(1,3) \<open>shard_of nc sz 0 = 0\<close>
    by (auto simp: consume_one_def no_TransferRes_def no_txn_def Let_def split: if_splits)
qed

lemma call_failed_inv:
  assumes su: "setup_ok nc sz" and inv: "sys_inv nc sz g" and st: "st \<noteq> StatusOK"
  shows "sys_inv nc sz (client_reply st x no_TransferRes now g)"
proof (cases x)
  case False
  then have "client_reply st x no_TransferRes now g = g"
    using st by (simp add: client_reply_def consume_one_def client_sends_def)
  then show ?thesis using inv by simp
next
  case True
  let ?call = "\<lparr>cc_status = st, cc_type = TPC_PREPARE, cc_reply = no_TransferRes\<rparr>"
  have coord: "coord_inv nc sz g" using inv by (simp add: sys_inv_def)
  have zero: "untouched g 0"
    using coord unfolding coord_inv_def by (metis less_irrefl)
  obtain c ms where eq: "consume_one ?call now (coord g) = (c, ms)" by fastforce
  have client: "client_ok (coord g)" "client_consts (coord g) = fresh_setup nc sz"
    using coord by (simp_all add: coord_inv_def)
  have "tp_txn p = no_txn \<and> successes p = 0" if "processing (coord g) 0 = Some p" for p
    using zero that unfolding untouched_def by blast
  note failure = consume_failure [OF st client su this eq]
  let ?h = "client_sends [] (g\<lparr>coord := c\<rparr>)"
  have "coord_inv nc sz ?h"
  proof (rule coord_inv_at [OF coord, where t = 0])
    have c: "coord ?h = c" and same: "voters 0 ?h = voters 0 g" "committed ?h = committed g" "aborted ?h = aborted g"
      by (simp_all add: voters_def committed_def aborted_def fun_eq_iff)
    show "untouched ?h 0" using zero failure(2) unfolding untouched_def same c by blast
    fix t :: int assume "t \<noteq> 0"
    then have "\<not> vote_on t (?call, True, now)" by (simp add: vote_on_def no_TransferRes_def)
    then show "processing (coord ?h) t = processing (coord g) t"
      using consume_one_other(1) [of t ?call True now "coord g"] by (simp add: eq)
  next
    fix r assume "r \<in> asked g" "req_tid r = 0"
    then show "\<exists>a b. leads nc sz (req_txn r) a b \<and> tally ?h 0 (req_txn r) {a, b}"
      using coord by (force simp: coord_inv_def)
  qed (use consume_one_frame [of ?call now "coord g"]
        in \<open>auto simp: eq committed_def aborted_def asked_def voters_def\<close>)
  then have "sys_inv nc sz ?h" by (intro client_step [OF inv]) auto
  then show ?thesis using True failure(1) by (simp add: client_reply_def eq)
qed

lemma lose_inv:
  assumes "sys_inv nc sz g" and "p \<in> set (net g)"
  shows "sys_inv nc sz (g\<lparr>net := remove1 p (net g)\<rparr>)"
proof -
  let ?h = "g\<lparr>net := remove1 p (net g)\<rparr>"
  have "voters t ?h \<subseteq># voters t g" for t
    using map_filter_remove1 [OF assms(2), of "vote_of t"] by (simp add: voters_def)
  then have "coord_inv nc sz ?h"
    using assms(1) by (intro coord_inv_mono [of g ?h]) (simp_all add: later_def sys_inv_def)
  then show ?thesis
    using set_remove1_subset [of p "net g"] by (intro client_step [OF assms(1)]) auto
qed

lemma disconnect_inv:
  assumes su: "setup_ok nc sz" and inv: "sys_inv nc sz g"
  shows "sys_inv nc sz (client_sends (updateDisconnected names (coord g)) g)" (is "sys_inv nc sz ?h")
proof -
  have cs: "client_consts (coord g) = fresh_setup nc sz" using inv by (simp add: sys_inv_def coord_inv_def)
  have none: "List.map_filter (vote_of t) (concat (map (packets_of cs) (map (\<lambda>s. SendDisconnect s names) ns))) = []"
    for t cs ns by (induction ns) (auto simp: to_server_def split: option.split)
  have "voters t ?h = voters t g" for t
    unfolding voters_def updateDisconnected_def client_sends_simps map_filter_append none by simp
  then have "coord_inv nc sz ?h"
    using inv by (intro coord_inv_cong [of nc sz g ?h])
      (auto simp: sys_inv_def asked_def committed_def aborted_def updateDisconnected_def)
  moreover have "packet_ok nc sz ?h p" if "p \<in> set (net ?h)" "p \<notin> set (net g)" for p
    using that to_server_members [OF su] by (fastforce simp: updateDisconnected_def cs)
  ultimately show ?thesis by (intro client_step [OF inv]) auto
qed

end
