(* ===== verification/Tpc_Network_Main.thy ===== *)
theory Tpc_Network_Main
  imports Tpc_Network_Client
begin

text \<open>
  The invariant of the whole system holds in every state that the system can reach.
\<close>

section \<open>Reachable states\<close>

lemma silent_failure:
  assumes inv: "sys_inv nc sz g" and step: "server_step (node g i) s'" and data: "same_data (node g i) s'"
    and keeps: "keeps_round no_TransferReq (node g i) s'"
  shows "sys_inv nc sz (node_does i s' [] g)"
proof (cases "i \<in> members nc sz")
  case True
  note quiet = node_inv_quiet [OF inv_node(1) [OF inv True] step data keeps]
  show ?thesis
    using quiet(2) by (intro node_step [OF inv quiet(1), where ns = "net g" and es = "[]"]) (auto simp: voters_def)
next
  case False
  have log: "log s' = log (node g i)" using data by (simp add: same_data_def)
  let ?h = "node_does i s' [] g"
  have later: "later g ?h" using log by (auto simp: later_def node_does_def)
  have "coord_inv nc sz ?h"
    using inv by (intro coord_inv_mono [OF later]) (simp_all add: node_does_def voters_def sys_inv_def)
  moreover have "node_inv nc sz ?h j (node ?h j)" if "j \<in> members nc sz" for j
    using that False inv later_node_good [OF later] by (auto simp: node_does_def sys_inv_def node_inv_def)
  moreover have "packet_ok nc sz ?h p" if "p \<in> set (net ?h)" for p
    using that later_packet [OF later] inv by (auto simp: node_does_def sys_inv_def)
  ultimately show ?thesis by (simp add: sys_inv_def)
qed

lemma sync_failure_data:
  "st \<noteq> StatusOK \<Longrightarrow> same_data s (handleSyncReply st res s)"
  by (simp add: handleSyncReply_def same_data_def)

lemma deliver_inv:
  assumes "setup_ok nc sz" and "sys_inv nc sz g" and "p \<in> set (net g)"
  shows "sys_inv nc sz (deliver u now p (g\<lparr>net := remove1 p (net g)\<rparr>))"
proof (cases p)
  case (Peer j m)
  show ?thesis
  proof (cases m)
    case (NullStub i)
    then have "packet_ok nc sz g p" using assms(2,3) unfolding sys_inv_def by blast
    then show ?thesis using Peer NullStub by simp
  qed (use assms Peer deliver_prepare deliver_accept deliver_commit deliver_sync in auto)
next
  case (TransferAnswer x i res)
  then show ?thesis
    using assms deliver_transfer_answer deliver_vote by (cases x) auto
qed (use assms deliver_prepare_answer deliver_accept_answer deliver_sync_answer deliver_serving
    deliver_decision deliver_disconnection in auto)

lemma sys_step_inv:
  assumes "setup_ok nc sz" and "sys_step g h" and "sys_inv nc sz g"
  shows "sys_inv nc sz h"
  using assms(2)
proof cases
  case (submit lds x now c ms)
  then show ?thesis using submit_inv assms(1,3) by blast
next
  case (disconnect names)
  then show ?thesis using disconnect_inv assms(1,3) by blast
next
  case (deliver p u now)
  then show ?thesis using deliver_inv assms(1,3) by blast
next
  case (lose p)
  then show ?thesis using lose_inv assms(3) by blast
next
  case (prepare_failed st i q)
  then show ?thesis
    using silent_failure [OF assms(3) server_step.prepare_reply handlePrepareReply_data keeps_prepare_reply] by blast
next
  case (accept_failed st i q)
  then show ?thesis
    using silent_failure [OF assms(3) server_step.accept_reply handleAcceptReply_data keeps_accept_reply] by blast
next
  case (sync_failed st i)
  have "server_step (node g i) (handleSyncReply st no_SyncRes (node g i))"
    by (rule server_step.sync_reply) (simp add: no_SyncRes_def)
  then show ?thesis
    using silent_failure [OF assms(3) _ sync_failure_data keeps_sync] sync_failed by blast
next
  case (call_failed st x now)
  then show ?thesis using call_failed_inv assms(1,3) by blast
next
  case (query i c)
  then show ?thesis
    using silent_failure [OF assms(3) server_step.balance processGetBalanceCall_data keeps_balance] by blast
qed

definition deployment_ok :: "int \<Rightarrow> int \<Rightarrow> (int \<Rightarrow> disk_file) \<Rightarrow> bool" where
  "deployment_ok nc sz f \<longleftrightarrow> setup_ok nc sz \<and> nc \<le> 700000 \<and> files_ok f"

lemma start_node:
  assumes "deployment_ok nc sz f" and "i \<in> members nc sz"
  shows "node_inv nc sz (sys_start nc sz f v) i (started (fresh_setup nc sz) i name (f i) n)"
proof -
  let ?s = "started (fresh_setup nc sz) i name (f i) n"
  have su: "setup_ok nc sz" using assms(1) by (simp add: deployment_ok_def)
  have i: "1 \<le> i" "i \<le> nc * sz" using assms(2) by (simp_all add: members_def)
  have "start_ok (fresh_setup nc sz) i (f i)"
    using assms server_number(2) [OF su assms(2)] setup_total(3) [OF su i]
    by (simp add: start_ok_def config_ok_def deployment_ok_def files_ok_def setup_ok_def)
  then have "server_ok (start_balance nc sz i) ?s" by (rule started_ok)
  moreover have "set (stubs ?s) = {j. peers nc sz i j}"
  proof -
    have "set (stubs ?s) = block sz (cluster_of nc sz i) - {i}" using stubs_of_member [OF su i] by simp
    also have "\<dots> = {j. peers nc sz i j}"
    proof (intro set_eqI iffI)
      fix j assume j: "j \<in> block sz (cluster_of nc sz i) - {i}"
      have k: "1 \<le> cluster_of nc sz i" using server_number(2) [OF su assms(2)] by simp
      have "i \<in> block sz (cluster_of nc sz i)" using server_in_block [OF su i] by blast
      then have "(cluster_of nc sz i - 1) * sz < nc * sz" using i by (simp add: block_def)
      then have "cluster_of nc sz i \<le> nc" using su by (simp add: setup_ok_def mult_less_cancel_right)
      then have r: "1 \<le> j" "j \<le> nc * sz" using block_in_range [OF su k] j by blast+
      then have "cluster_of nc sz j = cluster_of nc sz i" using server_in_block [OF su r] j by blast
      then show "j \<in> {j. peers nc sz i j}"
        using j r assms(2) by (auto simp: peers_def members_def)
    next
      fix j assume "j \<in> {j. peers nc sz i j}"
      then show "j \<in> block sz (cluster_of nc sz i) - {i}"
        using server_in_block [OF su, of j] by (auto simp: peers_def members_def)
    qed
    finally show ?thesis .
  qed
  moreover have "accept_val ?s = no_TransferReq"
    using init_fold_frame(18) by (simp add: started_eq same_control_def ServerImpl_new_def resetDisconnectedState_def)
  ultimately show ?thesis
    by (simp add: node_inv_def node_static_def node_good_def) (simp add: started_eq pending_def WAL_init_def)
qed

lemma start_inv:
  assumes "deployment_ok nc sz f"
  shows "sys_inv nc sz (sys_start nc sz f v)"
proof -
  let ?g = "sys_start nc sz f v"
  have "asked ?g = {}" "voters t ?g = {#}" "\<not> committed ?g t" "\<not> aborted ?g t" for t
    by (simp_all add: sys_start_def asked_def voters_def committed_def aborted_def)
  moreover have "client_consts (coord ?g) = fresh_setup nc sz" "client_ok (coord ?g)"
    "processing (coord ?g) = Map.empty"
    by (simp_all add: sys_start_def Client_new_def client_ok_def)
  ultimately have "coord_inv nc sz ?g" by (simp add: coord_inv_def untouched_def)
  moreover have "node ?g i = started (fresh_setup nc sz) i (server_name_of i) (f i) (v i)" "net ?g = []" for i
    by (simp_all add: sys_start_def)
  ultimately show ?thesis using start_node [OF assms] by (simp add: sys_inv_def)
qed

lemma sys_run_inv:
  assumes "deployment_ok nc sz f" and "sys_run (sys_start nc sz f v) g"
  shows "sys_inv nc sz g"
proof -
  have "sys_run h g \<Longrightarrow> sys_inv nc sz h \<Longrightarrow> sys_inv nc sz g" for h
    by (induction rule: sys_run.induct) (use assms(1) sys_step_inv in \<open>auto simp: deployment_ok_def\<close>)
  then show ?thesis using assms(2) start_inv [OF assms(1)] by blast
qed

lemma reachable_entry:
  assumes "deployment_ok nc sz f" and "sys_run (sys_start nc sz f v) g" and "i \<in> members nc sz"
    and "e \<in> set (log (node g i))"
  shows "entry_good nc sz g e"
  using inv_node(5) [OF sys_run_inv [OF assms(1,2)] assms(3)] assms(4) by (simp add: node_good_def)

text \<open>The request that an entry belongs to, and the tally of a cross-shard one.\<close>

lemma entry_tally:
  assumes inv: "sys_inv nc sz g" and e: "entry_good nc sz g e" and x: "cross_shard (fresh_setup nc sz) (e_txn e)"
  obtains a b where "leads nc sz (e_txn e) a b" and "tally g (e_tid e) (e_txn e) {a, b}"
proof -
  obtain r where r: "r \<in> asked g" "req_tid r = e_tid e" "req_txn r = e_txn e" using e by (auto simp: entry_good_def)
  have "coord_inv nc sz g" using inv by (simp add: sys_inv_def)
  then obtain a b where "leads nc sz (req_txn r) a b \<and> tally g (req_tid r) (req_txn r) {a, b}"
    using r(1) x r(3) unfolding coord_inv_def by metis
  then show thesis using that [of a b] r by simp
qed

lemma tally_decided:
  assumes "tally g t x L"
  shows "\<not> (committed g t \<and> aborted g t)" and "committed g t \<Longrightarrow> \<forall>i \<in> L. prepared (node g i) t"
  using assms by (auto simp: tally_def split: option.splits)

end
