(* ===== verification/Tpc_Network_Live.thy ===== *)
theory Tpc_Network_Live
  imports Tpc_Network_Main
begin

text \<open>
  What the system can do: a transfer whose leader is idle and has one cooperating peer can be
  brought to a positive answer, in seven deliveries, and from every quiet state a cross-shard
  transaction can be committed at both of its leaders.
\<close>

section \<open>One round, handler by handler\<close>

definition ready_leader :: "TransferReq \<Rightarrow> ServerImpl \<Rightarrow> bool" where
  "ready_leader r s \<longleftrightarrow> \<not> in_sync s \<and> \<not> is_paxos_running s \<and> \<not> await_prepare_decision s
     \<and> \<not> await_accept_decision s \<and> \<not> conditions_fail s (req_txn r)"

definition ready_peer :: "ServerImpl \<Rightarrow> ServerImpl \<Rightarrow> bool" where
  "ready_peer s p \<longleftrightarrow> \<not> i_am_disconnected p \<and> ballot_num p < i32 (ballot_num s + 1)
     \<and> last_inserted p = last_inserted s"

definition next_ballot :: "ServerImpl \<Rightarrow> Ballot" where
  "next_ballot s = \<lparr>bal_num = i32 (ballot_num s + 1), bal_server_id = server_id s\<rparr>"

definition next_prepare :: "ServerImpl \<Rightarrow> PrepareReq" where
  "next_prepare s = \<lparr>pq_ballot = next_ballot s, pq_last_inserted = last_inserted s\<rparr>"

definition round_begun :: "TpcTid \<Rightarrow> ServerImpl \<Rightarrow> ServerImpl" where
  "round_begun t s = s\<lparr>is_paxos_running := True, paxos_tid := t, ballot_num := bal_num (next_ballot s),
     promised := True, promised_num := next_ballot s, await_prepare_decision := True,
     prepare_successes := 1, prepare_failures := 0\<rparr>"

lemma round_start:
  assumes "ready_leader r s"
  shows "runPaxos r res x s = (False, round_begun (req_tid r) s, res\<lparr>res_tid := req_tid r\<rparr>,
    map (\<lambda>i. SendPrepare i (next_prepare s)) (stubs s))"
  using assms
  by (simp add: runPaxos_starting free_for_def ready_leader_def start_round_def round_begun_def
    next_ballot_def next_prepare_def Let_def)

definition promise_to :: "ServerImpl \<Rightarrow> ServerImpl \<Rightarrow> ServerImpl" where
  "promise_to s p = p\<lparr>promised := True, promised_num := next_ballot s, ballot_num := bal_num (next_ballot s)\<rparr>"

lemma round_promise:
  assumes "ready_peer s p"
  obtains res where "processPrepareCall (next_prepare s) no_PrepareRes p = (promise_to s p, res, [])"
    and "can_accept (next_ballot s) (promise_to s p)" and "pr_ack res" and "pr_ballot res = next_ballot s"
    and "pr_latest_ballot_num res = None" and "pr_last_inserted res = None"
proof -
  let ?r = "processPrepareCall (next_prepare s) no_PrepareRes p"
  have "fst ?r = promise_to s p" "snd (snd ?r) = []" "can_accept (next_ballot s) (promise_to s p)" "pr_ack (fst (snd ?r))"
    "pr_ballot (fst (snd ?r)) = next_ballot s" "pr_latest_ballot_num (fst (snd ?r)) = None"
    "pr_last_inserted (fst (snd ?r)) = None"
    using assms
    by (simp_all add: processPrepareCall_def next_prepare_def next_ballot_def ready_peer_def can_accept_def
      no_PrepareRes_def promise_to_def Let_def)
  then show thesis by (intro that [of "fst (snd ?r)"]) (simp_all add: prod_eq_iff)
qed

lemma round_promised:
  assumes "pr_ack res" and "pr_ballot res = next_ballot s"
    and "pr_latest_ballot_num res = None" and "pr_last_inserted res = None"
  shows "handlePrepareReply StatusOK q res (round_begun t s) =
    ((round_begun t s)\<lparr>prepare_successes := 2\<rparr>, [])"
  using assms by (simp add: handlePrepareReply_def round_begun_def next_ballot_def i32_id int32_def Let_def)

text \<open>The leader when its majority of promises is in.\<close>

definition round_promoted :: "TpcTid \<Rightarrow> ServerImpl \<Rightarrow> ServerImpl" where
  "round_promoted t s = (round_begun t s)\<lparr>prepare_successes := 2\<rparr>"

definition round_proposed :: "TransferReq \<Rightarrow> bool \<Rightarrow> ServerImpl \<Rightarrow> ServerImpl" where
  "round_proposed r x s = fst (propose r x (checked r (round_promoted (req_tid r) s)))"

lemma round_propose:
  assumes "ready_leader r s"
  shows "runPaxos r res x (round_promoted (req_tid r) s) =
    (False, round_proposed r x s, res\<lparr>res_tid := req_tid r\<rparr>,
     map (\<lambda>i. SendAccept i \<lparr>aq_ballot = next_ballot s, aq_r = r\<rparr>) (stubs s))"
proof -
  let ?s = "round_promoted (req_tid r) s"
  have "isClientInCluster ?s = isClientInCluster s"
    by (simp add: round_promoted_def round_begun_def isClientInCluster_def fun_eq_iff)
  then have "\<not> conditions_fail ?s (req_txn r)"
    using assms by (simp add: ready_leader_def conditions_fail_def locked_def round_promoted_def round_begun_def)
  moreover have "free_for r ?s" "await_prepare_decision ?s" "MAJORITY \<le> prepare_successes ?s"
    "promised_num ?s = next_ballot s" "stubs ?s = stubs s"
    using assms by (simp_all add: free_for_def ready_leader_def round_promoted_def round_begun_def MAJORITY_def)
  ultimately show ?thesis
    using propose_effect(3) [of r x "checked r ?s"]
    by (simp add: runPaxos_awaiting_prepare round_proposed_def)
qed

lemma round_proposed_simps:
  assumes "ready_leader r s"
  shows "await_accept_decision (round_proposed r x s)" "\<not> await_prepare_decision (round_proposed r x s)"
    "accept_num (round_proposed r x s) = next_ballot s" "accept_successes (round_proposed r x s) = 1"
    "free_for r (round_proposed r x s)" "server_id (round_proposed r x s) = server_id s"
    "stubs (round_proposed r x s) = stubs s"
    "same_data (if x then prepareTransaction r (next_ballot s) s else s) (round_proposed r x s)"
    "i_am_disconnected (round_proposed r x s) = i_am_disconnected s"
proof -
  let ?s = "round_promoted (req_tid r) s"
  have in_sync: "in_sync (prepareTransaction r b t) = in_sync t" "accept_successes (prepareTransaction r b t) = accept_successes t"
    "i_am_disconnected (prepareTransaction r b t) = i_am_disconnected t" for b t
    by (simp_all add: prepareTransaction_def push_log_def Let_def split: prod.split)
  have checked: "in_sync (checked r ?s) = in_sync s" "is_paxos_running (checked r ?s)"
    "paxos_tid (checked r ?s) = req_tid r" "i_am_disconnected (checked r ?s) = i_am_disconnected s"
    by (simp_all add: checked_def read_sender_def round_promoted_def round_begun_def)
  have locks: "in_sync (take_locks x t) = in_sync t" "i_am_disconnected (take_locks x t) = i_am_disconnected t" for x t
    by (simp_all add: take_locks_def Let_def)
  show "await_accept_decision (round_proposed r x s)" "\<not> await_prepare_decision (round_proposed r x s)"
    "accept_num (round_proposed r x s) = next_ballot s" "accept_successes (round_proposed r x s) = 1"
    "free_for r (round_proposed r x s)" "server_id (round_proposed r x s) = server_id s"
    "stubs (round_proposed r x s) = stubs s" "i_am_disconnected (round_proposed r x s) = i_am_disconnected s"
    using assms
    by (simp_all add: round_proposed_def propose_def free_for_def checked in_sync locks ready_leader_def Let_def)
      (simp_all add: round_promoted_def round_begun_def)
  have "same_data s ?s" by (simp add: round_promoted_def round_begun_def same_data_def)
  then have "same_data s (checked r ?s)" using checked_same_data same_data_trans by blast
  moreover have "promised_num (checked r ?s) = next_ballot s" by (simp add: round_promoted_def round_begun_def)
  ultimately show "same_data (if x then prepareTransaction r (next_ballot s) s else s) (round_proposed r x s)"
    using propose_data [of x r "checked r ?s"] same_data_prepare same_data_trans
    unfolding round_proposed_def by (metis (full_types))
qed

lemma round_accepted:
  assumes "ready_leader r s" and "ar_ack res" and "ar_ballot res = next_ballot s"
  shows "handleAcceptReply StatusOK q res (round_proposed r x s) = (round_proposed r x s)\<lparr>accept_successes := 2\<rparr>"
  using assms(2,3) round_proposed_simps [OF assms(1), of x]
  by (simp add: handleAcceptReply_def next_ballot_def i32_id int32_def)

definition round_done :: "TransferReq \<Rightarrow> bool \<Rightarrow> ServerImpl \<Rightarrow> ServerImpl" where
  "round_done r x s = fst (conclude r x ((round_proposed r x s)\<lparr>accept_successes := 2\<rparr>))"

lemma round_conclude:
  assumes "ready_leader r s"
  shows "runPaxos r res x ((round_proposed r x s)\<lparr>accept_successes := 2\<rparr>) =
    (True, round_done r x s, res\<lparr>res_tid := req_tid r, res_ack := True\<rparr>,
     map (\<lambda>i. SendCommit i \<lparr>cq_ballot = next_ballot s\<rparr>) (stubs s))"
proof -
  let ?s = "(round_proposed r x s)\<lparr>accept_successes := 2\<rparr>"
  have "free_for r ?s" "\<not> await_prepare_decision ?s" "await_accept_decision ?s" "MAJORITY \<le> accept_successes ?s"
    "accept_num ?s = next_ballot s" "stubs ?s = stubs s"
    using round_proposed_simps [OF assms, of x] by (simp_all add: free_for_def MAJORITY_def)
  then show ?thesis
    using conclude_effect(2) [of r x ?s] by (simp add: runPaxos_awaiting_accept round_done_def)
qed

lemma round_done_data:
  assumes "ready_leader r s"
  shows "same_data (prepareTransaction r (next_ballot s) s) (round_done r True s)"
    and "i_am_disconnected (round_done r True s) = i_am_disconnected s"
  using round_proposed_simps(8,9) [OF assms, of True]
  by (simp_all add: round_done_def conclude_def same_data_def Let_def)

section \<open>The round in the system\<close>

definition dlv :: "Packet \<Rightarrow> System \<Rightarrow> System" where
  "dlv p g = deliver no_entry 0 p (g\<lparr>net := remove1 p (net g)\<rparr>)"

lemma run_dlv: "deliveries f g \<Longrightarrow> p \<in> set (net g) \<Longrightarrow> deliveries f (dlv p g)"
  unfolding dlv_def by (rule one_delivered)

lemma dlv_keeps: "q \<in> set (net g) \<Longrightarrow> q \<noteq> p \<Longrightarrow> q \<in> set (net (dlv p g))"
  unfolding dlv_def
  by (cases "(no_entry, 0::int, p, g)" rule: deliver.cases)
    (simp_all add: node_does_def client_reply_def client_sends_def in_set_remove1 Let_def split: prod.split, auto)

text \<open>
  What is left of the packets: the calls being served elsewhere and the answers to the client
  stay, and so do the states of the other servers and the client.
\<close>

definition stays :: "int \<Rightarrow> int \<Rightarrow> System \<Rightarrow> System \<Rightarrow> bool" where
  "stays a b g h \<longleftrightarrow> coord h = coord g \<and> sent h = sent g \<and> (\<forall>i. i \<noteq> a \<and> i \<noteq> b \<longrightarrow> node h i = node g i)
     \<and> (\<forall>y i q res. i \<noteq> a \<longrightarrow> Serving y i q res \<in> set (net g) \<longrightarrow> Serving y i q res \<in> set (net h))
     \<and> (\<forall>y i res. TransferAnswer y i res \<in> set (net g) \<longrightarrow> TransferAnswer y i res \<in> set (net h))"

lemma stays_trans: "stays a b f g \<Longrightarrow> stays a b g h \<Longrightarrow> stays a b f h"
  by (simp add: stays_def)

lemma dlv_serving:
  assumes "runPaxos r res x (node g a) = (fin, s, res', msgs)"
  shows "node (dlv (Serving x a r res) g) = (node g)(a := s)"
    and "net (dlv (Serving x a r res) g) = remove1 (Serving x a r res) (net g)
           @ (if fin then TransferAnswer x a res' else Serving x a r res') # map (Peer a) msgs"
    and "stays a b g (dlv (Serving x a r res) g)"
  using assms by (auto simp: dlv_def run_call_eq node_does_def stays_def)

lemma dlv_prepare:
  assumes "processPrepareCall q no_PrepareRes (node g b) = (p, res, msgs)"
  shows "node (dlv (Peer a (SendPrepare b q)) g) = (node g)(b := p)"
    and "net (dlv (Peer a (SendPrepare b q)) g) = remove1 (Peer a (SendPrepare b q)) (net g)
           @ PrepareAnswer a q res # map (Peer b) msgs"
    and "stays a b g (dlv (Peer a (SendPrepare b q)) g)"
  using assms by (auto simp: dlv_def node_does_def stays_def)

lemma dlv_prepare_answer:
  assumes "handlePrepareReply StatusOK q res (node g a) = (s, msgs)"
  shows "node (dlv (PrepareAnswer a q res) g) = (node g)(a := s)"
    and "net (dlv (PrepareAnswer a q res) g) = remove1 (PrepareAnswer a q res) (net g) @ map (Peer a) msgs"
    and "stays a b g (dlv (PrepareAnswer a q res) g)"
  using assms by (auto simp: dlv_def node_does_def stays_def)

lemma dlv_accept:
  assumes "processAcceptCall q no_AcceptRes (node g b) = (p, res)"
  shows "node (dlv (Peer a (SendAccept b q)) g) = (node g)(b := p)"
    and "net (dlv (Peer a (SendAccept b q)) g) = remove1 (Peer a (SendAccept b q)) (net g) @ [AcceptAnswer a q res]"
    and "stays a b g (dlv (Peer a (SendAccept b q)) g)"
  using assms by (auto simp: dlv_def node_does_def stays_def)

lemma dlv_accept_answer:
  "node (dlv (AcceptAnswer a q res) g) = (node g)(a := handleAcceptReply StatusOK q res (node g a))"
  "net (dlv (AcceptAnswer a q res) g) = remove1 (AcceptAnswer a q res) (net g)"
  "stays a b g (dlv (AcceptAnswer a q res) g)"
  by (auto simp: dlv_def node_does_def stays_def)

text \<open>The first half of the round: from the request to a majority of promises.\<close>

lemma promises_arrive:
  assumes p0: "Serving x a r res \<in> set (net g)" and ready: "ready_leader r (node g a)"
    and b: "b \<in> set (stubs (node g a))" "b \<noteq> a" and peer: "ready_peer (node g a) (node g b)"
  obtains h where "deliveries g h" and "stays a b g h" and "node h a = round_promoted (req_tid r) (node g a)"
    and "can_accept (next_ballot (node g a)) (node h b)" and "node h b = promise_to (node g a) (node g b)"
    and "Serving x a r (res\<lparr>res_tid := req_tid r\<rparr>) \<in> set (net h)"
    and "\<And>c. c \<in> set (stubs (node g a)) \<Longrightarrow> c \<noteq> b \<Longrightarrow> Peer a (SendPrepare c (next_prepare (node g a))) \<in> set (net h)"
proof -
  let ?s = "node g a" let ?res = "res\<lparr>res_tid := req_tid r\<rparr>" let ?q = "next_prepare ?s"
  note start = round_start [OF ready, of res x]
  define g1 where "g1 = dlv (Serving x a r res) g"
  note d1 = dlv_serving [OF start, folded g1_def]
  have r1: "deliveries g g1" unfolding g1_def by (rule run_dlv [OF none_delivered p0])
  have n1: "node g1 b = node g b" "node g1 a = round_begun (req_tid r) ?s" using d1(1) b(2) by simp_all
  have p1: "Peer a (SendPrepare b ?q) \<in> set (net g1)" "Serving x a r ?res \<in> set (net g1)"
    and others: "\<And>c. c \<in> set (stubs ?s) \<Longrightarrow> Peer a (SendPrepare c ?q) \<in> set (net g1)"
    using b(1) by (auto simp: d1(2))
  define p where "p = promise_to ?s (node g b)"
  obtain pres where promise: "processPrepareCall ?q no_PrepareRes (node g1 b) = (p, pres, [])"
    and p: "can_accept (next_ballot ?s) p" and pres: "pr_ack pres" "pr_ballot pres = next_ballot ?s"
      "pr_latest_ballot_num pres = None" "pr_last_inserted pres = None"
    using round_promise [OF peer] n1(1) unfolding p_def by metis
  define g2 where "g2 = dlv (Peer a (SendPrepare b ?q)) g1"
  note d2 = dlv_prepare [OF promise, of a, folded g2_def]
  have r2: "deliveries g g2" unfolding g2_def by (rule run_dlv [OF r1 p1(1)])
  have n2: "node g2 b = p" "node g2 a = round_begun (req_tid r) ?s" using d2(1) n1 b(2) by simp_all
  have p2: "PrepareAnswer a ?q pres \<in> set (net g2)" "Serving x a r ?res \<in> set (net g2)"
    using p1(2) by (simp_all add: d2(2))
  define g3 where "g3 = dlv (PrepareAnswer a ?q pres) g2"
  have promised: "handlePrepareReply StatusOK ?q pres (node g2 a) = (round_promoted (req_tid r) ?s, [])"
    using round_promised [OF pres] n2(2) by (simp add: round_promoted_def)
  note d3 = dlv_prepare_answer [OF promised, folded g3_def]
  have r3: "deliveries g g3" unfolding g3_def by (rule run_dlv [OF r2 p2(1)])
  have "stays a b g g3"
    using stays_trans [OF stays_trans [OF d1(3) d2(3)] d3(3)] .
  moreover have "Serving x a r ?res \<in> set (net g3)" using p2(2) by (simp add: d3(2))
  moreover have "Peer a (SendPrepare c ?q) \<in> set (net g3)" if "c \<in> set (stubs ?s)" "c \<noteq> b" for c
    using others [OF that(1)] that(2) by (simp add: d3(2) d2(2))
  ultimately show thesis
    using that [of g3] r3 p n2(1) b(2) d3(1) by (simp add: p_def)
qed

lemma acceptance_arrives:
  assumes ready: "ready_leader r s" and b: "b \<in> set (stubs s)" "b \<noteq> a"
    and g: "node g a = round_promoted (req_tid r) s" "can_accept (next_ballot s) (node g b)"
      "Serving x a r res \<in> set (net g)" and tid: "res_tid res = req_tid r"
  obtains h where "deliveries g h" and "stays a b g h" and "Serving x a r res \<in> set (net h)"
    and "node h a = (round_proposed r x s)\<lparr>accept_successes := 2\<rparr>"
proof -
  let ?q = "accept_of (next_ballot s) r"
  have propose: "runPaxos r res x (node g a) = (False, round_proposed r x s, res, map (\<lambda>i. SendAccept i ?q) (stubs s))"
    using round_propose [OF ready, of res x] g(1) tid by (simp add: accept_of_def)
  define g4 where "g4 = dlv (Serving x a r res) g"
  note d4 = dlv_serving [OF propose, folded g4_def]
  have r4: "deliveries g g4" unfolding g4_def by (rule run_dlv [OF none_delivered g(3)])
  have n4: "node g4 b = node g b" "node g4 a = round_proposed r x s" using d4(1) b(2) by simp_all
  have p4: "Peer a (SendAccept b ?q) \<in> set (net g4)" "Serving x a r res \<in> set (net g4)"
    using b(1) by (auto simp: d4(2))
  obtain p ares where accept: "processAcceptCall ?q no_AcceptRes (node g4 b) = (p, ares)" by fastforce
  have ares: "ar_ack ares" "ar_ballot ares = next_ballot s"
    using accepted_state [OF g(2), of r no_AcceptRes] n4(1) accept by auto
  define g5 where "g5 = dlv (Peer a (SendAccept b ?q)) g4"
  note d5 = dlv_accept [OF accept, of a, folded g5_def]
  have r5: "deliveries g g5" unfolding g5_def by (rule run_dlv [OF r4 p4(1)])
  have n5: "node g5 a = round_proposed r x s" using d5(1) n4(2) b(2) by simp
  have p5: "AcceptAnswer a ?q ares \<in> set (net g5)" "Serving x a r res \<in> set (net g5)"
    using p4(2) by (simp_all add: d5(2))
  define g6 where "g6 = dlv (AcceptAnswer a ?q ares) g5"
  note d6 = dlv_accept_answer [where a = a and q = ?q and res = ares and g = g5, folded g6_def]
  have "deliveries g g6" unfolding g6_def by (rule run_dlv [OF r5 p5(1)])
  moreover have "node g6 a = (round_proposed r x s)\<lparr>accept_successes := 2\<rparr>"
    using d6(1) n5 round_accepted [OF ready ares, of ?q x] by simp
  moreover have "stays a b g g6" using d4(3) d5(3) d6(3) stays_trans by meson
  moreover have "Serving x a r res \<in> set (net g6)" using p5(2) by (simp add: d6(2))
  ultimately show thesis using that by blast
qed

lemma transfer_can_complete:
  assumes p0: "Serving x a r res \<in> set (net g)" and ready: "ready_leader r (node g a)"
    and b: "b \<in> set (stubs (node g a))" "b \<noteq> a" and peer: "ready_peer (node g a) (node g b)"
  obtains h where "deliveries g h" and "stays a b g h" and "node h a = round_done r x (node g a)"
    and "TransferAnswer x a \<lparr>res_ack = True, res_tid = req_tid r\<rparr> \<in> set (net h)"
proof -
  let ?s = "node g a" let ?res = "res\<lparr>res_tid := req_tid r\<rparr>"
  obtain g3 where g3: "deliveries g g3" "stays a b g g3" "node g3 a = round_promoted (req_tid r) ?s"
    "can_accept (next_ballot ?s) (node g3 b)" "Serving x a r ?res \<in> set (net g3)"
    using promises_arrive [OF assms] .
  obtain g6 where g6: "deliveries g3 g6" "stays a b g3 g6" "Serving x a r ?res \<in> set (net g6)"
    "node g6 a = (round_proposed r x ?s)\<lparr>accept_successes := 2\<rparr>"
    using acceptance_arrives [OF ready b g3(3-5)] by auto
  define g7 where "g7 = dlv (Serving x a r ?res) g6"
  have conclude: "runPaxos r ?res x (node g6 a) = (True, round_done r x ?s,
      ?res\<lparr>res_tid := req_tid r, res_ack := True\<rparr>, map (\<lambda>i. SendCommit i \<lparr>cq_ballot = next_ballot ?s\<rparr>) (stubs ?s))"
    using round_conclude [OF ready, of ?res x] g6(4) by simp
  note d7 = dlv_serving [OF conclude, folded g7_def]
  have "deliveries g g7" unfolding g7_def by (rule run_dlv [OF deliveries_trans [OF g6(1) g3(1)] g6(3)])
  moreover have "?res\<lparr>res_tid := req_tid r, res_ack := True\<rparr> = \<lparr>res_ack = True, res_tid = req_tid r\<rparr>"
    by (cases res) simp
  then have "TransferAnswer x a \<lparr>res_ack = True, res_tid = req_tid r\<rparr> \<in> set (net g7)" by (simp add: d7(2))
  moreover have "stays a b g g7" using g3(2) g6(2) d7(3) stays_trans by meson
  ultimately show thesis using that [of g7] d7(1) by simp
qed

section \<open>From the start to a commit\<close>

lemma start_ready:
  assumes "deployment_ok nc sz f" and "a \<in> members nc sz" and "txn_ok x"
    and "shard_of nc sz (sender x) = cluster_of nc sz a \<Longrightarrow> 1 \<le> sender x \<and> sender x \<le> total_clients \<and> amount x \<le> 10"
    and "g = node (sys_start nc sz f v)"
  shows "ready_leader \<lparr>req_txn = x, req_tid = t\<rparr> (g a)" and "ready_peer (g a) (g b)"
proof -
  have g: "g i = started (fresh_setup nc sz) i (server_name_of i) (f i) (v i)" for i
    by (simp add: assms(5) sys_start_def)
  have "\<not> conditions_fail (g a) x"
    using assms(4)
    by (auto simp: g started_eq conditions_fail_def locked_def init_fold_balances)
      (auto simp: isClientInCluster_def)
  then show "ready_leader \<lparr>req_txn = x, req_tid = t\<rparr> (g a)"
    by (simp add: ready_leader_def) (simp add: g started_eq)
  show "ready_peer (g a) (g b)" by (simp add: ready_peer_def g started_eq i32_id int32_def)
qed

lemma start_peer:
  assumes "deployment_ok nc sz f" and "2 \<le> sz" and "a \<in> members nc sz"
  obtains b where "b \<in> set (stubs (node (sys_start nc sz f v) a))" and "peers nc sz a b"
proof -
  have su: "setup_ok nc sz" using assms(1) by (simp add: deployment_ok_def)
  have a: "1 \<le> a" "a \<le> nc * sz" using assms(3) by (simp_all add: members_def)
  let ?s = "started (fresh_setup nc sz) a (server_name_of a) (f a) (v a)"
  have s: "node (sys_start nc sz f v) a = ?s" by (simp add: sys_start_def)
  have "set (stubs ?s) = block sz (cluster_of nc sz a) - {a}" using stubs_of_member [OF su a] by simp
  moreover have "block sz (cluster_of nc sz a) - {a} \<noteq> {}"
  proof
    assume "block sz (cluster_of nc sz a) - {a} = {}"
    then have "card (block sz (cluster_of nc sz a)) \<le> card {a}" by (intro card_mono) auto
    then show False using assms(2) by (simp add: card_block)
  qed
  ultimately obtain b where "b \<in> set (stubs ?s)" by blast
  moreover have "node_static nc sz a ?s"
    using start_node [OF assms(1,3), of v "server_name_of a" "v a"] by (simp add: node_inv_def)
  ultimately show thesis using that [of b] s by (simp add: node_static_def)
qed

lemma vote_delivered:
  fixes i :: int
  assumes "client_ok (coord g)" and "processing (coord g) t = Some p" and "failures p = 0"
    and "successes p \<in> {0, 1}"
  defines "h \<equiv> dlv (TransferAnswer True i \<lparr>res_ack = True, res_tid = t\<rparr>) g"
    and "cs \<equiv> client_consts (coord g)"
  shows "successes p = 0 \<Longrightarrow> processing (coord h) t = Some (counted True p)
      \<and> net h = remove1 (TransferAnswer True i \<lparr>res_ack = True, res_tid = t\<rparr>) (net g)"
    and "successes p = 1 \<Longrightarrow> net h = remove1 (TransferAnswer True i \<lparr>res_ack = True, res_tid = t\<rparr>) (net g)
      @ concat (map (packets_of cs) (map (\<lambda>n. SendTpcCommit n t)
          (servers_of cs (getClusterIdFromClientId cs (sender (tp_txn p)))
            (getClusterIdFromClientId cs (receiver (tp_txn p))))))"
    and "node h = node g" and "client_ok (coord h)" and "client_consts (coord h) = cs"
proof -
  let ?call = "\<lparr>cc_status = StatusOK, cc_type = TPC_PREPARE, cc_reply = \<lparr>res_ack = True, res_tid = t\<rparr>\<rparr>"
  obtain c ms where eq: "consume_one ?call 0 (coord g) = (c, ms)" by fastforce
  have h: "h = client_sends ms (g\<lparr>net := remove1 (TransferAnswer True i \<lparr>res_ack = True, res_tid = t\<rparr>) (net g), coord := c\<rparr>)"
    by (simp add: h_def dlv_def client_reply_def eq)
  have c: "client_consts c = cs" "client_ok c"
    using consume_one_frame(1) [of ?call 0 "coord g"] consume_client_ok [OF assms(1), of ?call 0]
    by (simp_all add: eq cs_def)
  then show "node h = node g" "client_ok (coord h)" "client_consts (coord h) = cs" by (simp_all add: h)
  have vote: "vote_on t (?call, True, 0)" "yes (?call, True, 0)" by (simp_all add: vote_on_def yes_def)
  have small: "0 \<le> successes p" "0 \<le> failures p" "successes p + failures p < 2" using assms(3,4) by auto
  note consume = consume_one_vote [OF vote(1) assms(2,1) small, unfolded eq]
  show "processing (coord h) t = Some (counted True p)
      \<and> net h = remove1 (TransferAnswer True i \<lparr>res_ack = True, res_tid = t\<rparr>) (net g)" if "successes p = 0"
    using consume(1) that assms(3) vote(2) by (simp add: h)
  show "net h = remove1 (TransferAnswer True i \<lparr>res_ack = True, res_tid = t\<rparr>) (net g)
      @ concat (map (packets_of cs) (map (\<lambda>n. SendTpcCommit n t)
          (servers_of cs (getClusterIdFromClientId cs (sender (tp_txn p)))
            (getClusterIdFromClientId cs (receiver (tp_txn p))))))" if "successes p = 1"
    using consume(2) that assms(3) vote(2) c by (simp add: h cs_def)
qed

lemma decision_for_member:
  assumes "setup_ok nc sz" and "i \<in> members nc sz" and "cluster_of nc sz i \<in> {j, k}"
  shows "Decision True i t \<in> set (concat (map (packets_of (fresh_setup nc sz))
    (map (\<lambda>n. SendTpcCommit n t) (servers_of (fresh_setup nc sz) j k))))"
proof -
  have i: "1 \<le> i" "i \<le> i32 (nc * sz)" using assms(2) setup_total(1) [OF assms(1)] by (simp_all add: members_def)
  then have m: "map_of (server_ids (fresh_setup nc sz)) (server_name_of i) = Some i"
    by (simp add: fresh_setup_ids(2))
  then have "(server_name_of i, i) \<in> set (server_ids (fresh_setup nc sz))" by (rule map_of_SomeD)
  then have "server_name_of i \<in> set (servers_of (fresh_setup nc sz) j k)"
    using assms(3) by (force simp: servers_of_def)
  then show ?thesis using m by (force simp: to_server_def)
qed

lemma dlv_commit:
  assumes inv: "sys_inv nc sz g" and i: "i \<in> members nc sz" and "\<not> i_am_disconnected (node g i)"
    and "pending (wal (node g i)) t = Some e"
  shows "log (node (dlv (Decision True i t) g) i) = log (node g i) @ [decided True e]"
    and "j \<noteq> i \<Longrightarrow> node (dlv (Decision True i t) g) j = node g j"
    and "j \<noteq> i \<Longrightarrow> Decision True j t \<in> set (net g) \<Longrightarrow> Decision True j t \<in> set (net (dlv (Decision True i t) g))"
  using processTpcDecision_pending [OF server_ok_parts(5) [OF inv_node(2) [OF inv i]] assms(3,4), of no_entry True]
  by (simp_all add: dlv_def node_does_def)

text \<open>One leader brings its part to a prepared entry that waits for the decision.\<close>

lemma shard_prepares:
  assumes p0: "Serving True a r res \<in> set (net g)" and ready: "ready_leader r (node g a)"
    and b: "b \<in> set (stubs (node g a))" "b \<noteq> a" and peer: "ready_peer (node g a) (node g b)"
    and ok: "server_ok base (node g a)" "req_ok r" "int32 (server_id (node g a))"
  obtains h where "deliveries g h" and "stays a b g h"
    and "TransferAnswer True a \<lparr>res_ack = True, res_tid = req_tid r\<rparr> \<in> set (net h)"
    and "pending (wal (node h a)) (req_tid r) = Some (req_entry r (next_ballot (node g a)) CROSS PREPARED)"
    and "log (node h a) = log (node g a) @ [req_entry r (next_ballot (node g a)) CROSS PREPARED]"
    and "i_am_disconnected (node h a) = i_am_disconnected (node g a)"
proof -
  let ?s = "node g a"
  obtain h where h: "deliveries g h" "stays a b g h" "node h a = round_done r True ?s"
    "TransferAnswer True a \<lparr>res_ack = True, res_tid = req_tid r\<rparr> \<in> set (net h)"
    using transfer_can_complete [OF p0 ready b peer] .
  have "bal_ok (next_ballot ?s)" using ok(3) by (simp add: bal_ok_def next_ballot_def)
  then have "pending (snd (wal_prepareTransaction (wal ?s) r (next_ballot ?s))) (req_tid r)
      = Some (req_entry r (next_ballot ?s) CROSS PREPARED)"
    using wal_prepare_pending(1) [OF server_ok_parts(1) [OF ok(1)]] ok(2) by simp
  moreover have "wal (round_done r True ?s) = snd (wal_prepareTransaction (wal ?s) r (next_ballot ?s))"
    using round_done_data(1) [OF ready]
    by (simp add: same_data_def prepareTransaction_def push_log_def Let_def split: prod.splits)
  moreover have "log (round_done r True ?s) = log ?s @ [req_entry r (next_ballot ?s) CROSS PREPARED]"
    using round_done_data(1) [OF ready] by (simp add: same_data_def)
  ultimately show thesis using that [of h] h round_done_data(2) [OF ready] by simp
qed

text \<open>
  A state in which every server of the two clusters of a request could lead its round: it runs
  no round and no synchronisation, it has the clients of the request unlocked and the sender
  can pay, it is connected, and its peers are connected, have a lower ballot than the one it
  would choose, and are at the same position of the log.
\<close>

definition quiet :: "int \<Rightarrow> int \<Rightarrow> System \<Rightarrow> TransferReq \<Rightarrow> bool" where
  "quiet nc sz g r \<longleftrightarrow> (\<forall>i \<in> members nc sz.
     cluster_of nc sz i \<in> {shard_of nc sz (sender (req_txn r)), shard_of nc sz (receiver (req_txn r))} \<longrightarrow>
       ready_leader r (node g i) \<and> \<not> i_am_disconnected (node g i)
       \<and> (\<forall>j. peers nc sz i j \<longrightarrow> ready_peer (node g i) (node g j)))"

lemma quiet_member:
  assumes "quiet nc sz g r" and "leads nc sz (req_txn r) a b" and "i \<in> {a, b}"
  shows "ready_leader r (node g i)" and "\<not> i_am_disconnected (node g i)" and "i \<in> members nc sz"
    and "peers nc sz i j \<Longrightarrow> ready_peer (node g i) (node g j)"
  using assms by (auto simp: quiet_def leads_def)

lemma prepare_in_cluster:
  assumes dep: "deployment_ok nc sz f" "2 \<le> sz" and inv: "sys_inv nc sz g"
    and p0: "Serving True a r res \<in> set (net g)"
    and ready: "ready_leader r (node g a)" "\<And>j. peers nc sz a j \<Longrightarrow> ready_peer (node g a) (node g j)"
  obtains b h where "peers nc sz a b" and "deliveries g h" and "stays a b g h"
    and "TransferAnswer True a \<lparr>res_ack = True, res_tid = req_tid r\<rparr> \<in> set (net h)"
    and "pending (wal (node h a)) (req_tid r) = Some (req_entry r (next_ballot (node g a)) CROSS PREPARED)"
    and "log (node h a) = log (node g a) @ [req_entry r (next_ballot (node g a)) CROSS PREPARED]"
    and "i_am_disconnected (node h a) = i_am_disconnected (node g a)"
proof -
  have "packet_ok nc sz g (Serving True a r res)" using inv p0 unfolding sys_inv_def by blast
  then have a: "a \<in> members nc sz" and r: "r \<in> asked g" by simp_all
  obtain b where b: "peers nc sz a b" using start_peer [OF dep a, of undefined] by blast
  have "1 \<le> a" "a \<le> nc * sz" using a by (simp_all add: members_def)
  then have "int32 (server_id (node g a))"
    using setup_total(3) [of nc sz a] dep(1) inv_node(3) [OF inv a] by (simp add: deployment_ok_def)
  moreover have "b \<in> set (stubs (node g a))" "b \<noteq> a"
    using b inv_node(4) [OF inv a] by (simp_all add: peers_def)
  ultimately obtain h where "deliveries g h" "stays a b g h"
    "TransferAnswer True a \<lparr>res_ack = True, res_tid = req_tid r\<rparr> \<in> set (net h)"
    "pending (wal (node h a)) (req_tid r) = Some (req_entry r (next_ballot (node g a)) CROSS PREPARED)"
    "log (node h a) = log (node g a) @ [req_entry r (next_ballot (node g a)) CROSS PREPARED]"
    "i_am_disconnected (node h a) = i_am_disconnected (node g a)"
    using shard_prepares [OF p0 ready(1) _ _ ready(2) [OF b] inv_node(2) [OF inv a] inv_asked [OF inv r]] by metis
  then show thesis using that [of b h] b by blast
qed

lemma stays_far:
  assumes "stays a a' g h" and "peers nc sz a a'" and "cluster_of nc sz j \<noteq> cluster_of nc sz a"
  shows "node h j = node g j"
proof -
  have "j \<noteq> a" "j \<noteq> a'" using assms(2,3) by (auto simp: peers_def)
  then show ?thesis using assms(1) by (simp add: stays_def)
qed

lemma deliveries_inv:
  assumes "setup_ok nc sz" and "deliveries g h" and "sys_inv nc sz g"
  shows "sys_inv nc sz h"
  using assms(2,3) by (induction rule: deliveries.induct) (use sys_step_inv [OF assms(1) sys_step.deliver] in auto)

text \<open>Both parts are prepared and the two votes are on their way.\<close>

definition both_prepared :: "int \<Rightarrow> int \<Rightarrow> System \<Rightarrow> System \<Rightarrow> TransferReq \<Rightarrow> int \<Rightarrow> int \<Rightarrow> bool" where
  "both_prepared nc sz f g r a b \<longleftrightarrow> leads nc sz (req_txn r) a b \<and> a \<noteq> b
     \<and> processing (coord g) (req_tid r) = Some \<lparr>tp_txn = req_txn r, successes = 0, failures = 0\<rparr>
     \<and> (\<forall>i \<in> {a, b}. \<not> i_am_disconnected (node g i)
          \<and> TransferAnswer True i \<lparr>res_ack = True, res_tid = req_tid r\<rparr> \<in> set (net g)
          \<and> (\<exists>bal. pending (wal (node g i)) (req_tid r) = Some (req_entry r bal CROSS PREPARED)
                 \<and> log (node g i) = log (node f i) @ [req_entry r bal CROSS PREPARED]))"

lemma submission_arrives:
  assumes su: "setup_ok nc sz" and inv: "sys_inv nc sz g" and sub: "submission_ok g lds x now"
    and cross: "cross_shard (fresh_setup nc sz) x"
  obtains h a b where "submitted lds x now g = Some h" and "sys_inv nc sz h" and "leads nc sz x a b" and "node h = node g"
    and "Serving True a \<lparr>req_txn = x, req_tid = now\<rparr> no_TransferRes \<in> set (net h)"
    and "Serving True b \<lparr>req_txn = x, req_tid = now\<rparr> no_TransferRes \<in> set (net h)"
    and "processing (coord h) now = Some \<lparr>tp_txn = x, successes = 0, failures = 0\<rparr>"
proof -
  let ?r = "\<lparr>req_txn = x, req_tid = now\<rparr>"
  have "leaders_ok (coord g) lds x" using sub by (simp add: submission_ok_def leaders_fit_def)
  from submit_one [OF this, of now] obtain c ms where
    eq: "processTransactions [(x, now)] lds (coord g) = Inr (c, ms)" by blast
  define h where "h = client_sends ms (g\<lparr>coord := c\<rparr>)"
  have run: "submitted lds x now g = Some h" using sub by (simp add: submitted_def eq h_def del: processTransactions.simps)
  have inv': "sys_inv nc sz h" by (rule sys_step_inv [OF su submitted_step [OF run] inv])
  show thesis
  proof (rule submit_effect [OF inv sub eq, folded h_def])
    fix a b
    assume "setup_ok nc sz \<Longrightarrow> leads nc sz x a b" and "node h = node g"
      and "net h = net g @ (if cross_shard (fresh_setup nc sz) x
        then [Serving True a ?r no_TransferRes, Serving True b ?r no_TransferRes] else [Serving False a ?r no_TransferRes])"
      and "\<And>t. processing (coord h) t = (if cross_shard (fresh_setup nc sz) x \<and> t = now
        then Some \<lparr>tp_txn = x, successes = 0, failures = 0\<rparr> else processing (coord g) t)"
    then show thesis using that [OF run inv', of a b] su cross by simp
  qed
qed

lemma can_prepare_both:
  assumes dep: "deployment_ok nc sz f" "2 \<le> sz" and inv: "sys_inv nc sz g"
    and sub: "submission_ok g lds x now" and cross: "cross_shard (fresh_setup nc sz) x"
    and quiet: "quiet nc sz g \<lparr>req_txn = x, req_tid = now\<rparr>"
  obtains k h a b where "submitted lds x now g = Some k" and "deliveries k h"
    and "both_prepared nc sz g h \<lparr>req_txn = x, req_tid = now\<rparr> a b"
proof -
  let ?r = "\<lparr>req_txn = x, req_tid = now\<rparr>"
  have su: "setup_ok nc sz" using dep(1) by (simp add: deployment_ok_def)
  obtain g1 a b where run1: "submitted lds x now g = Some g1" and inv1: "sys_inv nc sz g1" and ab: "leads nc sz x a b"
    and n1: "node g1 = node g"
    and p1: "Serving True a ?r no_TransferRes \<in> set (net g1)" "Serving True b ?r no_TransferRes \<in> set (net g1)"
    and t1: "processing (coord g1) now = Some \<lparr>tp_txn = x, successes = 0, failures = 0\<rparr>"
    using submission_arrives [OF su inv sub cross] .
  have leads: "leads nc sz (req_txn ?r) a b" using ab by simp
  note qa = quiet_member [OF quiet leads, of a, folded n1, simplified]
    and qb = quiet_member [OF quiet leads, of b, folded n1, simplified]
  have far: "cluster_of nc sz a \<noteq> cluster_of nc sz b" using ab cross by (simp add: leads_def cross_shard_def)
  obtain a' h1 where a': "peers nc sz a a'" and run2: "deliveries g1 h1" and s1: "stays a a' g1 h1"
    and h1: "TransferAnswer True a \<lparr>res_ack = True, res_tid = now\<rparr> \<in> set (net h1)"
      "pending (wal (node h1 a)) now = Some (req_entry ?r (next_ballot (node g1 a)) CROSS PREPARED)"
      "log (node h1 a) = log (node g1 a) @ [req_entry ?r (next_ballot (node g1 a)) CROSS PREPARED]"
      "i_am_disconnected (node h1 a) = i_am_disconnected (node g1 a)"
    using prepare_in_cluster [OF dep inv1 p1(1) qa(1) qa(4)] by auto
  have inv2: "sys_inv nc sz h1"
    using deliveries_inv [OF su run2 inv1] .
  have b: "node h1 b = node g1 b" using stays_far [OF s1 a'] far by metis
  have nb: "node h1 j = node g1 j" if "peers nc sz b j" for j
    using stays_far [OF s1 a', of j] far that by (simp add: peers_def)
  have ne: "b \<noteq> a" using far by blast
  have "Serving True b ?r no_TransferRes \<in> set (net h1)" using s1 p1(2) ne by (simp add: stays_def)
  moreover have "ready_leader ?r (node h1 b)" using qb(1) b by simp
  moreover have "ready_peer (node h1 b) (node h1 j)" if "peers nc sz b j" for j using qb(4) that b nb by simp
  ultimately obtain b' h2 where b': "peers nc sz b b'" and run3: "deliveries h1 h2" and s2: "stays b b' h1 h2"
    and h2: "TransferAnswer True b \<lparr>res_ack = True, res_tid = now\<rparr> \<in> set (net h2)"
      "pending (wal (node h2 b)) now = Some (req_entry ?r (next_ballot (node h1 b)) CROSS PREPARED)"
      "log (node h2 b) = log (node h1 b) @ [req_entry ?r (next_ballot (node h1 b)) CROSS PREPARED]"
      "i_am_disconnected (node h2 b) = i_am_disconnected (node h1 b)"
    using prepare_in_cluster [OF dep inv2, of b ?r no_TransferRes] by auto
  have "node h2 a = node h1 a" using stays_far [OF s2 b' far] .
  then have "both_prepared nc sz g h2 ?r a b"
    using leads ne t1 s1 s2 h1 h2 b n1 qa(2) qb(2) by (auto simp: both_prepared_def stays_def)
  then show thesis using that [OF run1 deliveries_trans [OF run3 run2]] by blast
qed

text \<open>What the preparation and the commit of a transaction add to a log.\<close>

definition logs_commit :: "WALEntry list \<Rightarrow> ServerImpl \<Rightarrow> TransferReq \<Rightarrow> bool" where
  "logs_commit es s r \<longleftrightarrow>
     (\<exists>bal. log s = es @ [req_entry r bal CROSS PREPARED, req_entry r bal CROSS COMMITTED])"

lemma logs_commitI:
  "log s = es @ [req_entry r bal CROSS PREPARED] @ [decided True (req_entry r bal CROSS PREPARED)] \<Longrightarrow> logs_commit es s r"
  unfolding logs_commit_def by (rule exI [of _ bal]) (simp add: decided_def req_entry_def)

lemma logs_commit_entry:
  assumes "logs_commit es s r"
  obtains e where "e \<in> set (log s)" and "e_tid e = req_tid r" and "e_txn e = req_txn r" and "e_type e = CROSS"
    and "e_status e = COMMITTED"
proof -
  obtain bal where "log s = es @ [req_entry r bal CROSS PREPARED, req_entry r bal CROSS COMMITTED]"
    using assms by (auto simp: logs_commit_def)
  then have "req_entry r bal CROSS COMMITTED \<in> set (log s)" by simp
  then show thesis by (rule that) (simp_all add: req_entry_def)
qed

lemma can_decide:
  assumes su: "setup_ok nc sz" and inv: "sys_inv nc sz g" and both: "both_prepared nc sz f g r a b"
  obtains h where "deliveries g h" and "node h = node g" and "\<forall>i \<in> {a, b}. Decision True i (req_tid r) \<in> set (net h)"
proof -
  let ?t = "req_tid r" let ?cs = "fresh_setup nc sz"
  let ?p = "\<lambda>i. TransferAnswer True i \<lparr>res_ack = True, res_tid = ?t\<rparr>"
  let ?q = "\<lparr>tp_txn = req_txn r, successes = 0, failures = 0\<rparr>"
  have cs: "client_consts (coord g) = ?cs" and ok: "client_ok (coord g)"
    using inv by (simp_all add: sys_inv_def coord_inv_def)
  have ab: "leads nc sz (req_txn r) a b" "a \<noteq> b" "processing (coord g) ?t = Some ?q"
    "?p a \<in> set (net g)" "?p b \<in> set (net g)"
    using both by (simp_all add: both_prepared_def)
  define h where "h = dlv (?p a) g"
  have v: "failures ?q = 0" "successes ?q \<in> {0, 1}" "successes ?q = 0" by simp_all
  note first = vote_delivered [OF ok ab(3) v(1,2), of a, folded h_def, unfolded cs]
  define k where "k = dlv (?p b) h"
  have w: "failures (counted True ?q) = 0" "successes (counted True ?q) \<in> {0, 1}"
    "successes (counted True ?q) = 1" "tp_txn (counted True ?q) = req_txn r"
    by (simp_all add: counted_def i32_id int32_def)
  have "processing (coord h) ?t = Some (counted True ?q)" using first(1) v(3) by blast
  note second = vote_delivered [OF first(4) this w(1,2), of b, folded k_def, unfolded first(5)]
  have "?p b \<in> set (net h)" using first(1) v(3) ab(2,5) by simp
  then have "deliveries g k" unfolding k_def h_def using run_dlv [OF run_dlv [OF none_delivered ab(4)]] by simp
  moreover have "Decision True i ?t \<in> set (net k)" if "i \<in> {a, b}" for i
    using decision_for_member [OF su, of i "shard_of nc sz (sender (req_txn r))" "shard_of nc sz (receiver (req_txn r))" ?t]
      that ab(1) second(2) [OF w(3)] w(4)
    by (auto simp: leads_def)
  ultimately show thesis using that [of k] first(3) second(3) by simp
qed

lemma can_commit_both:
  assumes su: "setup_ok nc sz" and inv: "sys_inv nc sz g" and both: "both_prepared nc sz f g r a b"
  obtains h where "deliveries g h" and "logs_commit (log (node f a)) (node h a) r" and "logs_commit (log (node f b)) (node h b) r"
proof -
  let ?t = "req_tid r"
  obtain k where k: "deliveries g k" "node k = node g" "\<forall>i \<in> {a, b}. Decision True i ?t \<in> set (net k)"
    using can_decide [OF assms] .
  note run_inv = deliveries_inv [OF su _ inv]
  have ab: "a \<in> members nc sz" "b \<in> members nc sz" "a \<noteq> b" "\<not> i_am_disconnected (node k a)" "\<not> i_am_disconnected (node k b)"
    using both by (simp_all add: both_prepared_def leads_def k(2))
  obtain ba bb where pend: "pending (wal (node k a)) ?t = Some (req_entry r ba CROSS PREPARED)"
    "pending (wal (node k b)) ?t = Some (req_entry r bb CROSS PREPARED)"
    and logs: "log (node k a) = log (node f a) @ [req_entry r ba CROSS PREPARED]"
      "log (node k b) = log (node f b) @ [req_entry r bb CROSS PREPARED]"
    using both by (auto simp: both_prepared_def k(2))
  define m where "m = dlv (Decision True a ?t) k"
  note at_a = dlv_commit [OF run_inv [OF k(1)] ab(1,4) pend(1), folded m_def]
  have run_m: "deliveries g m" unfolding m_def by (rule run_dlv [OF k(1)]) (use k(3) in simp)
  have b: "node m b = node k b" "Decision True b ?t \<in> set (net m)" using at_a(2,3) ab(3) k(3) by auto
  define h where "h = dlv (Decision True b ?t) m"
  have "\<not> i_am_disconnected (node m b)" "pending (wal (node m b)) ?t = Some (req_entry r bb CROSS PREPARED)"
    using b(1) ab(5) pend(2) by simp_all
  note at_b = dlv_commit [OF run_inv [OF run_m] ab(2) this, folded h_def]
  have "deliveries g h" unfolding h_def by (rule run_dlv [OF run_m b(2)])
  moreover have "logs_commit (log (node f b)) (node h b) r"
    by (rule logs_commitI [of _ _ _ bb]) (simp add: at_b(1) b(1) logs)
  moreover have "logs_commit (log (node f a)) (node h a) r"
    by (rule logs_commitI [of _ _ _ ba]) (simp add: at_b(2) [OF ab(3)] at_a(1) logs)
  ultimately show thesis using that by blast
qed

lemma start_quiet:
  assumes "deployment_ok nc sz f" and "req_txn r = x" and "txn_ok x" and "1 \<le> sender x" and "sender x \<le> total_clients"
    and "amount x \<le> 10"
  shows "quiet nc sz (sys_start nc sz f v) r"
proof -
  have "\<lparr>req_txn = x, req_tid = req_tid r\<rparr> = r" using assms(2) by (cases r) simp
  then have "ready_leader r (node (sys_start nc sz f v) i)" "ready_peer (node (sys_start nc sz f v) i) (node (sys_start nc sz f v) j)"
    if "i \<in> members nc sz" for i j
    using start_ready(1) [OF assms(1) that assms(3) _ refl, where v = v and t = "req_tid r"]
      start_ready(2) [OF assms(1) that assms(3) _ refl, where v = v and b = j] assms(4-6) by auto
  moreover have "\<not> i_am_disconnected (node (sys_start nc sz f v) i)" for i by (simp add: sys_start_def started_eq)
  ultimately show ?thesis by (simp add: quiet_def)
qed

end
