(* ===== verification/Tpc_Network_Claims.thy ===== *)
theory Tpc_Network_Claims
  imports Tpc_Network_Live
begin

text \<open>
  What holds of all servers, the client and the network together, in every state that they can
  reach: messages and states are well typed, every log entry was asked for by the client, and
  two-phase commit is atomic; and what they can achieve.
\<close>

lemma can_commit:
  assumes "deployment_ok nc sz f" and "2 \<le> sz" and "sys_inv nc sz g"
    and "submission_ok g lds x now" and "cross_shard (fresh_setup nc sz) x" and "quiet nc sz g \<lparr>req_txn = x, req_tid = now\<rparr>"
  shows "\<exists>k h a b. submitted lds x now g = Some k \<and> deliveries k h \<and> leads nc sz x a b
    \<and> logs_commit (log (node g a)) (node h a) \<lparr>req_txn = x, req_tid = now\<rparr> \<and> logs_commit (log (node g b)) (node h b) \<lparr>req_txn = x, req_tid = now\<rparr>"
proof -
  let ?r = "\<lparr>req_txn = x, req_tid = now\<rparr>"
  have su: "setup_ok nc sz" using assms(1) by (simp add: deployment_ok_def)
  obtain m h a b where m: "submitted lds x now g = Some m" "deliveries m h" and h: "both_prepared nc sz g h ?r a b"
    using can_prepare_both [OF assms] .
  have "sys_inv nc sz h" by (rule deliveries_inv [OF su m(2) sys_step_inv [OF su submitted_step [OF m(1)] assms(3)]])
  then obtain k where k: "deliveries h k" "logs_commit (log (node g a)) (node k a) ?r" "logs_commit (log (node g b)) (node k b) ?r"
    using can_commit_both [OF su _ h] by blast
  have "leads nc sz x a b" using h by (simp add: both_prepared_def)
  then show ?thesis using m(1) deliveries_trans [OF k(1) m(2)] k(2,3) by blast
qed

section \<open>A run\<close>

text \<open>Two clusters of two servers; client 1 pays 5 to client 3000 of the other cluster.\<close>

definition demo_start :: System where
  "demo_start = sys_start 2 2 (\<lambda>_. empty_file) (\<lambda>_. plain_boot)"

definition demo_payment :: Transaction where
  "demo_payment = \<lparr>sender = 1, receiver = 3000, amount = 5\<rparr>"

definition demo_leaders :: "string list" where
  "demo_leaders = [server_name_of 1, server_name_of 3]"

lemma demo_deployment: "deployment_ok 2 2 (\<lambda>_. empty_file)"
  by (simp add: deployment_ok_def setup_ok_def files_ok_def empty_file_def)

lemma demo_shards: "shard_of 2 2 1 = 1" "shard_of 2 2 3000 = 2" "cluster_of 2 2 1 = 1" "cluster_of 2 2 3 = 2"
  by (simp_all add: client_cluster_iff server_cluster_iff int32_def)

lemma demo_payment_cross: "cross_shard (fresh_setup 2 2) demo_payment"
  by (simp add: cross_shard_def demo_payment_def demo_shards)

lemma demo_submission: "submission_ok demo_start demo_leaders demo_payment 7"
proof -
  have ids: "map_of (server_ids (fresh_setup 2 2)) (server_name_of 1) = Some 1"
    "map_of (server_ids (fresh_setup 2 2)) (server_name_of 3) = Some 3"
    by (simp_all add: fresh_setup_ids(2) i32_id int32_def)
  then have "set demo_leaders \<subseteq> set (client_stubs (coord demo_start))"
    by (force simp: demo_leaders_def demo_start_def sys_start_def Client_new_def dest: map_of_SomeD)
  then show ?thesis
    using ids
    by (simp add: submission_ok_def leaders_fit_def leaders_ok_def leader_of_def demo_shards demo_payment_def txn_ok_def
      int32_def int64_def asked_def) (simp add: demo_start_def sys_start_def Client_new_def demo_shards demo_leaders_def)
qed

lemma demo_quiet: "quiet 2 2 demo_start \<lparr>req_txn = demo_payment, req_tid = 7\<rparr>"
  unfolding demo_start_def
  by (rule start_quiet [OF demo_deployment, where x = demo_payment])
    (simp_all add: demo_payment_def txn_ok_def int32_def total_clients_def)

lemma submitted_deliveries_run: "submitted lds x now g = Some k \<Longrightarrow> deliveries k h \<Longrightarrow> sys_run g h"
  using sys_run_trans deliveries_run submitted_run by blast

lemma demo_run:
  obtains h a b where "sys_run demo_start h" and "leads 2 2 demo_payment a b"
    and "logs_commit (log (node demo_start a)) (node h a) \<lparr>req_txn = demo_payment, req_tid = 7\<rparr>"
    and "logs_commit (log (node demo_start b)) (node h b) \<lparr>req_txn = demo_payment, req_tid = 7\<rparr>"
  using can_commit [OF demo_deployment _ start_inv [OF demo_deployment, of "\<lambda>_. plain_boot", folded demo_start_def]
      demo_submission demo_payment_cross demo_quiet] submitted_deliveries_run that by (metis order_refl)

lemma demo_commit:
  obtains h a b e d where "sys_run (sys_start 2 2 (\<lambda>_. empty_file) (\<lambda>_. plain_boot)) h"
    and "a \<in> members 2 2" and "b \<in> members 2 2" and "cluster_of 2 2 a = 1" and "cluster_of 2 2 b = 2"
    and "e \<in> set (log (node h a))" and "d \<in> set (log (node h b))" and "e_tid e = 7" and "e_tid d = 7"
    and "e_txn e = demo_payment" and "e_type e = CROSS" and "e_status e = COMMITTED" and "e_status d = COMMITTED"
proof -
  obtain h a b where "sys_run demo_start h" and ab: "leads 2 2 demo_payment a b"
    and logs: "logs_commit (log (node demo_start a)) (node h a) \<lparr>req_txn = demo_payment, req_tid = 7\<rparr>"
      "logs_commit (log (node demo_start b)) (node h b) \<lparr>req_txn = demo_payment, req_tid = 7\<rparr>"
    using demo_run .
  moreover obtain e where "e \<in> set (log (node h a))" "e_tid e = 7" "e_txn e = demo_payment" "e_type e = CROSS"
    "e_status e = COMMITTED"
    using logs_commit_entry [OF logs(1)] by auto
  moreover obtain d where "d \<in> set (log (node h b))" "e_tid d = 7" "e_status d = COMMITTED"
    using logs_commit_entry [OF logs(2)] by auto
  moreover have "a \<in> members 2 2" "b \<in> members 2 2" "cluster_of 2 2 a = 1" "cluster_of 2 2 b = 2"
    using ab by (simp_all add: leads_def demo_payment_def demo_shards)
  ultimately show thesis using that [of h a b e d] by (simp add: demo_start_def)
qed

section \<open>What holds in every reachable state\<close>

text \<open>
  C11. The whole system is well typed: in every state that the servers, the client and the
  network can reach together, every server satisfies the invariant of its data and its control
  state, every request and reply under way fits its type and names servers of the right
  cluster, no call goes through an empty stub, and no synchronisation asks for an index before
  the log. This needs no assumption about the messages: they come from the handlers.
\<close>

theorem system_typed:
  assumes "deployment_ok nc sz f" and "sys_run (sys_start nc sz f v) g"
  shows "(\<forall>i \<in> members nc sz. server_ok (start_balance nc sz i) (node g i))
    \<and> (\<forall>p \<in> set (net g). packet_ok nc sz g p)
    \<and> (\<forall>i j. Peer j (NullStub i) \<notin> set (net g))"
proof -
  have inv: "sys_inv nc sz g" by (rule sys_run_inv [OF assms])
  then have "\<forall>p \<in> set (net g). packet_ok nc sz g p" by (simp add: sys_inv_def)
  then show ?thesis using inv_node(2) [OF inv] by fastforce
qed

theorem system_typed_witness:
  "\<exists>h a e. sys_run (sys_start 2 2 (\<lambda>_. empty_file) (\<lambda>_. plain_boot)) h \<and> e \<in> set (log (node h a)) \<and> e_status e = COMMITTED
    \<and> server_ok (start_balance 2 2 a) (node h a)"
proof -
  obtain h a e where h: "sys_run (sys_start 2 2 (\<lambda>_. empty_file) (\<lambda>_. plain_boot)) h" "a \<in> members 2 2"
    "e \<in> set (log (node h a))" "e_status e = COMMITTED" by (rule demo_commit)
  then show ?thesis using system_typed [OF demo_deployment h(1)] by blast
qed

text \<open>
  C10. Nothing is invented: every entry in the log of every server carries the identifier and
  the transaction of a request that the client sent, it is of the cross-shard type exactly when
  the clients belong to different shards, and a decided cross-shard entry repeats a decision
  that the client sent.
\<close>

theorem entries_were_asked:
  assumes "deployment_ok nc sz f" and "sys_run (sys_start nc sz f v) g" and "i \<in> members nc sz"
    and "e \<in> set (log (node g i))"
  shows "(\<exists>r \<in> asked g. req_tid r = e_tid e \<and> req_txn r = e_txn e)
    \<and> (e_type e = CROSS \<longleftrightarrow> cross_shard (fresh_setup nc sz) (e_txn e))
    \<and> (e_type e = CROSS \<and> e_status e = COMMITTED \<longrightarrow> (\<exists>n. SendTpcCommit n (e_tid e) \<in> set (sent g)))
    \<and> (e_type e = CROSS \<and> e_status e = ABORTED \<longrightarrow> (\<exists>n. SendTpcAbort n (e_tid e) \<in> set (sent g)))"
  using reachable_entry [OF assms]
  by (auto simp: entry_good_def committed_def aborted_def split: if_splits)

theorem entries_were_asked_witness:
  "\<exists>h n. sys_run (sys_start 2 2 (\<lambda>_. empty_file) (\<lambda>_. plain_boot)) h \<and> SendTpcCommit n 7 \<in> set (sent h)"
proof -
  obtain h a e where h: "sys_run (sys_start 2 2 (\<lambda>_. empty_file) (\<lambda>_. plain_boot)) h" "a \<in> members 2 2"
    "e \<in> set (log (node h a))" "e_tid e = 7" "e_type e = CROSS" "e_status e = COMMITTED" by (rule demo_commit)
  then show ?thesis using entries_were_asked [OF demo_deployment h(1-3)] by auto
qed

text \<open>
  C1. Agreement on outcomes: in every reachable state of the system, whatever was delayed or
  lost, two log entries about the same transaction at any two servers, of the same or of
  different clusters, that are not mere preparations name the same transaction, type and
  outcome.
\<close>

theorem decisions_agree:
  assumes "deployment_ok nc sz f" and "sys_run (sys_start nc sz f v) g"
    and "i \<in> members nc sz" and "e \<in> set (log (node g i))" and "e_status e \<noteq> PREPARED"
    and "j \<in> members nc sz" and "d \<in> set (log (node g j))" and "e_status d \<noteq> PREPARED"
    and "e_tid e = e_tid d"
  shows "e_txn e = e_txn d \<and> e_type e = e_type d \<and> e_status e = e_status d"
proof -
  have inv: "sys_inv nc sz g" by (rule sys_run_inv [OF assms(1,2)])
  have e: "entry_good nc sz g e" and d: "entry_good nc sz g d"
    using reachable_entry [OF assms(1,2)] assms by simp_all
  have "inj_on req_tid (asked g)" using inv by (simp add: sys_inv_def coord_inv_def)
  then have txn: "e_txn e = e_txn d"
    using e d assms(9) unfolding entry_good_def by (metis inj_onD)
  show ?thesis
  proof (cases "cross_shard (fresh_setup nc sz) (e_txn e)")
    case True
    then obtain a b where "tally g (e_tid e) (e_txn e) {a, b}" using entry_tally [OF inv e] by blast
    from tally_decided(1) [OF this] show ?thesis
      using e d txn True assms(5,8,9) by (auto simp: entry_good_def)
  next
    case False
    then show ?thesis using e d txn by (simp add: entry_good_def)
  qed
qed

theorem decisions_agree_witness:
  "\<exists>h a b e d. sys_run (sys_start 2 2 (\<lambda>_. empty_file) (\<lambda>_. plain_boot)) h \<and> cluster_of 2 2 a \<noteq> cluster_of 2 2 b
    \<and> e \<in> set (log (node h a)) \<and> d \<in> set (log (node h b)) \<and> e_status e = COMMITTED
    \<and> e_txn e = e_txn d \<and> e_type e = e_type d \<and> e_status e = e_status d"
proof -
  obtain h a b e d where h: "sys_run (sys_start 2 2 (\<lambda>_. empty_file) (\<lambda>_. plain_boot)) h" "a \<in> members 2 2" "b \<in> members 2 2"
    "cluster_of 2 2 a = 1" "cluster_of 2 2 b = 2" "e \<in> set (log (node h a))" "d \<in> set (log (node h b))"
    "e_tid e = 7" "e_tid d = 7" "e_status e = COMMITTED" "e_status d = COMMITTED" by (rule demo_commit)
  then have "e_status e \<noteq> PREPARED" "e_status d \<noteq> PREPARED" "e_tid e = e_tid d" "cluster_of 2 2 a \<noteq> cluster_of 2 2 b" by simp_all
  then show ?thesis using decisions_agree [OF demo_deployment h(1,2,6) _ h(3,7)] h by blast
qed

text \<open>
  C2. A commit needs both clusters: when any server has logged the commit of a cross-shard
  transaction, a server of the sender's cluster and a server of the receiver's cluster have
  each logged it as prepared.
\<close>

theorem commit_needs_both:
  assumes "deployment_ok nc sz f" and "sys_run (sys_start nc sz f v) g"
    and "i \<in> members nc sz" and "e \<in> set (log (node g i))" and "e_type e = CROSS" and "e_status e = COMMITTED"
  shows "\<exists>a b. a \<in> members nc sz \<and> cluster_of nc sz a = shard_of nc sz (sender (e_txn e)) \<and> prepared (node g a) (e_tid e)
    \<and> b \<in> members nc sz \<and> cluster_of nc sz b = shard_of nc sz (receiver (e_txn e)) \<and> prepared (node g b) (e_tid e)"
proof -
  have inv: "sys_inv nc sz g" by (rule sys_run_inv [OF assms(1,2)])
  have e: "entry_good nc sz g e" using reachable_entry [OF assms(1-4)] .
  have x: "cross_shard (fresh_setup nc sz) (e_txn e)" and c: "committed g (e_tid e)"
    using e assms(5,6) by (auto simp: entry_good_def split: if_splits)
  obtain a b where "leads nc sz (e_txn e) a b" "tally g (e_tid e) (e_txn e) {a, b}"
    using entry_tally [OF inv e x] .
  then show ?thesis using tally_decided(2) [OF _ c] by (fastforce simp: leads_def)
qed

theorem commit_needs_both_witness:
  "\<exists>h a b. sys_run (sys_start 2 2 (\<lambda>_. empty_file) (\<lambda>_. plain_boot)) h
    \<and> cluster_of 2 2 a = 1 \<and> prepared (node h a) 7 \<and> cluster_of 2 2 b = 2 \<and> prepared (node h b) 7"
proof -
  obtain h a e where h: "sys_run (sys_start 2 2 (\<lambda>_. empty_file) (\<lambda>_. plain_boot)) h" "a \<in> members 2 2"
    "e \<in> set (log (node h a))" "e_type e = CROSS" "e_status e = COMMITTED" and e: "e_tid e = 7" "e_txn e = demo_payment"
    by (rule demo_commit)
  have "shard_of 2 2 (sender demo_payment) = 1" "shard_of 2 2 (receiver demo_payment) = 2"
    by (simp_all add: demo_payment_def demo_shards)
  then show ?thesis using commit_needs_both [OF demo_deployment h] h(1) e by metis
qed



text \<open>
  C9. Answers are true when they are sent: as long as a positive answer is on its way to the
  client, the server that gave it has the transaction that the client asked for in its log,
  committed if it is a transfer inside a shard, prepared if it is a vote of two-phase commit.
\<close>

theorem answers_are_true:
  assumes "deployment_ok nc sz f" and "sys_run (sys_start nc sz f v) g"
    and "TransferAnswer x i res \<in> set (net g)" and "res_ack res"
  shows "\<exists>r \<in> asked g. \<exists>e \<in> set (log (node g i)). req_tid r = res_tid res \<and> e_tid e = req_tid r \<and> e_txn e = req_txn r
    \<and> e_type e = (if x then CROSS else INTRA) \<and> e_status e = (if x then PREPARED else COMMITTED)"
proof -
  have inv: "sys_inv nc sz g" by (rule sys_run_inv [OF assms(1,2)])
  then have p: "packet_ok nc sz g (TransferAnswer x i res)" using assms(3) unfolding sys_inv_def by blast
  then have i: "i \<in> members nc sz" by simp
  obtain e where e: "e \<in> set (log (node g i))" "e_tid e = res_tid res" "e_type e = (if x then CROSS else INTRA)"
    "e_status e = (if x then PREPARED else COMMITTED)"
    using p assms(4) by (cases x) (auto simp: prepared_def applied_def)
  from reachable_entry [OF assms(1,2) i e(1)] obtain r where "r \<in> asked g" "req_tid r = e_tid e" "req_txn r = e_txn e"
    by (auto simp: entry_good_def)
  then show ?thesis using e by (intro bexI [of _ r] bexI [of _ e]) simp_all
qed

theorem answers_are_true_witness:
  "\<exists>h i e. sys_run (sys_start 2 2 (\<lambda>_. empty_file) (\<lambda>_. plain_boot)) h \<and> e \<in> set (log (node h i)) \<and> e_tid e = 7 \<and> e_status e = PREPARED"
proof -
  obtain k h a b where k: "submitted demo_leaders demo_payment 7 demo_start = Some k" "deliveries k h"
    and h: "both_prepared 2 2 demo_start h \<lparr>req_txn = demo_payment, req_tid = 7\<rparr> a b"
    using can_prepare_both [OF demo_deployment _ start_inv [OF demo_deployment, of "\<lambda>_. plain_boot", folded demo_start_def]
      demo_submission demo_payment_cross demo_quiet] by (metis order_refl)
  then have run: "sys_run (sys_start 2 2 (\<lambda>_. empty_file) (\<lambda>_. plain_boot)) h"
    and "TransferAnswer True a \<lparr>res_ack = True, res_tid = 7\<rparr> \<in> set (net h)"
    using submitted_deliveries_run [OF k] by (simp_all add: demo_start_def both_prepared_def)
  from answers_are_true [OF demo_deployment this] obtain e where "e \<in> set (log (node h a))" "e_tid e = 7" "e_status e = PREPARED"
    by auto
  then show ?thesis using run by blast
qed

end
