(* ===== verification/Tpc_Network_Nodes.thy ===== *)
theory Tpc_Network_Nodes
  imports Tpc_Network_Main
begin

text \<open>
  Every server of the system runs like a server on its own: whatever the network does, its
  state changes by steps of its handlers only. So what holds in all reachable states of a
  single server holds for every server of the system. Logs only grow.
\<close>

definition moves :: "ServerImpl \<Rightarrow> ServerImpl \<Rightarrow> bool" where
  "moves s t \<longleftrightarrow> t = s \<or> server_step s t"

lemma deliver_moves:
  assumes inv: "sys_inv nc sz g" and p: "p \<in> set (net g)"
  shows "moves (node g j) (node (deliver u now p (g\<lparr>net := remove1 p (net g)\<rparr>)) j)"
proof -
  have ok: "packet_ok nc sz g p" using inv p unfolding sys_inv_def by blast
  have ask: "r \<in> asked g \<Longrightarrow> req_ok r" for r using inv_asked [OF inv] .
  show ?thesis
  proof (cases p)
    case (Peer k m)
    show ?thesis
    proof (cases m)
      case (SendPrepare i q)
      then show ?thesis
        using Peer ok server_step.prepare [of q "node g i" no_PrepareRes] by (auto simp: node_does_def moves_def split: prod.split)
    next
      case (SendAccept i q)
      then show ?thesis
        using Peer ok ask server_step.accept [of q "node g i" no_AcceptRes] by (auto simp: node_does_def moves_def split: prod.split)
    next
      case (SendCommit i q)
      then show ?thesis using Peer server_step.commit by (auto simp: node_does_def moves_def)
    qed (use Peer in \<open>auto simp: node_does_def moves_def\<close>)
  next
    case (PrepareAnswer k q res)
    then show ?thesis
      using server_step.prepare_reply [of "node g k" StatusOK q res] by (auto simp: node_does_def moves_def split: prod.split)
  next
    case (AcceptAnswer k q res)
    then show ?thesis using server_step.accept_reply by (auto simp: node_does_def moves_def)
  next
    case (SyncAnswer k res)
    then show ?thesis
      using ok server_step.sync_reply [of res "node g k" StatusOK] by (auto simp: node_does_def moves_def list_all_iff)
  next
    case (Serving x i r res)
    then show ?thesis
      using ok ask server_step.transfer [of r "node g i" res x]
      by (auto simp: node_does_def moves_def run_call_eq split: prod.split)
  next
    case (TransferAnswer x i res)
    then show ?thesis by (simp add: client_reply_def client_sends_def moves_def split: prod.split)
  next
    case (Decision b i t)
    then show ?thesis using server_step.decision by (auto simp: node_does_def moves_def)
  next
    case (Disconnection i names)
    then show ?thesis using server_step.disconnect by (auto simp: node_does_def moves_def)
  qed
qed

lemma sys_step_moves:
  assumes inv: "sys_inv nc sz g" and step: "sys_step g h"
  shows "moves (node g j) (node h j)"
  using step
proof cases
  case (deliver p u now)
  then show ?thesis using deliver_moves [OF inv] by simp
next
  case (prepare_failed st i q)
  then show ?thesis using server_step.prepare_reply by (auto simp: node_does_def moves_def)
next
  case (accept_failed st i q)
  then show ?thesis using server_step.accept_reply by (auto simp: node_does_def moves_def)
next
  case (sync_failed st i)
  then show ?thesis
    using server_step.sync_reply [of no_SyncRes "node g i" st] by (auto simp: node_does_def moves_def no_SyncRes_def)
next
  case (query i c)
  then show ?thesis using server_step.balance by (auto simp: node_does_def moves_def)
qed (simp_all add: client_reply_def client_sends_def moves_def split: prod.split)

lemma sys_step_sent: "sys_step g h \<Longrightarrow> set (sent g) \<subseteq> set (sent h)"
proof (induction rule: sys_step.induct)
  case (deliver p g u now)
  then show ?case
    by (cases "(u, now, p, g)" rule: deliver.cases)
      (simp_all add: node_does_def client_reply_def client_sends_def Let_def split: prod.split)
qed (auto simp: client_sends_def node_does_def client_reply_def split: prod.split)

section \<open>Logs grow\<close>

lemma server_step_log:
  assumes "server_step s t" and "server_ok base s"
  shows "\<exists>es. log t = log s @ es"
  using assms(1)
proof cases
  case (transfer r res x)
  then show ?thesis using runPaxos_grows [OF assms(2)] unfolding grows_def by blast
next
  case (decision u t ic)
  then show ?thesis using processTpcDecision_grows [OF assms(2)] unfolding grows_def by blast
next
  case (accept q ares)
  then show ?thesis using processAcceptCall_grows [OF assms(2)] unfolding grows_def by blast
next
  case (commit q)
  then show ?thesis using processCommitCall_grows [OF assms(2)] unfolding grows_def by blast
next
  case (sync_reply sres st)
  then show ?thesis using handleSyncReply_grows [OF assms(2)] unfolding grows_def by blast
next
  case (prepare q pres)
  then show ?thesis using processPrepareCall_data [of s q pres] by (simp add: same_data_def)
next
  case (prepare_reply st q pres)
  then show ?thesis using handlePrepareReply_data [of s st q pres] by (simp add: same_data_def)
next
  case (accept_reply st q ares)
  then show ?thesis using handleAcceptReply_data [of s st q ares] by (simp add: same_data_def)
next
  case (balance c)
  then show ?thesis using processGetBalanceCall_data [of s c] by (simp add: same_data_def)
next
  case (disconnect names)
  then show ?thesis using processDisconnectCall_data [of s names] by (simp add: same_data_def)
qed

lemma sys_step_log:
  assumes "sys_inv nc sz g" and "sys_step g h" and "i \<in> members nc sz"
  shows "\<exists>es. log (node h i) = log (node g i) @ es"
  using sys_step_moves [OF assms(1,2), of i] server_step_log inv_node(2) [OF assms(1,3)]
  by (fastforce simp: moves_def)

section \<open>Projection to one server\<close>

lemma sys_run_steps: "sys_run g h \<longleftrightarrow> sys_step\<^sup>*\<^sup>* g h"
proof
  show "sys_run g h \<Longrightarrow> sys_step\<^sup>*\<^sup>* g h"
    by (induction rule: sys_run.induct) (auto intro: rtranclp.rtrancl_into_rtrancl)
  show "sys_step\<^sup>*\<^sup>* g h \<Longrightarrow> sys_run g h"
    by (induction rule: rtranclp_induct) (auto intro: sys_run.intros)
qed

interpretation server_of: simulation sys_step "\<lambda>g. setup_ok nc sz \<and> sys_inv nc sz g" "\<lambda>g. node g i" server_run for nc sz i
proof
  show "setup_ok nc sz \<and> sys_inv nc sz h" if "setup_ok nc sz \<and> sys_inv nc sz g" "sys_step g h" for g h
    using that sys_step_inv by blast
  show "server_run (node g i) (node h i)" if "setup_ok nc sz \<and> sys_inv nc sz g" "sys_step g h" for g h
    using sys_step_moves [of nc sz g h i] that server_run.step [OF server_run.stay] server_run.stay
    by (auto simp: moves_def)
  show "server_run s s" for s by (rule server_run.stay)
  show "server_run s u" if "server_run s t" "server_run t u" for s t u using server_run_trans that by blast
qed

lemma run_server:
  assumes "deployment_ok nc sz f" and "sys_run (sys_start nc sz f v) g"
  shows "server_run (started (fresh_setup nc sz) i (server_name_of i) (f i) (v i)) (node g i)"
  using server_of.steps_run [of "sys_start nc sz f v" g nc sz i] assms start_inv [OF assms(1), of v]
  by (simp add: sys_run_steps deployment_ok_def) (simp add: sys_start_def)

end
