(* ===== verification/Tpc_Network_Spec.thy ===== *)
theory Tpc_Network_Spec
  imports Tpc_Network_Claims Tpc_Network_Nodes
begin

text \<open>
  What two-phase commit promises, as an abstract machine, and that the system of servers, client
  and network implements it step by step.
\<close>

section \<open>Atomic commitment\<close>

text \<open>
  The machine knows the cross-shard requests, which servers have prepared which transaction, the
  verdict on each and the outcome that each server has recorded.
\<close>

record Commitment =
  requested :: "TransferReq set"
  ready_at :: "(int \<times> TpcTid) set"
  verdict :: "TpcTid \<rightharpoonup> bool"
  outcome :: "int \<times> TpcTid \<rightharpoonup> bool"

definition both_ready :: "int \<Rightarrow> int \<Rightarrow> TransferReq \<Rightarrow> Commitment \<Rightarrow> bool" where
  "both_ready nc sz r m \<longleftrightarrow> (\<exists>a b. leads nc sz (req_txn r) a b \<and> (a, req_tid r) \<in> ready_at m \<and> (b, req_tid r) \<in> ready_at m)"

inductive commit_step :: "int \<Rightarrow> int \<Rightarrow> Commitment \<Rightarrow> Commitment \<Rightarrow> bool" for nc sz where
  request: "req_tid r \<notin> req_tid ` requested m \<Longrightarrow>
    commit_step nc sz m (m\<lparr>requested := insert r (requested m)\<rparr>)"
| ready: "t \<in> req_tid ` requested m \<Longrightarrow>
    commit_step nc sz m (m\<lparr>ready_at := insert (i, t) (ready_at m)\<rparr>)"
| decide: "r \<in> requested m \<Longrightarrow> verdict m (req_tid r) = None \<Longrightarrow> (ok \<longrightarrow> both_ready nc sz r m) \<Longrightarrow>
    commit_step nc sz m (m\<lparr>verdict := (verdict m)(req_tid r \<mapsto> ok)\<rparr>)"
| learn: "verdict m t = Some ok \<Longrightarrow> outcome m (i, t) = None \<Longrightarrow>
    commit_step nc sz m (m\<lparr>outcome := (outcome m)((i, t) \<mapsto> ok)\<rparr>)"

inductive commit_run :: "int \<Rightarrow> int \<Rightarrow> Commitment \<Rightarrow> Commitment \<Rightarrow> bool" for nc sz where
  commit_stay: "commit_run nc sz m m"
| commit_more: "commit_run nc sz m n \<Longrightarrow> commit_step nc sz n k \<Longrightarrow> commit_run nc sz m k"

definition no_commitments :: Commitment where
  "no_commitments = \<lparr>requested = {}, ready_at = {}, verdict = Map.empty, outcome = Map.empty\<rparr>"

lemma commit_run_trans: "commit_run nc sz n k \<Longrightarrow> commit_run nc sz m n \<Longrightarrow> commit_run nc sz m k"
  by (induction rule: commit_run.induct) (auto intro: commit_more)

section \<open>Growth is a run\<close>

lemma request_many:
  assumes "finite R" and "inj_on req_tid (requested m \<union> R)"
  shows "commit_run nc sz m (m\<lparr>requested := requested m \<union> R\<rparr>)"
  using assms
proof (induction R rule: finite_induct)
  case empty
  then show ?case by (simp add: commit_stay)
next
  case (insert r R)
  let ?n = "m\<lparr>requested := requested m \<union> R\<rparr>"
  have run: "commit_run nc sz m ?n" using insert by (simp add: inj_on_Un)
  show ?case
  proof (cases "r \<in> requested m")
    case True
    then show ?thesis using run by (simp add: insert_absorb)
  next
    case False
    have "req_tid r \<notin> req_tid ` requested ?n"
      using insert.prems insert.hyps(2) False by (auto simp: inj_on_def)
    from commit_more [OF run commit_step.request [OF this]] show ?thesis by simp
  qed
qed

lemma ready_many:
  assumes "finite P" and "snd ` P \<subseteq> req_tid ` requested m"
  shows "commit_run nc sz m (m\<lparr>ready_at := ready_at m \<union> P\<rparr>)"
  using assms
proof (induction P rule: finite_induct)
  case (insert p P)
  let ?n = "m\<lparr>ready_at := ready_at m \<union> P\<rparr>"
  have "commit_run nc sz m ?n" "snd p \<in> req_tid ` requested ?n" using insert by simp_all
  from commit_more [OF this(1) commit_step.ready [OF this(2), of nc sz "fst p"]] show ?case by simp
qed (simp add: commit_stay)

lemma decide_many:
  assumes "finite D" and "\<And>t. t \<in> D \<Longrightarrow> verdict m t = None"
    and "\<And>t. t \<in> D \<Longrightarrow> \<exists>r \<in> requested m. req_tid r = t \<and> (v t \<longrightarrow> both_ready nc sz r m)"
  shows "commit_run nc sz m (m\<lparr>verdict := (\<lambda>t. if t \<in> D then Some (v t) else verdict m t)\<rparr>)"
  using assms
proof (induction D rule: finite_induct)
  case (insert t D)
  let ?n = "m\<lparr>verdict := (\<lambda>t. if t \<in> D then Some (v t) else verdict m t)\<rparr>"
  obtain r where r: "r \<in> requested m" "req_tid r = t" "v t \<longrightarrow> both_ready nc sz r m" using insert.prems(2) [of t] by auto
  have run: "commit_run nc sz m ?n" using insert by simp
  have "r \<in> requested ?n" "verdict ?n (req_tid r) = None" "v t \<longrightarrow> both_ready nc sz r ?n"
    using r insert.hyps(2) insert.prems(1) by (simp_all add: both_ready_def)
  from commit_more [OF run commit_step.decide [OF this]]
  show ?case by (rule back_subst [of "commit_run nc sz m"]) (auto simp: r(2) fun_eq_iff)
qed (simp add: commit_stay)

lemma learn_many:
  assumes "finite O'" and "\<And>p. p \<in> O' \<Longrightarrow> outcome m p = None" and "\<And>p. p \<in> O' \<Longrightarrow> verdict m (snd p) = Some (v p)"
  shows "commit_run nc sz m (m\<lparr>outcome := (\<lambda>p. if p \<in> O' then Some (v p) else outcome m p)\<rparr>)"
  using assms
proof (induction O' rule: finite_induct)
  case (insert p O')
  let ?n = "m\<lparr>outcome := (\<lambda>p. if p \<in> O' then Some (v p) else outcome m p)\<rparr>"
  have run: "commit_run nc sz m ?n" using insert by simp
  have "verdict ?n (snd p) = Some (v p)" "outcome ?n (fst p, snd p) = None" using insert by simp_all
  from commit_more [OF run commit_step.learn [OF this]]
  show ?case by (rule back_subst [of "commit_run nc sz m"]) (auto simp: fun_eq_iff)
qed (simp add: commit_stay)

text \<open>A consistent state, and a state that has only grown.\<close>

definition commitment_ok :: "int \<Rightarrow> int \<Rightarrow> Commitment \<Rightarrow> bool" where
  "commitment_ok nc sz m \<longleftrightarrow> finite (requested m) \<and> finite (ready_at m) \<and> finite (dom (outcome m)) \<and> inj_on req_tid (requested m)
     \<and> snd ` ready_at m \<subseteq> req_tid ` requested m
     \<and> (\<forall>t ok. verdict m t = Some ok \<longrightarrow> (\<exists>r \<in> requested m. req_tid r = t \<and> (ok \<longrightarrow> both_ready nc sz r m)))
     \<and> (\<forall>i t ok. outcome m (i, t) = Some ok \<longrightarrow> verdict m t = Some ok)"

definition commitment_le :: "Commitment \<Rightarrow> Commitment \<Rightarrow> bool" where
  "commitment_le m n \<longleftrightarrow> requested m \<subseteq> requested n \<and> ready_at m \<subseteq> ready_at n \<and> verdict m \<subseteq>\<^sub>m verdict n \<and> outcome m \<subseteq>\<^sub>m outcome n"

lemma map_le_fill:
  assumes "m \<subseteq>\<^sub>m n"
  shows "(\<lambda>t. if t \<in> {t. m t = None \<and> n t \<noteq> None} then Some (the (n t)) else m t) = n"
proof
  fix t show "(if t \<in> {t. m t = None \<and> n t \<noteq> None} then Some (the (n t)) else m t) = n t"
    using assms by (cases "m t") (auto simp: map_le_def dom_def)
qed

lemma growth_is_a_run:
  assumes ok: "commitment_ok nc sz n" and le: "commitment_le m n"
  shows "commit_run nc sz m n"
proof -
  define m1 where "m1 = m\<lparr>requested := requested m \<union> requested n\<rparr>"
  define m2 where "m2 = m1\<lparr>ready_at := ready_at m1 \<union> ready_at n\<rparr>"
  define D where "D = {t. verdict m t = None \<and> verdict n t \<noteq> None}"
  define m3 where "m3 = m2\<lparr>verdict := (\<lambda>t. if t \<in> D then Some (the (verdict n t)) else verdict m2 t)\<rparr>"
  define E where "E = {p. outcome m p = None \<and> outcome n p \<noteq> None}"
  define m4 where "m4 = m3\<lparr>outcome := (\<lambda>p. if p \<in> E then Some (the (outcome n p)) else outcome m3 p)\<rparr>"
  have sets: "requested m \<union> requested n = requested n" "ready_at m \<union> ready_at n = ready_at n"
    using le by (auto simp: commitment_le_def)
  have verdict: "(\<lambda>t. if t \<in> D then Some (the (verdict n t)) else verdict m t) = verdict n"
    unfolding D_def by (rule map_le_fill) (use le in \<open>simp add: commitment_le_def\<close>)
  have outcome: "(\<lambda>p. if p \<in> E then Some (the (outcome n p)) else outcome m p) = outcome n"
    unfolding E_def by (rule map_le_fill) (use le in \<open>simp add: commitment_le_def\<close>)
  have parts: "verdict m2 = verdict m" "outcome m3 = outcome m" by (simp_all add: m3_def m2_def m1_def)
  have v3: "verdict m3 = verdict n" unfolding m3_def parts(1) using verdict by simp
  have "outcome m4 = outcome n" unfolding m4_def parts(2) using outcome by simp
  then have n: "m4 = n"
    using sets v3 by (intro Commitment.equality) (simp_all add: m4_def m3_def m2_def m1_def)
  have "commit_run nc sz m m1"
    unfolding m1_def by (rule request_many) (use ok sets in \<open>simp_all add: commitment_ok_def\<close>)
  moreover have "commit_run nc sz m1 m2"
    unfolding m2_def by (rule ready_many) (use ok sets in \<open>simp_all add: commitment_ok_def m1_def\<close>)
  moreover have "commit_run nc sz m2 m3"
    unfolding m3_def
  proof (rule decide_many)
    have "D \<subseteq> req_tid ` requested n" using ok by (fastforce simp: D_def commitment_ok_def)
    then show "finite D" using ok finite_subset by (fastforce simp: commitment_ok_def)
    show "verdict m2 t = None" if "t \<in> D" for t using that by (simp add: m2_def m1_def D_def)
    show "\<exists>r \<in> requested m2. req_tid r = t \<and> (the (verdict n t) \<longrightarrow> both_ready nc sz r m2)" if "t \<in> D" for t
      using that ok sets by (auto simp: m2_def m1_def D_def commitment_ok_def both_ready_def)
  qed
  moreover have "commit_run nc sz m3 m4"
    unfolding m4_def
  proof (rule learn_many)
    have "E \<subseteq> dom (outcome n)" by (auto simp: E_def)
    then show "finite E" using ok finite_subset by (auto simp: commitment_ok_def)
    show "outcome m3 p = None" if "p \<in> E" for p using that by (simp add: m3_def m2_def m1_def E_def)
    show "verdict m3 (snd p) = Some (the (outcome n p))" if "p \<in> E" for p
    proof -
      obtain ok where ok: "outcome n p = Some ok" using \<open>p \<in> E\<close> by (auto simp: E_def)
      then have "verdict n (snd p) = Some ok" using assms(1) unfolding commitment_ok_def by (metis prod.collapse)
      then show ?thesis using ok v3 by simp
    qed
  qed
  ultimately show ?thesis using commit_run_trans n by metis
qed

section \<open>The system implements it\<close>

definition decided_in :: "ServerImpl \<Rightarrow> TpcTid \<Rightarrow> TransactionStatus \<Rightarrow> bool" where
  "decided_in s t st \<longleftrightarrow> (\<exists>e \<in> set (log s). e_tid e = t \<and> e_type e = CROSS \<and> e_status e = st)"

definition commitment :: "int \<Rightarrow> int \<Rightarrow> System \<Rightarrow> Commitment" where
  "commitment nc sz g =
     \<lparr>requested = {r \<in> asked g. cross_shard (fresh_setup nc sz) (req_txn r)},
      ready_at = {(i, t). i \<in> members nc sz \<and> prepared (node g i) t},
      verdict = (\<lambda>t. if committed g t then Some True else if aborted g t then Some False else None),
      outcome = (\<lambda>(i, t). if i \<in> members nc sz \<and> decided_in (node g i) t COMMITTED then Some True
                          else if i \<in> members nc sz \<and> decided_in (node g i) t ABORTED then Some False else None)\<rparr>"

lemma finite_asked: "finite (asked g)"
proof -
  have "finite (requests_in m)" for m by (cases m) simp_all
  then show ?thesis by (simp add: asked_def)
qed

lemma log_tids: "finite {(i, t). i \<in> members nc sz \<and> (\<exists>e \<in> set (log (node g i)). e_tid e = t)}"
proof (rule finite_subset)
  show "{(i, t). i \<in> members nc sz \<and> (\<exists>e \<in> set (log (node g i)). e_tid e = t)}
    \<subseteq> (\<Union>i \<in> members nc sz. Pair i ` e_tid ` set (log (node g i)))" by auto
qed (simp add: members_def)

lemma cross_entry_requested:
  assumes "sys_inv nc sz g" and "i \<in> members nc sz" and "e \<in> set (log (node g i))" and "e_type e = CROSS"
  shows "\<exists>r \<in> requested (commitment nc sz g). req_tid r = e_tid e"
    and "e_status e = COMMITTED \<Longrightarrow> committed g (e_tid e)" and "e_status e = ABORTED \<Longrightarrow> aborted g (e_tid e)"
proof -
  have good: "entry_good nc sz g e" using inv_node(5) [OF assms(1,2)] assms(3) by (simp add: node_good_def)
  then have cross: "cross_shard (fresh_setup nc sz) (e_txn e)" using assms(4) by (auto simp: entry_good_def split: if_splits)
  then show "e_status e = COMMITTED \<Longrightarrow> committed g (e_tid e)" and "e_status e = ABORTED \<Longrightarrow> aborted g (e_tid e)"
    using good by (auto simp: entry_good_def)
  obtain r where "r \<in> asked g" "req_tid r = e_tid e" "req_txn r = e_txn e" using good by (auto simp: entry_good_def)
  then show "\<exists>r \<in> requested (commitment nc sz g). req_tid r = e_tid e"
    using cross by (intro bexI [of _ r]) (simp_all add: commitment_def)
qed

lemma outcome_was_sent:
  assumes "sys_inv nc sz g" and "i \<in> members nc sz"
  shows "decided_in (node g i) t COMMITTED \<Longrightarrow> committed g t" and "decided_in (node g i) t ABORTED \<Longrightarrow> aborted g t"
  using cross_entry_requested(2,3) [OF assms] by (auto simp: decided_in_def)

lemma verdict_sound:
  assumes inv: "sys_inv nc sz g" and "committed g t \<or> aborted g t"
  shows "\<not> (committed g t \<and> aborted g t)"
    and "\<exists>r \<in> requested (commitment nc sz g). req_tid r = t \<and> (committed g t \<longrightarrow> both_ready nc sz r (commitment nc sz g))"
proof -
  have co: "coord_inv nc sz g" using inv by (simp add: sys_inv_def)
  then have "\<not> untouched g t" using assms(2) by (auto simp: untouched_def)
  then obtain r where r: "r \<in> asked g" "req_tid r = t" "cross_shard (fresh_setup nc sz) (req_txn r)"
    using co unfolding coord_inv_def by blast
  then obtain a b where ab: "leads nc sz (req_txn r) a b" "tally g t (req_txn r) {a, b}"
    using co unfolding coord_inv_def by metis
  show "\<not> (committed g t \<and> aborted g t)" using tally_decided(1) [OF ab(2)] .
  have "both_ready nc sz r (commitment nc sz g)" if "committed g t"
    using tally_decided(2) [OF ab(2) that] ab(1) r(2) unfolding both_ready_def commitment_def leads_def by auto
  then show "\<exists>r \<in> requested (commitment nc sz g). req_tid r = t \<and> (committed g t \<longrightarrow> both_ready nc sz r (commitment nc sz g))"
    using r by (intro bexI [of _ r]) (auto simp: commitment_def)
qed

lemma system_commitment_ok:
  assumes inv: "sys_inv nc sz g"
  shows "commitment_ok nc sz (commitment nc sz g)" (is "commitment_ok nc sz ?m")
  unfolding commitment_ok_def
proof (intro conjI allI impI)
  show "finite (requested ?m)" using finite_asked [of g] by (simp add: commitment_def)
  have "ready_at ?m \<subseteq> {(i, t). i \<in> members nc sz \<and> (\<exists>e \<in> set (log (node g i)). e_tid e = t)}"
    by (auto simp: commitment_def prepared_def)
  then show "finite (ready_at ?m)" using log_tids finite_subset by blast
  have "dom (outcome ?m) \<subseteq> {(i, t). i \<in> members nc sz \<and> (\<exists>e \<in> set (log (node g i)). e_tid e = t)}"
    by (auto simp: commitment_def decided_in_def split: if_splits)
  then show "finite (dom (outcome ?m))" using log_tids finite_subset by blast
  have "inj_on req_tid (asked g)" using inv by (simp add: sys_inv_def coord_inv_def)
  then show "inj_on req_tid (requested ?m)" by (rule inj_on_subset) (auto simp: commitment_def)
  show "snd ` ready_at ?m \<subseteq> req_tid ` requested ?m"
  proof
    fix t assume "t \<in> snd ` ready_at ?m"
    then obtain i where i: "i \<in> members nc sz" "prepared (node g i) t" by (auto simp: commitment_def)
    then obtain e where e: "e \<in> set (log (node g i))" "e_type e = CROSS" "e_tid e = t" by (auto simp: prepared_def)
    from cross_entry_requested(1) [OF inv i(1) e(1,2)] show "t \<in> req_tid ` requested ?m"
      unfolding image_iff e(3) by metis
  qed
  show "\<exists>r \<in> requested ?m. req_tid r = t \<and> (ok \<longrightarrow> both_ready nc sz r ?m)" if "verdict ?m t = Some ok" for t ok
    using that verdict_sound(2) [OF inv, of t] by (auto simp: commitment_def split: if_splits)
  show "verdict ?m t = Some ok" if out: "outcome ?m (i, t) = Some ok" for i t ok
  proof -
    have i: "i \<in> members nc sz" using out by (auto simp: commitment_def split: if_splits)
    have "decided_in (node g i) t (if ok then COMMITTED else ABORTED)"
      using out by (auto simp: commitment_def split: if_splits)
    then have "if ok then committed g t else aborted g t"
      using outcome_was_sent [OF inv i, of t] by (cases ok) simp_all
    then show ?thesis using verdict_sound(1) [OF inv, of t] by (cases ok) (auto simp: commitment_def)
  qed
qed

lemma sys_step_grows:
  assumes inv: "sys_inv nc sz g" "sys_inv nc sz h" and step: "sys_step g h"
  shows "commitment_le (commitment nc sz g) (commitment nc sz h)"
proof -
  have sent: "set (sent g) \<subseteq> set (sent h)" by (rule sys_step_sent [OF step])
  then have grow: "asked g \<subseteq> asked h" "\<And>t. committed g t \<Longrightarrow> committed h t" "\<And>t. aborted g t \<Longrightarrow> aborted h t"
    by (auto simp: asked_def committed_def aborted_def)
  have log: "set (log (node g i)) \<subseteq> set (log (node h i))" if "i \<in> members nc sz" for i
    using sys_step_log [OF inv(1) step that] by auto
  have out: "decided_in (node g i) t st \<Longrightarrow> decided_in (node h i) t st" if "i \<in> members nc sz" for i t st
    using log [OF that] by (auto simp: decided_in_def)
  have one: "\<not> (decided_in (node h i) t COMMITTED \<and> decided_in (node h i) t ABORTED)" if "i \<in> members nc sz" for i t
    using outcome_was_sent [OF inv(2) that, of t] verdict_sound(1) [OF inv(2), of t] by blast
  have "outcome (commitment nc sz g) \<subseteq>\<^sub>m outcome (commitment nc sz h)"
    using out one by (fastforce simp: commitment_def map_le_def split: if_splits)
  moreover have "verdict (commitment nc sz g) \<subseteq>\<^sub>m verdict (commitment nc sz h)"
    using grow(2,3) verdict_sound(1) [OF inv(2)] by (auto simp: commitment_def map_le_def split: if_splits)
  moreover have "ready_at (commitment nc sz g) \<subseteq> ready_at (commitment nc sz h)"
    using log by (fastforce simp: commitment_def prepared_def)
  ultimately show ?thesis using grow(1) by (auto simp: commitment_le_def commitment_def)
qed

interpretation atomic: simulation sys_step "\<lambda>g. setup_ok nc sz \<and> sys_inv nc sz g" "commitment nc sz" "commit_run nc sz" for nc sz
proof
  show inv: "setup_ok nc sz \<and> sys_inv nc sz h" if "setup_ok nc sz \<and> sys_inv nc sz g" "sys_step g h" for g h
    using that sys_step_inv by blast
  show "commit_run nc sz (commitment nc sz g) (commitment nc sz h)" if "setup_ok nc sz \<and> sys_inv nc sz g" "sys_step g h" for g h
    using growth_is_a_run [OF system_commitment_ok sys_step_grows] inv [OF that] that by blast
  show "commit_run nc sz m m" for m by (rule commit_stay)
  show "commit_run nc sz m k" if "commit_run nc sz m n" "commit_run nc sz n k" for m n k using commit_run_trans that by blast
qed

lemma start_commitment: "commitment nc sz (sys_start nc sz f v) = no_commitments"
proof -
  have "log (node (sys_start nc sz f v) i) = []" for i by (simp add: sys_start_def started_eq)
  moreover have "sent (sys_start nc sz f v) = []" by (simp add: sys_start_def)
  ultimately show ?thesis
    by (simp add: commitment_def no_commitments_def asked_def committed_def aborted_def prepared_def decided_in_def fun_eq_iff)
qed

text \<open>
  C3. The system implements atomic commitment: every run of the servers, the client and the
  network, seen through the requests, the preparations, the decisions sent and the outcomes
  logged, is a run of the abstract machine, in which a transaction is decided at most once, is
  committed only if a leader of each cluster is ready, and every server learns that decision
  and no other; and so is every further part of the run.
\<close>

theorem system_implements_commitment:
  assumes "deployment_ok nc sz f" and "sys_run (sys_start nc sz f v) g" and "sys_run g h"
  shows "commit_run nc sz no_commitments (commitment nc sz g) \<and> commit_run nc sz (commitment nc sz g) (commitment nc sz h)"
proof -
  have "setup_ok nc sz \<and> sys_inv nc sz (sys_start nc sz f v)" "setup_ok nc sz \<and> sys_inv nc sz g"
    using assms(1) start_inv [OF assms(1)] sys_run_inv [OF assms(1,2)] by (simp_all add: deployment_ok_def)
  then show ?thesis
    using atomic.steps_run assms(2,3) start_commitment [of nc sz f v] unfolding sys_run_steps by metis
qed

theorem system_implements_commitment_witness:
  "\<exists>g. sys_run (sys_start 2 2 (\<lambda>_. empty_file) (\<lambda>_. plain_boot)) g \<and> commit_run 2 2 no_commitments (commitment 2 2 g)
    \<and> verdict (commitment 2 2 g) 7 = Some True"
proof -
  obtain g a e where g: "sys_run (sys_start 2 2 (\<lambda>_. empty_file) (\<lambda>_. plain_boot)) g" "a \<in> members 2 2"
    "e \<in> set (log (node g a))" "e_tid e = 7" "e_type e = CROSS" "e_status e = COMMITTED" by (rule demo_commit)
  have "committed g 7"
    using cross_entry_requested(2) [OF sys_run_inv [OF demo_deployment g(1)] g(2,3,5,6)] g(4) by simp
  then have "verdict (commitment 2 2 g) 7 = Some True" by (simp add: commitment_def)
  then show ?thesis using system_implements_commitment [OF demo_deployment g(1) sys_stay] g(1) by blast
qed

end
