(* ===== verification/Tpc_Network_Money.thy ===== *)
theory Tpc_Network_Money
  imports Tpc_Network_Claims Tpc_Money
begin

text \<open>
  The money of the whole bank: the balances that one server of every cluster holds add up to
  what the bank started with, as long as the two sides of every cross-shard transaction have
  been settled equally often.
\<close>

section \<open>Flows by transaction\<close>

text \<open>How often a log settles a cross-shard transaction.\<close>

definition settlements :: "WALEntry list \<Rightarrow> TpcTid \<times> Transaction \<Rightarrow> nat" where
  "settlements es p = length (filter (\<lambda>e. e_type e = CROSS \<and> e_status e = COMMITTED \<and> (e_tid e, e_txn e) = p) es)"

definition flow_of :: "int set \<Rightarrow> Transaction \<Rightarrow> int" where
  "flow_of C x = (if receiver x \<in> C \<and> sender x \<notin> C then amount x
     else if sender x \<in> C \<and> receiver x \<notin> C then - amount x else 0)"

lemma flow_flow_of: "flow C e = (if e_status e = COMMITTED then flow_of C (e_txn e) else 0)"
  by (simp add: flow_def flow_of_def)

lemma settlements_Cons:
  "settlements (e # es) p = settlements es p
     + (if e_type e = CROSS \<and> e_status e = COMMITTED \<and> (e_tid e, e_txn e) = p then 1 else 0)"
  by (simp add: settlements_def)

lemma net_flow_settlements:
  assumes "finite S"
    and "\<And>e. e \<in> set es \<Longrightarrow> e_status e = COMMITTED \<Longrightarrow> e_type e = CROSS \<Longrightarrow> (e_tid e, e_txn e) \<in> S"
    and "\<And>e. e \<in> set es \<Longrightarrow> e_status e = COMMITTED \<Longrightarrow> e_type e \<noteq> CROSS \<Longrightarrow> flow_of C (e_txn e) = 0"
  shows "net_flow C es = (\<Sum>p\<in>S. int (settlements es p) * flow_of C (snd p))"
  using assms(2,3)
proof (induction es)
  case (Cons e es)
  have IH: "net_flow C es = (\<Sum>p\<in>S. int (settlements es p) * flow_of C (snd p))"
    using Cons.IH Cons.prems by simp
  have "(\<Sum>p\<in>S. (if e_type e = CROSS \<and> e_status e = COMMITTED \<and> (e_tid e, e_txn e) = p then flow_of C (snd p) else 0))
      = flow C e"
    using Cons.prems(1,2) [of e] assms(1) by (cases "e_type e = CROSS") (auto simp: flow_flow_of sum.delta')
  moreover have "int (settlements (e # es) p) * flow_of C (snd p) = int (settlements es p) * flow_of C (snd p)
      + (if e_type e = CROSS \<and> e_status e = COMMITTED \<and> (e_tid e, e_txn e) = p then flow_of C (snd p) else 0)" for p
    by (simp add: settlements_Cons algebra_simps)
  ultimately show ?case using IH by (simp add: net_flow_def sum.distrib)
qed (simp add: net_flow_def settlements_def)

section \<open>The clients of the clusters\<close>

lemma shard_in_range:
  assumes "deployment_ok nc sz f" and "c \<in> {1..total_clients}"
  shows "shard_of nc sz c \<in> {1..nc}"
proof -
  have nc: "0 < nc" "nc \<le> 700000" using assms(1) by (simp_all add: deployment_ok_def setup_ok_def)
  have c: "1 \<le> c" "c \<le> 3000" using assms(2) by (simp_all add: total_clients_def)
  have "c * nc \<le> 3000 * 700000" "0 < c * nc" "c * nc \<le> 3000 * nc"
    using nc c by (intro mult_mono mult_pos_pos mult_right_mono; simp)+
  then have "int32 (c * num_clusters (fresh_setup nc sz))" by (simp add: int32_def)
  from client_cluster_iff [OF this, of "shard_of nc sz c"]
  have "(shard_of nc sz c - 1) * 3000 < c * nc" "c * nc \<le> shard_of nc sz c * 3000" by simp_all
  then show ?thesis using \<open>0 < c * nc\<close> \<open>c * nc \<le> 3000 * nc\<close> by simp
qed

lemma all_clients:
  assumes "deployment_ok nc sz f"
  shows "(\<Sum>k\<in>{1..nc}. int (card (clients_of (fresh_setup nc sz) k))) = total_clients"
proof -
  let ?C = "clients_of (fresh_setup nc sz)"
  have "(\<Union>k\<in>{1..nc}. ?C k) = {1..total_clients}"
    using shard_in_range [OF assms] by (auto simp: clients_of_def)
  moreover have "card (\<Union>k\<in>{1..nc}. ?C k) = (\<Sum>k\<in>{1..nc}. card (?C k))"
    by (intro card_UN_disjoint) (auto simp: finite_clients, auto simp: clients_of_def)
  ultimately have "(\<Sum>k\<in>{1..nc}. card (?C k)) = card {1..total_clients}" by simp
  then show ?thesis by (simp add: total_clients_def flip: of_nat_sum)
qed

text \<open>A transfer between two shards takes from one what it brings to the other.\<close>

lemma flow_of_shard:
  assumes "sender x \<in> {1..total_clients}" and "receiver x \<in> {1..total_clients}"
  shows "flow_of (clients_of (fresh_setup nc sz) k) x =
    (if shard_of nc sz (sender x) = shard_of nc sz (receiver x) then 0
     else (if k = shard_of nc sz (receiver x) then amount x else 0) - (if k = shard_of nc sz (sender x) then amount x else 0))"
  using assms by (auto simp: flow_of_def clients_of_def)

section \<open>The bank\<close>

text \<open>One server of every cluster.\<close>

definition one_each :: "int \<Rightarrow> int \<Rightarrow> (int \<Rightarrow> int) \<Rightarrow> bool" where
  "one_each nc sz R \<longleftrightarrow> (\<forall>k \<in> {1..nc}. R k \<in> members nc sz \<and> cluster_of nc sz (R k) = k)"

text \<open>The chosen servers of both shards have settled every cross-shard transaction equally often.\<close>

definition both_sides_settled :: "int \<Rightarrow> int \<Rightarrow> System \<Rightarrow> (int \<Rightarrow> int) \<Rightarrow> bool" where
  "both_sides_settled nc sz g R \<longleftrightarrow> (\<forall>p.
     settlements (log (node g (R (shard_of nc sz (sender (snd p)))))) p
     = settlements (log (node g (R (shard_of nc sz (receiver (snd p)))))) p)"

text \<open>
  Their transactions are between the clients of the bank. The code does not check this: a number
  so large that its product with the number of clusters wraps around passes as well.
\<close>

definition known_clients :: "int \<Rightarrow> System \<Rightarrow> (int \<Rightarrow> int) \<Rightarrow> bool" where
  "known_clients nc g R \<longleftrightarrow> (\<forall>k \<in> {1..nc}. \<forall>e \<in> set (log (node g (R k))).
     sender (e_txn e) \<in> {1..total_clients} \<and> receiver (e_txn e) \<in> {1..total_clients})"

lemma sum_at_two:
  fixes n :: "int \<Rightarrow> int"
  assumes "finite A" and "a \<in> A" and "b \<in> A"
  shows "(\<Sum>k\<in>A. n k * ((if k = a then m else 0) - (if k = b then m else 0))) = (n a - n b) * m"
proof -
  have "(\<Sum>k\<in>A. n k * ((if k = a then m else 0) - (if k = b then m else 0)))
      = (\<Sum>k\<in>A. (if k = a then n k * m else 0) - (if k = b then n k * m else 0))"
    by (rule sum.cong) (simp_all add: right_diff_distrib)
  also have "\<dots> = n a * m - n b * m" using assms by (simp add: sum_subtractf)
  finally show ?thesis by (simp add: left_diff_distrib)
qed

lemma flows_cancel:
  assumes dep: "deployment_ok nc sz f" and inv: "sys_inv nc sz g" and reps: "one_each nc sz R"
    and settled: "both_sides_settled nc sz g R" and known: "known_clients nc g R"
  shows "(\<Sum>k\<in>{1..nc}. net_flow (clients_of (fresh_setup nc sz) k) (log (node g (R k)))) = 0"
proof -
  let ?C = "clients_of (fresh_setup nc sz)" let ?l = "\<lambda>k. log (node g (R k))"
  define S where "S = (\<lambda>e. (e_tid e, e_txn e)) ` {e \<in> (\<Union>k\<in>{1..nc}. set (?l k)). e_type e = CROSS \<and> e_status e = COMMITTED}"
  have fin: "finite S" by (simp add: S_def)
  have good: "entry_good nc sz g e" if "k \<in> {1..nc}" "e \<in> set (?l k)" for k e
    using inv_node(5) [OF inv, of "R k"] reps that by (simp add: one_each_def node_good_def)
  have clients: "sender (e_txn e) \<in> {1..total_clients}" "receiver (e_txn e) \<in> {1..total_clients}"
    if "k \<in> {1..nc}" "e \<in> set (?l k)" for k e
    using known that unfolding known_clients_def by blast+
  have "net_flow (?C k) (?l k) = (\<Sum>p\<in>S. int (settlements (?l k) p) * flow_of (?C k) (snd p))" if k: "k \<in> {1..nc}" for k
  proof (rule net_flow_settlements [OF fin])
    show "(e_tid e, e_txn e) \<in> S" if "e \<in> set (?l k)" "e_status e = COMMITTED" "e_type e = CROSS" for e
      using that k by (force simp: S_def)
    show "flow_of (?C k) (e_txn e) = 0" if "e \<in> set (?l k)" "e_type e \<noteq> CROSS" for e
      using good [OF k that(1)] that(2) clients [OF k that(1)]
      by (simp add: flow_of_shard entry_good_def cross_shard_def split: if_splits)
  qed
  then have swap: "(\<Sum>k\<in>{1..nc}. net_flow (?C k) (?l k)) = (\<Sum>p\<in>S. \<Sum>k\<in>{1..nc}. int (settlements (?l k) p) * flow_of (?C k) (snd p))"
    by (subst sum.swap) simp
  have "(\<Sum>k\<in>{1..nc}. int (settlements (?l k) p) * flow_of (?C k) (snd p)) = 0" if p: "p \<in> S" for p
  proof -
    let ?s = "shard_of nc sz (sender (snd p))" let ?r = "shard_of nc sz (receiver (snd p))"
    have c: "sender (snd p) \<in> {1..total_clients}" "receiver (snd p) \<in> {1..total_clients}"
      using p clients by (auto simp: S_def)
    have range: "?s \<in> {1..nc}" "?r \<in> {1..nc}" using shard_in_range [OF dep] c by simp_all
    show ?thesis
      using sum_at_two [of "{1..nc}" ?r ?s "\<lambda>k. int (settlements (?l k) p)" "amount (snd p)"] range settled
      unfolding flow_of_shard [OF c] both_sides_settled_def by (cases "?s = ?r") simp_all
  qed
  then show ?thesis unfolding swap by (intro sum.neutral) simp
qed

text \<open>
  C4. The bank neither makes nor loses money: in every reachable state of the whole system, for
  any choice of one server per cluster, the balances of the clients 1 to 3000, each read at the
  chosen server of its own cluster, add up modulo \<open>2^32\<close> to the ten units per client that the
  bank started with. This needs two things of the chosen servers: their logs have settled both
  sides of every cross-shard transaction equally often, and mention only transactions between
  clients 1 to 3000, which the code does not check.
\<close>

theorem bank_total:
  assumes "deployment_ok nc sz f" and "sys_run (sys_start nc sz f v) g" and "one_each nc sz R"
    and "both_sides_settled nc sz g R" and "known_clients nc g R"
  shows "i32 (\<Sum>k\<in>{1..nc}. \<Sum>c\<in>clients_of (fresh_setup nc sz) k. idx (balances (node g (R k))) c) = 10 * total_clients"
proof -
  let ?C = "clients_of (fresh_setup nc sz)" let ?l = "\<lambda>k. log (node g (R k))"
  have inv: "sys_inv nc sz g" by (rule sys_run_inv [OF assms(1,2)])
  have wealth: "i32 (\<Sum>c\<in>?C k. idx (balances (node g (R k))) c) = i32 (10 * int (card (?C k)) + net_flow (?C k) (?l k))"
    if k: "k \<in> {1..nc}" for k
  proof (rule wealth_replays)
    have i: "R k \<in> members nc sz" "cluster_of nc sz (R k) = k" using assms(3) k by (simp_all add: one_each_def)
    note node = inv_node(1) [OF inv i(1)]
    fix c assume c: "c \<in> ?C k"
    have "getClusterIdFromClientId (consts_of (node g (R k))) = getClusterIdFromClientId (fresh_setup nc sz)"
      using node by (intro client_cluster_cong) (simp add: node_inv_def node_static_def)
    then have "isClientInCluster (node g (R k)) c"
      using c node i(2) by (simp add: isClientInCluster_def clients_of_def node_inv_def node_static_def)
    then show "idx (balances (node g (R k))) c = i32 (initial_balance (fresh_setup nc sz) k c + replay (?l k) c)"
      using node i(2) by (simp add: node_inv_def server_ok_def data_ok_def core_ok_def tracks_def)
  qed
  have "i32 (\<Sum>k\<in>{1..nc}. \<Sum>c\<in>?C k. idx (balances (node g (R k))) c)
      = i32 (\<Sum>k\<in>{1..nc}. i32 (\<Sum>c\<in>?C k. idx (balances (node g (R k))) c))"
    by (rule i32_sum [symmetric]) simp
  also have "\<dots> = i32 (\<Sum>k\<in>{1..nc}. i32 (10 * int (card (?C k)) + net_flow (?C k) (?l k)))"
    by (rule arg_cong [where f = i32], rule sum.cong [OF refl], rule wealth)
  also have "\<dots> = i32 (\<Sum>k\<in>{1..nc}. 10 * int (card (?C k)) + net_flow (?C k) (?l k))" by (rule i32_sum) simp
  also have "(\<Sum>k\<in>{1..nc}. 10 * int (card (?C k)) + net_flow (?C k) (?l k)) = 10 * total_clients"
    using all_clients [OF assms(1)] flows_cancel [OF assms(1) inv assms(3-5)]
    by (simp add: sum.distrib flip: sum_distrib_left)
  finally show ?thesis by (simp add: total_clients_def i32_id int32_def)
qed

lemma settlements_commit:
  assumes "logs_commit [] s r"
  shows "settlements (log s) p = (if p = (req_tid r, req_txn r) then 1 else 0)"
  using assms by (auto simp: logs_commit_def settlements_def req_entry_def)

theorem bank_total_witness:
  "\<exists>g R e. sys_run (sys_start 2 2 (\<lambda>_. empty_file) (\<lambda>_. plain_boot)) g \<and> e \<in> set (log (node g (R 1))) \<and> e_status e = COMMITTED
    \<and> i32 (\<Sum>k\<in>{1..2}. \<Sum>c\<in>clients_of (fresh_setup 2 2) k. idx (balances (node g (R k))) c) = 30000"
proof -
  let ?r = "\<lparr>req_txn = demo_payment, req_tid = 7\<rparr>"
  obtain g a b where g: "sys_run demo_start g" and ab: "leads 2 2 demo_payment a b"
    and logs: "logs_commit (log (node demo_start a)) (node g a) ?r" "logs_commit (log (node demo_start b)) (node g b) ?r"
    using demo_run .
  have run: "sys_run (sys_start 2 2 (\<lambda>_. empty_file) (\<lambda>_. plain_boot)) g" using g by (simp add: demo_start_def)
  have empty: "log (node demo_start i) = []" for i by (simp add: demo_start_def sys_start_def started_eq)
  define R where "R = (\<lambda>k::int. if k = 1 then a else b)"
  have l: "log (node g (R k)) = (if k = 1 then log (node g a) else log (node g b))" for k by (simp add: R_def)
  have "cluster_of 2 2 a = 1" "cluster_of 2 2 b = 2" "a \<in> members 2 2" "b \<in> members 2 2"
    using ab by (simp_all add: leads_def demo_payment_def demo_shards)
  then have "one_each 2 2 R" by (auto simp: one_each_def R_def)
  moreover have "both_sides_settled 2 2 g R"
    using settlements_commit logs by (simp add: both_sides_settled_def l empty)
  moreover have "known_clients 2 g R"
    using logs by (auto simp: known_clients_def l empty logs_commit_def req_entry_def demo_payment_def total_clients_def)
  ultimately have "i32 (\<Sum>k\<in>{1..2}. \<Sum>c\<in>clients_of (fresh_setup 2 2) k. idx (balances (node g (R k))) c) = 30000"
    using bank_total [OF demo_deployment run] by (simp add: total_clients_def)
  moreover obtain e where "e \<in> set (log (node g (R 1)))" "e_status e = COMMITTED"
    using logs_commit_entry [OF logs(1)] by (auto simp: l)
  ultimately show ?thesis using run by blast
qed

end
