(* ===== verification/Tpc_Network_Diverge.thy ===== *)
theory Tpc_Network_Diverge
  imports Tpc_Network_Claims
begin

text \<open>
  A run in which the logs of a cluster diverge. Two servers lead a transfer each. The first has
  its majority of promises when it promises the ballot of the second; it goes on and proposes
  its own transfer under that ballot. The third server accepts both, and commits the wrong one.
\<close>

section \<open>What a promise leaves alone\<close>

lemma promise_to_simps [simp]:
  "locks (promise_to s p) = locks p" "balances (promise_to s p) = balances p" "log (promise_to s p) = log p"
  "wal (promise_to s p) = wal p" "last_inserted (promise_to s p) = last_inserted p" "stubs (promise_to s p) = stubs p"
  "server_id (promise_to s p) = server_id p" "i_am_disconnected (promise_to s p) = i_am_disconnected p"
  "ballot_num (promise_to s p) = bal_num (next_ballot s)" "promised_num (promise_to s p) = next_ballot s"
  "isClientInCluster (promise_to s p) = isClientInCluster p" "free_for r (promise_to s p) = free_for r p"
  "await_prepare_decision (promise_to s p) = await_prepare_decision p"
  "prepare_successes (promise_to s p) = prepare_successes p"
  by (simp_all add: promise_to_def isClientInCluster_def free_for_def fun_eq_iff)

lemma conditions_promise [simp]: "conditions_fail (promise_to s p) x = conditions_fail p x"
  by (simp add: conditions_fail_def locked_def)

lemma ready_leader_promise [simp]: "ready_leader r (promise_to s p) = ready_leader r p"
  by (simp add: ready_leader_def) (simp add: promise_to_def)

lemma in_cluster_promise [simp]: "in_cluster_count (promise_to s p) = in_cluster_count p"
  by (intro ext in_cluster_count_cong) simp

lemma round_promoted_simps [simp]:
  "ballot_num (round_promoted t s) = bal_num (next_ballot s)" "last_inserted (round_promoted t s) = last_inserted s"
  "i_am_disconnected (round_promoted t s) = i_am_disconnected s" "await_prepare_decision (round_promoted t s)"
  "prepare_successes (round_promoted t s) = 2" "stubs (round_promoted t s) = stubs s"
  by (simp_all add: round_promoted_def round_begun_def)

lemma round_promoted_ready:
  assumes "ready_leader r s"
  shows "free_for r (round_promoted (req_tid r) s)" "\<not> conditions_fail (round_promoted (req_tid r) s) (req_txn r)"
proof -
  have "isClientInCluster (round_promoted (req_tid r) s) = isClientInCluster s"
    by (simp add: round_promoted_def round_begun_def isClientInCluster_def fun_eq_iff)
  then show "\<not> conditions_fail (round_promoted (req_tid r) s) (req_txn r)" "free_for r (round_promoted (req_tid r) s)"
    using assms
    by (simp_all add: ready_leader_def conditions_fail_def locked_def free_for_def round_promoted_def round_begun_def)
qed

lemma proposes:
  assumes "free_for r s" and "await_prepare_decision s" and "MAJORITY \<le> prepare_successes s" and "\<not> conditions_fail s (req_txn r)"
  obtains s' where "runPaxos r res x s = (False, s', res\<lparr>res_tid := req_tid r\<rparr>,
    map (\<lambda>i. SendAccept i (accept_of (promised_num s) r)) (stubs s))"
  using that propose_effect(3) [of r x "checked r s"] runPaxos_awaiting_prepare [OF assms(1,2), of res x] assms(3,4)
  by (simp add: accept_of_def)

section \<open>Two leaders and a replica\<close>

definition trio :: "System \<Rightarrow> int \<Rightarrow> int \<Rightarrow> int \<Rightarrow> TransferReq \<Rightarrow> TransferReq \<Rightarrow> bool" where
  "trio g a b c r q \<longleftrightarrow> distinct [a, b, c] \<and> {b, c} \<subseteq> set (stubs (node g a)) \<and> {a, c} \<subseteq> set (stubs (node g b))
     \<and> Serving False a r no_TransferRes \<in> set (net g) \<and> Serving False b q no_TransferRes \<in> set (net g)
     \<and> ready_leader r (node g a) \<and> ready_leader q (node g b)
     \<and> (\<forall>i \<in> {a, b, c}. \<not> i_am_disconnected (node g i) \<and> ballot_num (node g i) = 0 \<and> last_inserted (node g i) = - 1
          \<and> log (node g i) = [] \<and> writable (walFile (wal (node g i)))
          \<and> in_cluster_count (node g i) (req_txn r) = 2 \<and> in_cluster_count (node g i) (req_txn q) = 2)"

abbreviation second_leader :: "System \<Rightarrow> int \<Rightarrow> int \<Rightarrow> ServerImpl" where
  "second_leader g a b \<equiv> promise_to (node g a) (node g b)"

text \<open>The first leader has its majority, and both others have promised its ballot.\<close>

lemma first_majority:
  assumes t: "trio g a b c r q"
  obtains h where "deliveries g h" and "node h a = round_promoted (req_tid r) (node g a)"
    and "node h b = second_leader g a b" and "node h c = promise_to (node g a) (node g c)"
    and "Serving False a r (no_TransferRes\<lparr>res_tid := req_tid r\<rparr>) \<in> set (net h)"
    and "Serving False b q no_TransferRes \<in> set (net h)"
proof -
  have d: "a \<noteq> b" "a \<noteq> c" "b \<noteq> c" "b \<in> set (stubs (node g a))" "c \<in> set (stubs (node g a))"
    "Serving False a r no_TransferRes \<in> set (net g)" "Serving False b q no_TransferRes \<in> set (net g)" "ready_leader r (node g a)"
    using t by (auto simp: trio_def)
  have peers: "ready_peer (node g a) (node g i)" if "i \<in> {b, c}" for i
    using t that by (auto simp: trio_def ready_peer_def i32_id int32_def)
  obtain k where k: "deliveries g k" "stays a c g k" "node k a = round_promoted (req_tid r) (node g a)"
    "node k c = promise_to (node g a) (node g c)"
    "Serving False a r (no_TransferRes\<lparr>res_tid := req_tid r\<rparr>) \<in> set (net k)"
    "Peer a (SendPrepare b (next_prepare (node g a))) \<in> set (net k)"
    using promises_arrive [OF d(6,8,5) _ peers] d(2,3,4) by (metis insertI1 insertI2)
  have kb: "node k b = node g b" "Serving False b q no_TransferRes \<in> set (net k)"
    using k(2) d(1,3,7) by (auto simp: stays_def)
  obtain res where promise: "processPrepareCall (next_prepare (node g a)) no_PrepareRes (node k b) = (second_leader g a b, res, [])"
    using round_promise [OF peers [of b]] kb(1) by (metis insertI1)
  note dl = dlv_prepare [OF promise, of a]
  show thesis
    by (rule that [of "dlv (Peer a (SendPrepare b (next_prepare (node g a)))) k"])
      (use run_dlv [OF k(1,6)] k(3-5) kb d(1,3) dl(1) in \<open>auto intro: dlv_keeps\<close>)
qed

text \<open>
  The second leader has its majority with a higher ballot, and the first one has promised it:
  both have the decision of their prepare phase, and the same promised ballot.
\<close>

lemma second_majority:
  assumes t: "trio g a b c r q"
  defines "s \<equiv> second_leader g a b"
  obtains h where "deliveries g h" and "node h a = promise_to s (round_promoted (req_tid r) (node g a))"
    and "node h b = round_promoted (req_tid q) s" and "node h c = promise_to s (promise_to (node g a) (node g c))"
    and "can_accept (next_ballot s) (node h c)"
    and "Serving False a r (no_TransferRes\<lparr>res_tid := req_tid r\<rparr>) \<in> set (net h)"
    and "Serving False b q (no_TransferRes\<lparr>res_tid := req_tid q\<rparr>) \<in> set (net h)"
proof -
  have d: "a \<noteq> b" "a \<noteq> c" "b \<noteq> c" "a \<in> set (stubs s)" "c \<in> set (stubs s)" "ready_leader q s"
    using t by (auto simp: trio_def s_def)
  have n: "ballot_num s = 1" "last_inserted s = - 1" "\<not> i_am_disconnected (node g a)" "\<not> i_am_disconnected (node g c)"
    "last_inserted (node g a) = - 1" "last_inserted (node g c) = - 1" "bal_num (next_ballot (node g a)) = 1"
    using t by (auto simp: trio_def s_def next_ballot_def i32_id int32_def)
  have peers: "ready_peer s (promise_to (node g a) (node g c))" "ready_peer s (round_promoted (req_tid r) (node g a))"
    using n by (simp_all add: ready_peer_def i32_id int32_def)
  obtain h1 where h1: "deliveries g h1" "node h1 a = round_promoted (req_tid r) (node g a)" "node h1 b = s"
    "node h1 c = promise_to (node g a) (node g c)"
    "Serving False a r (no_TransferRes\<lparr>res_tid := req_tid r\<rparr>) \<in> set (net h1)"
    "Serving False b q no_TransferRes \<in> set (net h1)"
    using first_majority [OF t] unfolding s_def by metis
  have pre: "ready_leader q (node h1 b)" "c \<in> set (stubs (node h1 b))" "ready_peer (node h1 b) (node h1 c)"
    using d(5,6) peers(1) h1(3,4) by simp_all
  obtain h2 where h2: "deliveries h1 h2" "stays b c h1 h2" "node h2 b = round_promoted (req_tid q) s"
    "can_accept (next_ballot s) (node h2 c)" "node h2 c = promise_to s (promise_to (node g a) (node g c))"
    "Serving False b q (no_TransferRes\<lparr>res_tid := req_tid q\<rparr>) \<in> set (net h2)"
    "Peer b (SendPrepare a (next_prepare s)) \<in> set (net h2)"
    using promises_arrive [OF h1(6) pre(1,2) _ pre(3)] d(2-4) h1(3,4) by metis
  have a: "node h2 a = round_promoted (req_tid r) (node g a)"
    "Serving False a r (no_TransferRes\<lparr>res_tid := req_tid r\<rparr>) \<in> set (net h2)"
    using h2(2) h1(2,5) d(1,2) by (auto simp: stays_def)
  obtain res where promise: "processPrepareCall (next_prepare s) no_PrepareRes (node h2 a) =
      (promise_to s (round_promoted (req_tid r) (node g a)), res, [])"
    using round_promise [OF peers(2)] a(1) by metis
  note dl = dlv_prepare [OF promise, of b]
  show thesis
    by (rule that [of "dlv (Peer b (SendPrepare a (next_prepare s))) h2"])
      (use run_dlv [OF deliveries_trans [OF h2(1) h1(1)] h2(7)] h2(3-6) a d(1,2) dl(1) in \<open>auto intro: dlv_keeps\<close>)
qed

text \<open>Both propose under the ballot of the second, and the replica accepts one value after the other.\<close>

lemma both_propose:
  assumes t: "trio g a b c r q"
  defines "s \<equiv> second_leader g a b"
  obtains h where "deliveries g h" and "node h b = round_proposed q False s"
    and "node h c = promise_to s (promise_to (node g a) (node g c))" and "can_accept (next_ballot s) (node h c)"
    and "Peer a (SendAccept c (accept_of (next_ballot s) r)) \<in> set (net h)"
    and "Peer b (SendAccept c (accept_of (next_ballot s) q)) \<in> set (net h)"
    and "Serving False b q (no_TransferRes\<lparr>res_tid := req_tid q\<rparr>) \<in> set (net h)"
proof -
  have d: "a \<noteq> b" "a \<noteq> c" "b \<noteq> c" "c \<in> set (stubs (node g a))" "c \<in> set (stubs s)" "ready_leader r (node g a)" "ready_leader q s"
    using t by (auto simp: trio_def s_def)
  let ?rr = "no_TransferRes\<lparr>res_tid := req_tid r\<rparr>" and ?rq = "no_TransferRes\<lparr>res_tid := req_tid q\<rparr>"
  obtain h1 where h1: "deliveries g h1" "node h1 a = promise_to s (round_promoted (req_tid r) (node g a))"
    "node h1 b = round_promoted (req_tid q) s" "node h1 c = promise_to s (promise_to (node g a) (node g c))"
    "can_accept (next_ballot s) (node h1 c)" "Serving False a r ?rr \<in> set (net h1)" "Serving False b q ?rq \<in> set (net h1)"
    using second_majority [OF t] unfolding s_def by metis
  have "free_for r (node h1 a)" "await_prepare_decision (node h1 a)" "MAJORITY \<le> prepare_successes (node h1 a)"
    "\<not> conditions_fail (node h1 a) (req_txn r)"
    using round_promoted_ready [OF d(6)] by (simp_all add: h1(2) MAJORITY_def)
  from proposes [OF this, of ?rr False] obtain s' where
    run1: "runPaxos r ?rr False (node h1 a) = (False, s', ?rr, map (\<lambda>i. SendAccept i (accept_of (next_ballot s) r)) (stubs (node g a)))"
    by (auto simp: h1(2))
  define h2 where "h2 = dlv (Serving False a r ?rr) h1"
  note d2 = dlv_serving [OF run1, folded h2_def]
  have r2: "deliveries g h2" unfolding h2_def by (rule run_dlv [OF h1(1,6)])
  have n2: "node h2 b = round_promoted (req_tid q) s" "node h2 c = node h1 c" using d2(1) h1(3) d(1,2) by simp_all
  have p2: "Peer a (SendAccept c (accept_of (next_ballot s) r)) \<in> set (net h2)" "Serving False b q ?rq \<in> set (net h2)"
    using d(1,4) h1(7) dlv_keeps [OF h1(7), of "Serving False a r ?rr"] by (auto simp: d2(2) h2_def [symmetric])
  have run2: "runPaxos q ?rq False (node h2 b) = (False, round_proposed q False s, ?rq,
      map (\<lambda>i. SendAccept i (accept_of (next_ballot s) q)) (stubs s))"
    using round_propose [OF d(7), of ?rq False] n2(1) by (simp add: accept_of_def)
  define h3 where "h3 = dlv (Serving False b q ?rq) h2"
  note d3 = dlv_serving [OF run2, folded h3_def]
  have "deliveries g h3" unfolding h3_def by (rule run_dlv [OF r2 p2(2)])
  moreover have "node h3 b = round_proposed q False s" "node h3 c = node h1 c" using d3(1) n2(2) d(3) by simp_all
  moreover have "Peer a (SendAccept c (accept_of (next_ballot s) r)) \<in> set (net h3)"
    unfolding h3_def by (rule dlv_keeps [OF p2(1)]) simp
  moreover have "Peer b (SendAccept c (accept_of (next_ballot s) q)) \<in> set (net h3)" "Serving False b q ?rq \<in> set (net h3)"
    using d(5) by (auto simp: d3(2))
  ultimately show thesis using that [of h3] h1(4,5) by simp
qed

lemma accept_twice:
  assumes "can_accept b s" and "in_cluster_count s (req_txn q) = 2" and "in_cluster_count s (req_txn r) = 2"
  shows "processAcceptCall (accept_of b q) no_AcceptRes s = (accept_state b q s, no_AcceptRes\<lparr>ar_ack := True, ar_ballot := b\<rparr>)"
    and "processAcceptCall (accept_of b r) no_AcceptRes (accept_state b q s) =
      (accept_state b r (accept_state b q s), no_AcceptRes\<lparr>ar_ack := True, ar_ballot := b\<rparr>)"
proof -
  show "processAcceptCall (accept_of b q) no_AcceptRes s = (accept_state b q s, no_AcceptRes\<lparr>ar_ack := True, ar_ballot := b\<rparr>)"
    using accepted_state [OF assms(1)] assms(2) by simp
  have "can_accept b (accept_state b q s)"
    using assms(1) by (simp add: can_accept_def accept_state_def lock_own_def Let_def)
  moreover have "in_cluster_count (accept_state b q s) = in_cluster_count s" by (intro ext in_cluster_count_cong) simp
  ultimately show "processAcceptCall (accept_of b r) no_AcceptRes (accept_state b q s) =
      (accept_state b r (accept_state b q s), no_AcceptRes\<lparr>ar_ack := True, ar_ballot := b\<rparr>)"
    using accepted_state assms(3) by simp
qed

lemma replica_accepts_both:
  assumes t: "trio g a b c r q"
  defines "s \<equiv> second_leader g a b"
  obtains h where "deliveries g h" and "node h b = (round_proposed q False s)\<lparr>accept_successes := 2\<rparr>"
    and "node h c = accept_state (next_ballot s) r (accept_state (next_ballot s) q (promise_to s (promise_to (node g a) (node g c))))"
    and "Serving False b q (no_TransferRes\<lparr>res_tid := req_tid q\<rparr>) \<in> set (net h)"
proof -
  have d: "a \<noteq> b" "b \<noteq> c" "ready_leader q s" "in_cluster_count (node g c) (req_txn r) = 2" "in_cluster_count (node g c) (req_txn q) = 2"
    using t by (auto simp: trio_def s_def)
  let ?b = "next_ballot s" let ?rq = "no_TransferRes\<lparr>res_tid := req_tid q\<rparr>" let ?ar = "no_AcceptRes\<lparr>ar_ack := True, ar_ballot := ?b\<rparr>"
  obtain h1 where h1: "deliveries g h1" "node h1 b = round_proposed q False s"
    "node h1 c = promise_to s (promise_to (node g a) (node g c))" "can_accept ?b (node h1 c)"
    "Peer a (SendAccept c (accept_of ?b r)) \<in> set (net h1)" "Peer b (SendAccept c (accept_of ?b q)) \<in> set (net h1)"
    "Serving False b q ?rq \<in> set (net h1)"
    using both_propose [OF t] unfolding s_def by metis
  have acc: "processAcceptCall (accept_of ?b q) no_AcceptRes (node h1 c) = (accept_state ?b q (node h1 c), ?ar)"
    "processAcceptCall (accept_of ?b r) no_AcceptRes (accept_state ?b q (node h1 c)) = (accept_state ?b r (accept_state ?b q (node h1 c)), ?ar)"
    using accept_twice [OF h1(4)] d(4,5) h1(3) by simp_all
  define h2 where "h2 = dlv (Peer b (SendAccept c (accept_of ?b q))) h1"
  note d2 = dlv_accept [OF acc(1), of b, folded h2_def]
  have r2: "deliveries g h2" unfolding h2_def by (rule run_dlv [OF h1(1,6)])
  have n2: "node h2 c = accept_state ?b q (node h1 c)" "node h2 b = round_proposed q False s" using d2(1) h1(2) d(2) by simp_all
  have p2: "Peer a (SendAccept c (accept_of ?b r)) \<in> set (net h2)" "AcceptAnswer b (accept_of ?b q) ?ar \<in> set (net h2)"
    "Serving False b q ?rq \<in> set (net h2)"
    using d(1) h1(5,7) by (simp_all add: d2(2))
  define h3 where "h3 = dlv (Peer a (SendAccept c (accept_of ?b r))) h2"
  note d3 = dlv_accept [OF acc(2) [folded n2(1)], of a, folded h3_def]
  have r3: "deliveries g h3" unfolding h3_def by (rule run_dlv [OF r2 p2(1)])
  have p3: "AcceptAnswer b (accept_of ?b q) ?ar \<in> set (net h3)" "Serving False b q ?rq \<in> set (net h3)"
    using p2(2,3) by (simp_all add: d3(2))
  have "handleAcceptReply StatusOK (accept_of ?b q) ?ar (round_proposed q False s) = (round_proposed q False s)\<lparr>accept_successes := 2\<rparr>"
    by (rule round_accepted [OF d(3)]) simp_all
  then show thesis
    using that [of "dlv (AcceptAnswer b (accept_of ?b q) ?ar) h3"] run_dlv [OF r3 p3(1)] n2 d3(1) h1(3) d(2)
      dlv_accept_answer(1,2) [of b "accept_of ?b q" ?ar h3] p3(2) by simp
qed

lemma round_done_log:
  assumes "ready_leader q s" and "writable (walFile (wal s))"
  shows "log (round_done q False s) = log s @ [req_entry q (next_ballot s) INTRA COMMITTED]"
proof -
  let ?p = "(round_proposed q False s)\<lparr>accept_successes := 2\<rparr>"
  have p: "same_data s ?p" "accept_num ?p = next_ballot s"
    using round_proposed_simps(3,8) [OF assms(1), of False] by (simp_all add: same_data_def)
  then have wr: "writable (walFile (wal ?p))" using assms(2) by (simp add: same_data_def)
  have "same_data (commitTransaction q (next_ballot s) ?p) (round_done q False s)"
    using conclude_data [OF wr, of False q] p(2) by (simp add: round_done_def)
  then show ?thesis using commitTransaction_data(1) [OF wr] p(1) by (simp add: same_data_def)
qed

lemma trio_diverges:
  assumes t: "trio g a b c r q"
  obtains h bal where "deliveries g h" and "log (node h b) = [req_entry q bal INTRA COMMITTED]"
    and "log (node h c) = [req_entry r bal INTRA COMMITTED]"
    and "TransferAnswer False b \<lparr>res_ack = True, res_tid = req_tid q\<rparr> \<in> set (net h)"
proof -
  let ?s = "second_leader g a b" let ?b = "next_ballot ?s" let ?rq = "no_TransferRes\<lparr>res_tid := req_tid q\<rparr>"
  let ?c = "accept_state ?b r (accept_state ?b q (promise_to ?s (promise_to (node g a) (node g c))))"
  have d: "b \<noteq> c" "c \<in> set (stubs ?s)" "ready_leader q ?s" "writable (walFile (wal ?s))" "log ?s = []"
    "in_cluster_count (node g c) (req_txn r) = 2" "writable (walFile (wal (node g c)))" "log (node g c) = []"
    "\<not> i_am_disconnected (node g c)"
    using t by (auto simp: trio_def)
  obtain h1 where h1: "deliveries g h1" "node h1 b = (round_proposed q False ?s)\<lparr>accept_successes := 2\<rparr>" "node h1 c = ?c"
    "Serving False b q ?rq \<in> set (net h1)"
    using replica_accepts_both [OF t] by metis
  have run: "runPaxos q ?rq False (node h1 b) = (True, round_done q False ?s, \<lparr>res_ack = True, res_tid = req_tid q\<rparr>,
      map (\<lambda>i. SendCommit i (commit_of ?b)) (stubs ?s))"
    using round_conclude [OF d(3), of ?rq False] h1(2) by (simp add: commit_of_def no_TransferRes_def)
  define h2 where "h2 = dlv (Serving False b q ?rq) h1"
  note d2 = dlv_serving [OF run, folded h2_def]
  have r2: "deliveries g h2" unfolding h2_def by (rule run_dlv [OF h1(1,4)])
  have n2: "node h2 b = round_done q False ?s" "node h2 c = ?c" using d2(1) h1(3) d(1) by simp_all
  have p2: "Peer b (SendCommit c (commit_of ?b)) \<in> set (net h2)"
    "TransferAnswer False b \<lparr>res_ack = True, res_tid = req_tid q\<rparr> \<in> set (net h2)"
    using d(2) by (auto simp: d2(2))
  have "isClientInCluster ?c = isClientInCluster (node g c)" by simp
  then have cnt: "in_cluster_count ?c (req_txn r) = 2" using d(6) in_cluster_count_cong [of ?c "node g c"] by simp
  have "processCommitCall (commit_of ?b) ?c = (commitTransaction r ?b (commit_state ?c))\<lparr>promised := False, accepted := False\<rparr>"
    using committed_state [of ?c ?b] cnt d(9) by simp
  moreover have "log (commit_state ?c) = []" "writable (walFile (wal (commit_state ?c)))"
    using commit_state_simps(1) [of ?c] d(7,8) by (simp_all add: same_data_def reindexed_def)
  ultimately have logc: "log (processCommitCall (commit_of ?b) ?c) = [req_entry r ?b INTRA COMMITTED]"
    by (simp add: commitTransaction_data(1))
  define h3 where "h3 = dlv (Peer b (SendCommit c (commit_of ?b))) h2"
  have "deliveries g h3" unfolding h3_def by (rule run_dlv [OF r2 p2(1)])
  moreover have "node h3 = (node h2)(c := processCommitCall (commit_of ?b) (node h2 c))"
    by (simp add: h3_def dlv_def node_does_def)
  then have "log (node h3 b) = [req_entry q ?b INTRA COMMITTED]" "log (node h3 c) = [req_entry r ?b INTRA COMMITTED]"
    using n2 d(1) logc round_done_log [OF d(3,4)] d(5) by simp_all
  moreover have "TransferAnswer False b \<lparr>res_ack = True, res_tid = req_tid q\<rparr> \<in> set (net h3)"
    unfolding h3_def by (rule dlv_keeps [OF p2(2)]) simp
  ultimately show thesis using that by blast
qed

section \<open>Nobody is disconnected\<close>

text \<open>Every server is connected, and nobody is about to be told otherwise.\<close>

definition no_disconnections :: "System \<Rightarrow> bool" where
  "no_disconnections g \<longleftrightarrow> (\<forall>i. \<not> i_am_disconnected (node g i)) \<and> (\<forall>i names. Disconnection i names \<notin> set (net g))"

lemma sync_fold_connected: "i_am_disconnected (fold sync_entry ls s) = i_am_disconnected s"
  by (induction ls arbitrary: s)
    (simp_all add: sync_entry_def sync_credit_def push_log_def balance_add_def updateBalance_def Let_def)

lemma settle_connected: "i_am_disconnected (settle ic c d s) = i_am_disconnected s"
  by (simp add: settle_def balance_add_def updateBalance_def Let_def)

lemma handlers_connected:
  "i_am_disconnected (fst (processPrepareCall q res s)) = i_am_disconnected s"
  "i_am_disconnected (fst (processAcceptCall aq ares s)) = i_am_disconnected s"
  "i_am_disconnected (processCommitCall cq s) = i_am_disconnected s"
  "i_am_disconnected (fst (handlePrepareReply st q res s)) = i_am_disconnected s"
  "i_am_disconnected (handleAcceptReply st aq ares s) = i_am_disconnected s"
  "i_am_disconnected (handleSyncReply st sres s) = i_am_disconnected s"
  "i_am_disconnected (processTpcDecision u t ic s) = i_am_disconnected s"
proof -
  have ops: "i_am_disconnected (prepareTransaction r b t) = i_am_disconnected t"
    "i_am_disconnected (commitTransaction r b t) = i_am_disconnected t" for r b t
    by (simp_all add: prepareTransaction_def commitTransaction_def push_log_def balance_add_def updateBalance_def Let_def
      split: prod.split)
  show "i_am_disconnected (fst (processPrepareCall q res s)) = i_am_disconnected s"
    by (simp add: processPrepareCall_def Let_def)
  show "i_am_disconnected (fst (processAcceptCall aq ares s)) = i_am_disconnected s"
    by (simp add: processAcceptCall_def lock_own_def ops Let_def)
  show "i_am_disconnected (processCommitCall cq s) = i_am_disconnected s"
    by (simp add: processCommitCall_def unlock_own_def ops Let_def)
  show "i_am_disconnected (fst (handlePrepareReply st q res s)) = i_am_disconnected s"
    by (simp add: handlePrepareReply_def Let_def split: option.split)
  show "i_am_disconnected (handleAcceptReply st aq ares s) = i_am_disconnected s"
    by (simp add: handleAcceptReply_def)
  show "i_am_disconnected (handleSyncReply st sres s) = i_am_disconnected s"
    by (simp add: handleSyncReply_def sync_fold_connected Let_def)
  show "i_am_disconnected (processTpcDecision u t ic s) = i_am_disconnected s"
    by (simp add: processTpcDecision_def settle_connected push_log_def Let_def split: prod.split)
qed

lemma runPaxos_connected: "i_am_disconnected (runPaxos_state r res x s) = i_am_disconnected s"
proof -
  obtain fin s' res' msgs where eq: "runPaxos r res x s = (fin, s', res', msgs)" by (metis prod_cases4)
  then have "i_am_disconnected s' = i_am_disconnected s"
    by (cases rule: runPaxos_cases)
      (auto simp: start_round_def propose_def conclude_def stopped_def released_def checked_def read_sender_def take_locks_def
        prepareTransaction_def commitTransaction_def push_log_def balance_add_def updateBalance_def Let_def
        split: if_splits prod.splits)
  then show ?thesis using eq by simp
qed

lemma consume_one_decides:
  "m \<in> set (snd (consume_one call now c)) \<Longrightarrow>
    \<exists>n t. m \<in> {SendTpcCommit n t, SendTpcAbort n t, NullClientStub n}"
  by (auto simp: consume_one_def tpcCommit_def tpcAbort_def tpcDecide_loop_eq via_def Let_def split: if_splits)

lemma client_reply_connected:
  assumes "no_disconnections g"
  shows "no_disconnections (client_reply st x res now g)"
proof -
  obtain c ms where eq: "consume_one \<lparr>cc_status = st, cc_type = (if x then TPC_PREPARE else TRANSFER), cc_reply = res\<rparr> now (coord g) = (c, ms)"
    by fastforce
  have "Disconnection i names \<notin> set (packets_of cs m)" if "m \<in> set ms" for i names cs m
  proof -
    from eq have "m \<in> set (snd (consume_one \<lparr>cc_status = st, cc_type = (if x then TPC_PREPARE else TRANSFER), cc_reply = res\<rparr> now (coord g)))"
      using that by simp
    then show ?thesis by (auto dest!: consume_one_decides simp: to_server_def split: option.splits)
  qed
  then show ?thesis
    using assms by (auto simp: client_reply_def eq client_sends_def no_disconnections_def)
qed

lemma node_does_connected:
  assumes "no_disconnections g" and "i_am_disconnected s \<Longrightarrow> i_am_disconnected (node g i)"
    and "\<And>j names. Disconnection j names \<notin> set ps"
  shows "no_disconnections (node_does i s ps g)"
  using assms by (auto simp: no_disconnections_def node_does_def)

lemma deliver_connected:
  assumes g: "no_disconnections g" and p: "\<And>i names. p \<noteq> Disconnection i names"
  shows "no_disconnections (deliver u now p g)"
proof -
  note does = node_does_connected [OF g]
  show ?thesis
  proof (cases p)
    case (Peer k m)
    show ?thesis
    proof (cases m)
      case (SendPrepare i q)
      then show ?thesis
        using Peer handlers_connected(1) [of q no_PrepareRes "node g i"] by (auto intro!: does split: prod.split)
    next
      case (SendAccept i q)
      then show ?thesis
        using Peer handlers_connected(2) [of q no_AcceptRes "node g i"] by (auto intro!: does split: prod.split)
    next
      case (SendCommit i q)
      then show ?thesis using Peer handlers_connected(3) by (auto intro!: does)
    qed (use Peer g in \<open>auto intro!: does\<close>)
  next
    case (PrepareAnswer k q res)
    then show ?thesis
      using handlers_connected(4) [of StatusOK q res "node g k"] by (auto intro!: does split: prod.split)
  next
    case (AcceptAnswer k q res)
    then show ?thesis using handlers_connected(5) by (auto intro!: does)
  next
    case (SyncAnswer k res)
    then show ?thesis using handlers_connected(6) by (auto intro!: does)
  next
    case (Serving x i r res)
    then show ?thesis
      using runPaxos_connected [of r res x "node g i"] by (auto intro!: does simp: run_call_eq split: prod.split)
  next
    case (TransferAnswer x i res)
    then show ?thesis using client_reply_connected [OF g] by simp
  next
    case (Decision b i t)
    then show ?thesis using handlers_connected(7) by (auto intro!: does)
  qed (use p in auto)
qed

lemma deliveries_connected: "deliveries g h \<Longrightarrow> no_disconnections g \<Longrightarrow> no_disconnections h"
proof (induction rule: deliveries.induct)
  case (one_delivered g h p u now)
  then have h: "no_disconnections h" by simp
  then have "no_disconnections (h\<lparr>net := remove1 p (net h)\<rparr>)" "p \<noteq> Disconnection i names" for i names
    using one_delivered(2) by (auto simp: no_disconnections_def dest: notin_set_remove1)
  then show ?case by (rule deliver_connected)
qed

section \<open>From the start\<close>

lemma submit_intra:
  assumes "submission_ok g lds x now" and "\<not> cross_shard (client_consts (coord g)) x"
    and "map_of (server_ids (client_consts (coord g))) (leader_of (coord g) lds (sender x)) = Some i"
  obtains h where "submitted lds x now g = Some h" and "node h = node g" and "coord h = coord g"
    and "net h = net g @ [Serving False i \<lparr>req_txn = x, req_tid = now\<rparr> no_TransferRes]"
    and "asked h = insert \<lparr>req_txn = x, req_tid = now\<rparr> (asked g)"
proof -
  let ?ms = "messages_for (coord g) lds (x, now)"
  have "leaders_ok (coord g) lds x" using assms(1) by (simp add: submission_ok_def leaders_fit_def)
  from submit_one [OF this, of now] assms(2) have eq: "processTransactions [(x, now)] lds (coord g) = Inr (coord g, ?ms)" by simp
  have "?ms = [SendTransfer (leader_of (coord g) lds (sender x)) \<lparr>req_txn = x, req_tid = now\<rparr>]"
    using assms(2) by (simp add: messages_for_def)
  then show thesis
    using that [of "client_sends ?ms (g\<lparr>coord := coord g\<rparr>)"] assms(1,3)
    by (simp add: submitted_def eq client_sends_def to_server_def asked_def del: processTransactions.simps)
qed

text \<open>One cluster of three; server 1 leads a transfer of 4 from client 1, server 2 one of 3 from client 3.\<close>

definition trio_start :: System where
  "trio_start = sys_start 1 3 (\<lambda>_. empty_file) (\<lambda>_. plain_boot)"

definition first_transfer :: Transaction where
  "first_transfer = \<lparr>sender = 1, receiver = 2, amount = 4\<rparr>"

definition second_transfer :: Transaction where
  "second_transfer = \<lparr>sender = 3, receiver = 4, amount = 3\<rparr>"

lemmas transfers_def = first_transfer_def second_transfer_def

lemma trio_deployment: "deployment_ok 1 3 (\<lambda>_. empty_file)"
  by (simp add: deployment_ok_def setup_ok_def files_ok_def empty_file_def)

lemma trio_shards:
  "c \<in> {1..4} \<Longrightarrow> shard_of 1 3 c = 1" "i \<in> {1..3} \<Longrightarrow> cluster_of 1 3 i = 1"
  "i \<in> {1..3} \<Longrightarrow> map_of (server_ids (fresh_setup 1 3)) (server_name_of i) = Some i"
  by (simp_all add: client_cluster_iff server_cluster_iff int32_def fresh_setup_ids(2) i32_id)

lemma trio_submission:
  assumes "coord g = coord trio_start" and "x \<in> {first_transfer, second_transfer}" and "i \<in> {1..3}" and "0 < now" and "now < 10"
    and "\<forall>r \<in> asked g. req_tid r \<noteq> now"
  shows "submission_ok g [server_name_of i] x now" and "\<not> cross_shard (client_consts (coord g)) x"
    and "map_of (server_ids (client_consts (coord g))) (leader_of (coord g) [server_name_of i] (sender x)) = Some i"
proof -
  have cs: "client_consts (coord g) = fresh_setup 1 3" "client_stubs (coord g) = map fst (server_ids (fresh_setup 1 3))"
    by (simp_all add: assms(1) trio_start_def sys_start_def Client_new_def)
  have sh: "shard_of 1 3 (sender x) = 1" "shard_of 1 3 (receiver x) = 1"
    using assms(2) by (auto simp: transfers_def trio_shards)
  have stub: "server_name_of i \<in> set (client_stubs (coord g))"
    using map_of_SomeD [OF trio_shards(3) [OF assms(3)]] by (force simp: cs)
  show "\<not> cross_shard (client_consts (coord g)) x" by (simp add: cross_shard_def cs sh)
  show lead: "map_of (server_ids (client_consts (coord g))) (leader_of (coord g) [server_name_of i] (sender x)) = Some i"
    using trio_shards(3) [OF assms(3)] by (simp add: leader_of_def cs sh)
  have "txn_ok x" using assms(2) by (auto simp: transfers_def txn_ok_def int32_def)
  moreover have "int64 now" using assms(4,5) by (simp add: int64_def)
  ultimately show "submission_ok g [server_name_of i] x now"
    using assms(4,6) stub trio_shards(3) [OF assms(3)] trio_shards(2) [OF assms(3)]
    by (simp add: submission_ok_def leaders_fit_def leaders_ok_def leader_of_def cs(1) sh)
qed

lemma trio_reachable:
  obtains k g where "submitted [server_name_of 1] first_transfer 5 trio_start = Some k"
    and "submitted [server_name_of 2] second_transfer 6 k = Some g" and "no_disconnections g"
    and "trio g 1 2 3 \<lparr>req_txn = first_transfer, req_tid = 5\<rparr> \<lparr>req_txn = second_transfer, req_tid = 6\<rparr>"
proof -
  let ?r = "\<lparr>req_txn = first_transfer, req_tid = 5\<rparr>" and ?q = "\<lparr>req_txn = second_transfer, req_tid = 6\<rparr>"
  have none: "asked trio_start = {}" by (simp add: trio_start_def sys_start_def asked_def)
  obtain g1 where g1: "submitted [server_name_of 1] first_transfer 5 trio_start = Some g1" "node g1 = node trio_start" "coord g1 = coord trio_start"
    "net g1 = net trio_start @ [Serving False 1 ?r no_TransferRes]" "asked g1 = insert ?r (asked trio_start)"
    using submit_intra [OF trio_submission [of trio_start first_transfer 1 5]] none by auto
  have pre: "coord g1 = coord trio_start" "second_transfer \<in> {first_transfer, second_transfer}" "(2::int) \<in> {1..3}"
    "0 < (6::int)" "(6::int) < 10" "\<forall>r \<in> asked g1. req_tid r \<noteq> 6"
    using g1(3,5) none by simp_all
  obtain g where g: "submitted [server_name_of 2] second_transfer 6 g1 = Some g" "node g = node g1" "net g = net g1 @ [Serving False 2 ?q no_TransferRes]"
    using submit_intra [OF trio_submission [OF pre]] by blast
  have node: "node g i = started (fresh_setup 1 3) i (server_name_of i) empty_file plain_boot" for i
    using g(2) g1(2) by (simp add: trio_start_def sys_start_def)
  have i: "i \<in> members 1 3" if "i \<in> {1, 2, 3}" for i using that by (auto simp: members_def)
  have "ready_leader \<lparr>req_txn = x, req_tid = t\<rparr> (node g i)" if "i \<in> {1, 2, 3}" "x \<in> {first_transfer, second_transfer}" for i x t
    using start_ready(1) [OF trio_deployment i [OF that(1)], of x "node (sys_start 1 3 (\<lambda>_. empty_file) (\<lambda>_. plain_boot))" "\<lambda>_. plain_boot"] that(2)
    by (auto simp: g(2) g1(2) trio_start_def transfers_def txn_ok_def int32_def total_clients_def)
  moreover have "isClientInCluster (node g i) c" if "i \<in> {1, 2, 3}" "c \<in> {1..4}" for i c
    using that trio_shards(1) [of c] trio_shards(2) [of i] by (auto simp: isClientInCluster_def node started_eq)
  moreover have "set (stubs (node g i)) = {1, 2, 3} - {i}" if "i \<in> {1, 2, 3}" for i
    using stubs_of_member [of 1 3 i] that trio_shards(2) [of i] by (auto simp: node setup_ok_def block_def)
  moreover have "\<not> i_am_disconnected (node g i)" "ballot_num (node g i) = 0" "last_inserted (node g i) = - 1"
    "log (node g i) = []" "writable (walFile (wal (node g i)))" for i
    by (simp_all add: node started_eq WAL_init_def empty_file_def)
  ultimately have "trio g 1 2 3 ?r ?q"
    using g(3) g1(4) by (auto simp: trio_def in_cluster_count_def transfers_def)
  moreover have "no_disconnections g"
    by (simp add: no_disconnections_def g(2,3) g1(2,4)) (simp add: trio_start_def sys_start_def started_eq)
  ultimately show thesis using that [OF g1(1) g(1)] by blast
qed

text \<open>
  C32. Replicas can diverge: in a cluster of three servers the client is asked for two
  transfers, for which it is told two different leaders, and after that only deliveries happen:
  nothing is lost, no call fails, and no server is ever disconnected. They can lead to a state in
  which the leader of one transfer has told the client that it succeeded, and this leader and a
  replica have different committed transfers at the same place of their logs, under the same
  ballot.
\<close>

theorem logs_can_diverge:
  "\<exists>lds lds' k f g i j d e.
    submitted lds first_transfer 5 (sys_start 1 3 (\<lambda>_. empty_file) (\<lambda>_. plain_boot)) = Some k
    \<and> submitted lds' second_transfer 6 k = Some f \<and> deliveries f g \<and> (\<forall>n. \<not> i_am_disconnected (node g n))
    \<and> peers 1 3 i j \<and> log (node g i) = [d] \<and> log (node g j) = [e] \<and> e_status d = COMMITTED \<and> e_status e = COMMITTED
    \<and> e_tid d \<noteq> e_tid e \<and> e_txn d \<noteq> e_txn e \<and> e_ballot_num d = e_ballot_num e \<and> e_ballot_server_id d = e_ballot_server_id e
    \<and> TransferAnswer False i \<lparr>res_ack = True, res_tid = e_tid d\<rparr> \<in> set (net g)"
proof -
  let ?e = "\<lambda>x t b. req_entry \<lparr>req_txn = x, req_tid = t\<rparr> b INTRA COMMITTED"
  obtain k f where f: "submitted [server_name_of 1] first_transfer 5 trio_start = Some k"
    "submitted [server_name_of 2] second_transfer 6 k = Some f" "no_disconnections f"
    "trio f 1 2 3 \<lparr>req_txn = first_transfer, req_tid = 5\<rparr> \<lparr>req_txn = second_transfer, req_tid = 6\<rparr>"
    using trio_reachable .
  obtain h bal where h: "deliveries f h" "log (node h 2) = [?e second_transfer 6 bal]"
    "log (node h 3) = [?e first_transfer 5 bal]" "TransferAnswer False 2 \<lparr>res_ack = True, res_tid = 6\<rparr> \<in> set (net h)"
    using trio_diverges [OF f(4)] by auto
  have "\<forall>n. \<not> i_am_disconnected (node h n)"
    using deliveries_connected [OF h(1) f(3)] by (simp add: no_disconnections_def)
  moreover have "peers 1 3 2 3" by (simp add: peers_def members_def trio_shards)
  ultimately show ?thesis
    using f(1,2) h
    by (intro exI [of _ "[server_name_of 1]"] exI [of _ "[server_name_of 2]"] exI [of _ k] exI [of _ f] exI [of _ h]
        exI [of _ "2::int"] exI [of _ "3::int"] exI [of _ "?e second_transfer 6 bal"] exI [of _ "?e first_transfer 5 bal"])
      (simp add: trio_start_def req_entry_def transfers_def)
qed

end
