(* ===== verification/Spec2Isabelle.thy ===== *)
theory Spec2Isabelle
  imports Tpc_Store Tpc_WAL_Props Tpc_Money Tpc_Rounds Tpc_Server_Main Tpc_CSV_Props Tpc_Driver Tpc_Network_Spec
    Tpc_Network_Money Tpc_Network_Diverge
begin

text \<open>
  A verification of the sharded bank of this repository: clients are divided into shards, each
  shard is a cluster of servers that agree on transfers by a variant of Paxos, and transfers
  between shards are committed by two-phase commit with the client program as coordinator.

  \<^bold>\<open>The program.\<close> The driver (\<open>src/src/driver.cc\<close>) reads commands, reads sets of
  transactions from a CSV file (\<open>utils/csv_reader.cc\<close>) and hands them to the client
  (\<open>client/client.cc\<close>). The client sends an intra-shard transfer to the leader of its cluster
  and a cross-shard one as a prepare request to the leaders of both clusters; when both votes
  are in it sends the decision to all servers of both clusters. A server
  (\<open>server/server.cc\<close>) is an event loop: \<open>InCall\<close> objects serve requests, \<open>OutCall\<close> objects
  carry requests to the peers. The leader of a transfer runs prepare, accept and commit over
  its cluster, keeps locks on clients, and logs in memory and in a write-ahead log
  (\<open>server/wal.cc\<close>); it also writes balances to a key-value store, which may fail to take them. A server whose log lags
  behind copies the missing entries from a peer.

  \<^bold>\<open>The theories.\<close>
  \<^item> \<open>Tpc_Prelude\<close>: \<open>int\<close> as integers with wrap-around (\<open>i32\<close>), \<open>operator[]\<close> of maps, ordered
    maps as association lists, the locale \<open>assign_map\<close> with its interpretation.
  \<^item> \<open>Tpc_Std\<close>: \<open>to_string\<close>, stream extraction and \<open>stoi\<close> of the standard library, with the
    round trips of numbers through text.
  \<^item> \<open>Tpc_Types\<close>: \<open>types/types.h\<close>, \<open>constants.h\<close> and the messages of \<open>proto/tpc.proto\<close>.
  \<^item> \<open>Tpc_Utils\<close>: \<open>utils/utils.cc\<close>. The cluster of a client or server is computed in \<open>double\<close>;
    the locale \<open>double_rounding\<close> shows that a correctly rounded quotient followed by \<open>ceil\<close> is
    the integer division rounded up, and is interpreted on rounding to 53 bits.
  \<^item> \<open>Tpc_WAL\<close>, \<open>Tpc_WAL_Props\<close>: the write-ahead log as a text file with an index of
    positions. The locale \<open>prepared_log\<close> is its contract: prepared transactions are a map, from
    which each is taken at most once; file and index implement it.
  \<^item> \<open>Tpc_Server\<close>: the record \<open>ServerImpl\<close> has the members of the class, and every member
    function is a definition of the same name that returns the new state, the reply and the
    calls it starts. \<open>runPaxos\<close> is one attempt of the retried call; its phases are
    \<open>start_round\<close>, \<open>propose\<close> and \<open>conclude\<close>. LevelDB is the contents \<open>kv\<close> of the store, the
    list \<open>db\<close> of the writes asked for, and the answers \<open>put_answer\<close> that it will give to \<open>Put\<close>.
    The record \<open>Boot\<close> is what a process starts with that the sources do not determine.
  \<^item> \<open>Tpc_Server_Data\<close>, \<open>Tpc_Server_Steps\<close>, \<open>Tpc_Server_Props\<close>: the invariant of the data
    (balances are the replay of the log, the last write asked for is the balance, the log file is sound), the
    invariant of the control state, the step relation of a server over all its handlers, and
    the properties of the proposer and of decisions. The replies and requests of a step are
    arbitrary, so the invariants hold for every order and every loss of messages.
  \<^item> \<open>Tpc_Events\<close>: the handler calls as values, for properties that hold under some of them;
    \<open>Tpc_Store\<close>: what the store holds when writes may fail.
  \<^item> \<open>Tpc_Paxos\<close>: promises, accepts and commits at the replicas, and that a replica follows
    its leader.
  \<^item> \<open>Tpc_Rounds\<close>: the exchange of a prepare request and its answer, when a round ends, when it
    waits for ever, and what becomes of a leader that promises the ballot of another proposer.
  \<^item> \<open>Tpc_Cluster\<close>, \<open>Tpc_Quorum\<close>, \<open>Tpc_Money\<close>: replicas as deterministic state machines,
    synchronisation, who belongs to a cluster, majorities (locale \<open>quorum_system\<close>), the wealth
    of a cluster and atomicity across two clusters.
  \<^item> \<open>Tpc_Calls\<close>, \<open>Tpc_Calls_Props\<close>: \<open>server/in_call.cc\<close>, \<open>server/out_call.cc\<close> and
    \<open>HandleRPCs\<close>; call objects on a heap of numbered cells, gRPC as the environment that
    completes outstanding operations. The loop refines the step relation of the server.
    \<open>Tpc_Server_Main\<close> is the server process around it: \<open>main\<close>, the flag \<open>shutdown\<close>, signals.
  \<^item> \<open>Tpc_Client\<close>, \<open>Tpc_Client_Props\<close>: the coordinator.
  \<^item> \<open>Tpc_CSV\<close>, \<open>Tpc_CSV_Props\<close>, \<open>Tpc_Commands\<close>, \<open>Tpc_Driver\<close>: input files, commands, the
    command loop and \<open>main\<close>, with the exceptions that the code throws and where it catches them;
    \<open>Tpc_Process\<close>: \<open>startAllServers\<close> and \<open>killAllServers\<close>.
  \<^item> \<open>Tpc_Network\<close>: all servers of a deployment, the client and the calls between them as one
    transition system over the definitions above. \<open>Tpc_Network_Inv\<close> states its invariant
    (servers, calls under way, votes), \<open>Tpc_Server_Effects\<close>, \<open>Tpc_Network_Props\<close>,
    \<open>Tpc_Network_Client\<close> and \<open>Tpc_Network_Main\<close> show that every step keeps it,
    \<open>Tpc_Network_Live\<close> builds runs that consist of a submission and deliveries only, and \<open>Tpc_Network_Claims\<close> has what follows. The locale
    \<open>simulation\<close> of \<open>Tpc_Prelude\<close> is interpreted twice: each server of the system runs like a
    server alone (\<open>Tpc_Network_Nodes\<close>), and the system implements an abstract machine of
    atomic commitment (\<open>Tpc_Network_Spec\<close>). \<open>Tpc_Network_Money\<close> is about the money of the
    whole bank, \<open>Tpc_Network_Diverge\<close> is a run of two submissions and deliveries after which two replicas differ.
  \<^item> This theory: properties that span the coordinator, the servers, the reader and the driver.

  \<^bold>\<open>What is shown.\<close> Two-phase commit is atomic in every reachable state of the whole system,
  whatever is delayed or lost: the system refines an abstract commitment machine, and the money
  of the bank is preserved; a cross-shard transaction can commit when both clusters are quiet; safety of
  single servers in every reachable state; agreement of replicas that take part in the same
  rounds; the end of rounds; the log file as a faithful store of prepared transactions; the event loop as a machine that
  is memory-safe, always listening, and never drops a request; exact parsing of the input. Some
  properties state where the code falls short of what the README asks for: locks that
  replicas release before the decision and the overdraft this allows, decision entries that
  a synchronisation applies twice, a promise forgotten by a synchronisation, majorities that
  do not meet in clusters of more than three servers, votes lost to a failed call, a proposer
  that goes on under the ballot of another one and a reachable state in which replicas have
  committed different transfers because of it, and
  a driver and servers that never end the way they mean to.

  \<^bold>\<open>Bounds.\<close> All loops of the program are total functions here (recursion on lists, or on the
  text that is left); no fuel is used. \<open>int\<close> arithmetic wraps (\<open>i32\<close>); identifiers are 64-bit
  values (\<open>int64\<close>); hypotheses such as \<open>config_ok\<close> (at most 700000 clusters) only exclude
  overflow in the code's own products.

  \<^bold>\<open>What is not modelled.\<close> gRPC, LevelDB, the operating system and the generated message code
  (their results are arguments or steps of the environment), log
  output, the destructor \<open>~ServerImpl\<close>, which only releases resources of these libraries, the interleaving of the client's two threads inside one
  function, the formatting of finite \<open>double\<close>s (an argument), and numbers outside the two
  \<open>enum\<close>s of a \<open>LogEntry\<close>, which no server sends. Opening a file for appending puts
  its position at the end, as the C library on which the program runs does.
\<close>

section \<open>Two-phase commit from the coordinator to the servers\<close>

text \<open>What a server does with a decision of the coordinator.\<close>

fun apply_decision :: "WALEntry \<Rightarrow> ClientMsg \<Rightarrow> ServerImpl \<Rightarrow> ServerImpl" where
  "apply_decision u (SendTpcCommit n t) s = processTpcDecision u t True s"
| "apply_decision u (SendTpcAbort n t) s = processTpcDecision u t False s"
| "apply_decision u _ s = s"

text \<open>
  C5. Two-phase commit treats all servers that it reaches alike: when both votes on a
  cross-shard transaction have arrived, take any decision that the coordinator has sent about
  it, and any server whose data are as its handlers keep them (in particular its log file can be
  written) and which holds the transaction as prepared and undecided. If the server counts as
  disconnected, it drops the decision and nothing changes. Otherwise it logs the outcome, which
  is commit exactly when both clusters voted yes; the transaction is no longer pending there, and
  on commit, and only then, the money of the server's own clients is moved.
\<close>

theorem two_phase_commit:
  assumes "client_ok c" and "processing c t = Some \<lparr>tp_txn = x, successes = 0, failures = 0\<rparr>"
    and "list_all delivered es" and "filter (vote_on t) es = [a, b]"
    and "m \<in> set (fst (snd (consumeReplies es c)))" and "decision_on t m"
    and "data_ok base s" and "pending (wal s) t = Some e" and "sender (e_txn e) \<noteq> receiver (e_txn e)"
  shows "if i_am_disconnected s then apply_decision u m s = s
    else log (apply_decision u m s) = log s @ [decided (yes a \<and> yes b) e]
      \<and> pending (wal (apply_decision u m s)) t = None
      \<and> (\<forall>k. idx (balances (apply_decision u m s)) k =
          (if yes a \<and> yes b \<and> isClientInCluster s k then moved (e_txn e) k (idx (balances s) k)
           else idx (balances s) k))"
proof -
  have "m \<in> set (filter (decision_on t) (fst (snd (consumeReplies es c))))" using assms(5,6) by simp
  then have "\<exists>n. m = (if yes a \<and> yes b then SendTpcCommit n t else SendTpcAbort n t)"
    unfolding conjunct1 [OF consume_two_votes [OF assms(1-4)]] by auto
  then have m: "apply_decision u m s = processTpcDecision u t (yes a \<and> yes b) s" by (auto split: if_splits)
  show ?thesis
  proof (cases "i_am_disconnected s")
    case True
    then show ?thesis by (simp add: m processTpcDecision_def)
  next
    case False
    have "core_ok base s" using assms(7) by (simp add: data_ok_def)
    from decision_effect [OF this False assms(8,9), of u "yes a \<and> yes b"] False
    show ?thesis unfolding m by simp
  qed
qed

theorem two_phase_commit_witness:
  "\<exists>m \<in> set (fst (snd (consumeReplies [vote 42 True, vote 42 True] demo_client))).
     decision_on 42 m \<and> idx (balances (apply_decision no_entry m demo_accepted)) 1 = 0"
proof -
  let ?es = "[vote 42 True, vote 42 True]"
  let ?m = "SendTpcCommit (server_name_of 1) 42"
  have cl: "getClusterIdFromClientId (fresh_setup 3 3) 1 = 1" "getClusterIdFromClientId (fresh_setup 3 3) 1500 = 2"
    by (simp_all add: client_cluster_iff int32_def)
  have "getClusterIdFromServerId (fresh_setup 3 3) 1 = 1"
    by (subst server_cluster_eq) (simp_all add: int32_def)
  then have "server_name_of 1 \<in> set (servers_of (fresh_setup 3 3) 1 2)"
    by (force simp: servers_of_def fresh_setup_ids(3))
  moreover have "filter (decision_on 42) (fst (snd (consumeReplies ?es demo_client))) =
      map (\<lambda>n. SendTpcCommit n 42) (servers_of (fresh_setup 3 3) 1 2)"
    using consume_two_votes [OF demo_client_ok(1,3), of ?es "vote 42 True" "vote 42 True"]
    by (simp add: demo_client_ok cl del: consumeReplies.simps)
  ultimately have "?m \<in> set (filter (decision_on 42) (fst (snd (consumeReplies ?es demo_client))))" by simp
  then have m: "?m \<in> set (fst (snd (consumeReplies ?es demo_client)))" "decision_on 42 ?m" by simp_all
  have "data_ok (initial_balance demo_constants 1) demo_accepted"
    using reachable_ok [OF demo_start_ok demo_accepted_run] by (simp add: server_ok_def)
  moreover have "\<not> i_am_disconnected demo_accepted" "balances demo_accepted = balances demo_server"
    "isClientInCluster demo_accepted 1"
    by (simp_all add: demo_accepted_eq isClientInCluster_def demo_cross_members)
  ultimately have "idx (balances (apply_decision no_entry ?m demo_accepted)) 1 = 0"
    using two_phase_commit [OF demo_client_ok(1,3), of ?es "vote 42 True" "vote 42 True" ?m
        "initial_balance demo_constants 1" demo_accepted "req_entry demo_cross demo_ballot CROSS PREPARED" no_entry] m
    by (simp add: demo_accepted_pending req_entry_def demo_cross_def moved_def
      del: consumeReplies.simps apply_decision.simps)
  then show ?thesis using m by blast
qed

section \<open>One set of transactions through the driver\<close>

text \<open>
  C28. The command \<open>processNextSet\<close> carries out the next set of a well-formed file: every
  server is told which servers the set leaves out, then each transaction is sent to the
  leaders of its clusters, in the order of the file and each under its own clock reading; the
  reader then stands before the following set.
\<close>

theorem next_set_carried_out:
  assumes "reader_before sep i (s # ss) (app_reader a)" and "list_all spec_ok (s # ss)"
    and "sep \<in> {'','', '', ''}" and "i + 2 < 2147483647" and "int (length (sp_others s)) < 2147483647"
    and "list_all (leaders_ok (app_client a) (sp_leaders s)) (sp_first s # sp_others s)"
  shows "\<exists>a' out. mainloop_turn fmt env ''processNextSet'' a =
      (a', updateDisconnected (not_listed (client_consts (app_client a)) (sp_servers s)) (app_client a)
           @ concat (map (messages_for (app_client a) (sp_leaders s))
               (stamped (clock env) (sp_first s # sp_others s))), out, Continue)
    \<and> reader_before sep (i + 1) ss (app_reader a')"
proof -
  let ?c = "app_client a" let ?ts = "stamped (clock env) (sp_first s # sp_others s)"
  obtain r' where r': "readNextSet (client_consts ?c) (app_set a) (app_reader a) =
      (r', result_of (client_consts ?c) (i + 1) s, Inr (i32 (int (Suc (length (sp_others s))))))"
      "reader_before sep (i + 1) ss r'"
    using read_one [OF assms(1-4), of "client_consts ?c" "app_set a"] by blast
  have "i32 (int (Suc (length (sp_others s)))) = int (Suc (length (sp_others s)))"
    using assms(5) by (intro i32_id) (simp add: int32_def)
  then have n: "i32 (int (Suc (length (sp_others s)))) \<noteq> 0" by simp
  have "fst ` set ?ts \<subseteq> set (sp_first s # sp_others s)" by (auto simp: stamped_def dest: set_zip_leftD)
  then have "list_all (\<lambda>tn. leaders_ok ?c (sp_leaders s) (fst tn)) ?ts"
    using assms(6) by (auto simp: list_all_iff simp del: list.set)
  from processTransactions_eq [OF this] obtain d where
    "processTransactions ?ts (sp_leaders s) ?c = Inr (d, concat (map (messages_for ?c (sp_leaders s)) ?ts))"
    by blast
  then show ?thesis
    using r' n parse_word [of "''processNextSet''"]
    by (simp add: mainloop_turn_def processNextSet_def result_of_def Let_def)
qed

definition demo_set :: set_spec where
  "demo_set = \<lparr>sp_first = \<lparr>sender = 1, receiver = 1500, amount = 10\<rparr>,
     sp_others = [\<lparr>sender = 2, receiver = 3, amount = 1\<rparr>],
     sp_servers = [''S1'', ''S2'', ''S3''], sp_leaders = [''S1'', ''S4'', ''S7'']\<rparr>"

definition demo_app :: App where
  "demo_app = \<lparr>app_reader = \<lparr>csv_file = rows_text '', '' (sets_rows 1 [demo_set]), currentSetNo = 0,
       currentTransactionSet = empty_set, nextTransactionSet = empty_set\<rparr>,
     app_client = demo_client, app_set = empty_set, app_pids = []\<rparr>"

definition demo_outside :: Outside where
  "demo_outside = \<lparr>clock = int, balance_answer = Map.empty, log_answer = Map.empty, kill_ok = (\<lambda>_. True),
     completed = []\<rparr>"

theorem next_set_carried_out_witness:
  "\<exists>a' msgs out. mainloop_turn (\<lambda>_. []) demo_outside ''processNextSet'' demo_app =
     (a', msgs @ [SendTpcPrepare ''S1'' \<lparr>req_txn = \<lparr>sender = 1, receiver = 1500, amount = 10\<rparr>, req_tid = 0\<rparr>,
                  SendTpcPrepare ''S4'' \<lparr>req_txn = \<lparr>sender = 1, receiver = 1500, amount = 10\<rparr>, req_tid = 0\<rparr>,
                  SendTransfer ''S1'' \<lparr>req_txn = \<lparr>sender = 2, receiver = 3, amount = 1\<rparr>, req_tid = 1\<rparr>],
      out, Continue)"
proof -
  have "reader_before '', '' 0 [demo_set] (app_reader demo_app)"
    by (simp add: reader_before_def demo_app_def next_empty_def empty_set_def)
  moreover have "list_all spec_ok [demo_set]"
    by (simp add: demo_set_def spec_ok_def row_ok_def first_row_def other_row_def int32_def plain_def)
  moreover have "list_all (leaders_ok (app_client demo_app) (sp_leaders demo_set))
      (sp_first demo_set # sp_others demo_set)"
    using demo_client_leaders
    by (simp add: leaders_ok_def demo_app_def demo_set_def demo_client_ok demo_client_clusters)
  moreover have "concat (map (messages_for demo_client [''S1'', ''S4'', ''S7''])
      (stamped int (sp_first demo_set # sp_others demo_set))) =
     [SendTpcPrepare ''S1'' \<lparr>req_txn = \<lparr>sender = 1, receiver = 1500, amount = 10\<rparr>, req_tid = 0\<rparr>,
      SendTpcPrepare ''S4'' \<lparr>req_txn = \<lparr>sender = 1, receiver = 1500, amount = 10\<rparr>, req_tid = 0\<rparr>,
      SendTransfer ''S1'' \<lparr>req_txn = \<lparr>sender = 2, receiver = 3, amount = 1\<rparr>, req_tid = 1\<rparr>]"
    by (simp add: stamped_def demo_set_def messages_for_def cross_shard_def leader_of_def demo_client_ok
      demo_client_clusters Let_def)
  moreover have "app_client demo_app = demo_client" "clock demo_outside = int"
    "sp_leaders demo_set = [''S1'', ''S4'', ''S7'']" "length (sp_others demo_set) = 1"
    by (simp_all add: demo_app_def demo_outside_def demo_set_def)
  ultimately show ?thesis
    using next_set_carried_out [of "'', ''" 0 demo_set "[]" demo_app "\<lambda>_. []" demo_outside] by auto
qed

end
